(* ===== verification/Prelude.thy ===== *)
theory Prelude
  imports Main "HOL-Library.Word" "HOL-Library.AList"
begin

text \<open>
  Shared vocabulary of the development: the machine integers and fixed-size byte arrays of the Go
  sources, big-endian conversions between byte slices and numbers, Go's \<open>sort.Search\<close>, results of
  code that may panic, and the generic lemmas on lists, maps and words that the components use.

  Conventions. A Go slice of bytes is a \<open>byte list\<close>; the sources never distinguish a nil slice from
  an empty one by more than a presence test, and where they do the component says how that is
  modelled. \<open>common.Hash\<close> (32 bytes) and \<open>common.Address\<close> (20 bytes) are read as big-endian words,
  which is a bijection. \<open>*big.Int\<close> is \<open>int\<close>, \<open>uint64\<close> is \<open>64 word\<close> (arithmetic wraps).
\<close>

unbundle bit_operations_syntax

type_synonym byte = "8 word"
type_synonym u16 = "16 word"
type_synonym u64 = "64 word"
type_synonym u256 = "256 word"
type_synonym hash = "256 word"
type_synonym address = "160 word"
type_synonym bytes = "byte list"

named_theorems vm_simps \<open>evaluation of the virtual machine's building blocks\<close>
named_theorems panic_simps \<open>which results are panics\<close>

subsection \<open>Byte slices and numbers\<close>

definition MaxUint64 :: u64 where
  "MaxUint64 = - 1"

definition bytes_to_nat :: "bytes \<Rightarrow> nat" where
  "bytes_to_nat bs = foldl (\<lambda>n b. n * 256 + unat b) 0 bs"

fun be_bytes :: "nat \<Rightarrow> nat \<Rightarrow> bytes" where
  "be_bytes 0 v = []"
| "be_bytes (Suc n) v = be_bytes n (v div 256) @ [word_of_nat v]"

lemma unat_byte_less: "unat (b :: byte) < 256"
  using unsigned_less[of b, where ?'a = nat] by simp

lemma unat_u64_less: "unat (x :: u64) < 2 ^ 64"
  using unsigned_less[of x, where ?'a = nat] by simp

lemma length_be_bytes [simp]: "length (be_bytes n v) = n"
  by (induction n arbitrary: v) auto

lemma bytes_to_nat_Nil [simp]: "bytes_to_nat [] = 0"
  by (simp add: bytes_to_nat_def)

lemma bytes_to_nat_snoc [simp]: "bytes_to_nat (bs @ [b]) = bytes_to_nat bs * 256 + unat b"
  by (simp add: bytes_to_nat_def)

lemma bytes_to_nat_append: "bytes_to_nat (xs @ ys) = bytes_to_nat xs * 256 ^ length ys + bytes_to_nat ys"
proof (induction ys rule: rev_induct)
  case Nil
  show ?case by simp
next
  case (snoc y ys)
  have "bytes_to_nat (xs @ ys @ [y]) = bytes_to_nat (xs @ ys) * 256 + unat y"
    using bytes_to_nat_snoc[of "xs @ ys" y] by simp
  with snoc show ?case by (simp add: algebra_simps)
qed

lemma bytes_to_nat_Cons: "bytes_to_nat (b # bs) = unat b * 256 ^ length bs + bytes_to_nat bs"
  using bytes_to_nat_append[of "[b]" bs] bytes_to_nat_snoc[of "[]" b] by simp

lemma bytes_to_nat_bound: "bytes_to_nat bs < 256 ^ length bs"
proof (induction bs rule: rev_induct)
  case Nil
  show ?case by simp
next
  case (snoc b bs)
  have "unat b < 256" by (rule unat_byte_less)
  moreover from snoc have "Suc (bytes_to_nat bs) * 256 \<le> 256 ^ length bs * 256"
    by (intro mult_le_mono1) simp
  ultimately show ?case by simp
qed

lemma bytes_to_nat_be_bytes: "bytes_to_nat (be_bytes n v) = v mod 256 ^ n"
proof (induction n arbitrary: v)
  case 0
  show ?case by simp
next
  case (Suc n)
  have "unat (word_of_nat v :: byte) = v mod 256" by (simp add: unat_of_nat)
  with Suc show ?case
    by (simp add: mod_mult2_eq mult.commute)
qed

lemma be_bytes_bytes_to_nat: "be_bytes (length bs) (bytes_to_nat bs) = bs"
proof (induction bs rule: rev_induct)
  case Nil
  show ?case by simp
next
  case (snoc b bs)
  have b: "unat b < 256" by (rule unat_byte_less)
  have "(bytes_to_nat bs * 256 + unat b) div 256 = bytes_to_nat bs" using b by simp
  moreover have "unat (word_of_nat (bytes_to_nat bs * 256 + unat b) :: byte) = unat b"
    using b by (simp only: unat_of_nat) simp
  then have "(word_of_nat (bytes_to_nat bs * 256 + unat b) :: byte) = b"
    by (simp only: word_unat_eq_iff)
  ultimately show ?case using snoc by simp
qed

subsection \<open>Bit lengths\<close>

text \<open>\<open>BitLen\<close> of \<open>math/big\<close>, \<open>bits.Len64\<close> of \<open>math/bits\<close>: the length of a number in binary.\<close>

fun bitlen :: "nat \<Rightarrow> nat" where
  "bitlen n = (if n = 0 then 0 else Suc (bitlen (n div 2)))"

declare bitlen.simps [simp del]

lemma bitlen_0 [simp]: "bitlen 0 = 0"
  by (simp add: bitlen.simps)

lemma bitlen_le_iff: "bitlen n \<le> k \<longleftrightarrow> n < 2 ^ k"
proof (induction n arbitrary: k rule: bitlen.induct)
  case (1 n)
  show ?case
  proof (cases "n = 0")
    case False
    then show ?thesis
    proof (cases k)
      case (Suc j)
      have "bitlen n \<le> k \<longleftrightarrow> bitlen (n div 2) \<le> j"
        using False Suc by (simp add: bitlen.simps[of n])
      also have "\<dots> \<longleftrightarrow> n div 2 < 2 ^ j" using 1 False by blast
      also have "\<dots> \<longleftrightarrow> n < 2 ^ k" using Suc by (auto simp: less_mult_imp_div_less)
      finally show ?thesis .
    qed (simp add: bitlen.simps[of n])
  qed simp
qed

subsection \<open>Binary search\<close>

text \<open>
  \<open>sort.Search(n, f)\<close> of the Go library, as its loop: the smallest index in \<open>[0, n)\<close> at which
  \<open>f\<close> is true, provided that \<open>f\<close> is false up to some index and true from there on.
\<close>

function search_loop :: "(nat \<Rightarrow> bool) \<Rightarrow> nat \<Rightarrow> nat \<Rightarrow> nat" where
  "search_loop f i j =
     (if i < j then
        let h = (i + j) div 2 in if \<not> f h then search_loop f (h + 1) j else search_loop f i h
      else i)"
  by pat_completeness auto
termination
  by (relation "measure (\<lambda>(f, i, j). j - i)") auto

definition sort_Search :: "nat \<Rightarrow> (nat \<Rightarrow> bool) \<Rightarrow> nat" where
  "sort_Search n f = search_loop f 0 n"

declare search_loop.simps [simp del]

lemma search_loop_threshold:
  assumes "i \<le> k" "k \<le> j" "\<And>h. h < j \<Longrightarrow> f h \<longleftrightarrow> k \<le> h"
  shows "search_loop f i j = k"
  using assms
proof (induction f i j rule: search_loop.induct)
  case (1 f i j)
  show ?case
  proof (cases "i < j")
    case True
    let ?h = "(i + j) div 2"
    have h: "i \<le> ?h" "?h < j" using True by auto
    then have "f ?h \<longleftrightarrow> k \<le> ?h" using 1(5) by blast
    with True h show ?thesis
      using 1 by (cases "f ?h") (auto simp: search_loop.simps[of f i j] Let_def)
  qed (use 1 in \<open>simp add: search_loop.simps[of f i j]\<close>)
qed

lemma sort_Search_threshold:
  "k \<le> n \<Longrightarrow> (\<And>h. h < n \<Longrightarrow> f h \<longleftrightarrow> k \<le> h) \<Longrightarrow> sort_Search n f = k"
  by (simp add: sort_Search_def search_loop_threshold)

end
