(* ===== verification/Params.thy ===== *)
theory Params
  imports Prelude
begin

text \<open>
  The protocol constants of \<open>src/params/protocol_params.go\<close> and the step prices of
  \<open>src/core/vm/gas.go\<close> that the virtual machine, the state transition and the header checks use.
\<close>

definition GasLimitBoundDivisor :: u64 where
  "GasLimitBoundDivisor = 1024"

definition MinGasLimit :: u64 where
  "MinGasLimit = 5000"

definition MaxGasLimit :: u64 where
  "MaxGasLimit = 20000000"

definition MaximumExtraDataSize :: u64 where
  "MaximumExtraDataSize = 32"

definition CallValueTransferGas :: u64 where
  "CallValueTransferGas = 9000"

definition CallNewAccountGas :: u64 where
  "CallNewAccountGas = 25000"

definition TxGas :: u64 where
  "TxGas = 21000"

definition TxGasContractCreation :: u64 where
  "TxGasContractCreation = 53000"

definition TxDataZeroGas :: u64 where
  "TxDataZeroGas = 4"

definition QuadCoeffDiv :: u64 where
  "QuadCoeffDiv = 512"

definition LogDataGas :: u64 where
  "LogDataGas = 8"

definition CallStipend :: u64 where
  "CallStipend = 2300"

definition Keccak256Gas :: u64 where
  "Keccak256Gas = 30"

definition Keccak256WordGas :: u64 where
  "Keccak256WordGas = 6"

definition InitCodeWordGas :: u64 where
  "InitCodeWordGas = 2"

definition SstoreSentryGasEIP2200 :: u64 where
  "SstoreSentryGasEIP2200 = 2300"

definition SstoreSetGasEIP2200 :: u64 where
  "SstoreSetGasEIP2200 = 20000"

definition SstoreResetGasEIP2200 :: u64 where
  "SstoreResetGasEIP2200 = 5000"

definition ColdAccountAccessCostEIP2929 :: u64 where
  "ColdAccountAccessCostEIP2929 = 2600"

definition ColdSloadCostEIP2929 :: u64 where
  "ColdSloadCostEIP2929 = 2100"

definition WarmStorageReadCostEIP2929 :: u64 where
  "WarmStorageReadCostEIP2929 = 100"

definition JumpdestGas :: u64 where
  "JumpdestGas = 1"

definition CreateDataGas :: u64 where
  "CreateDataGas = 200"

definition CallCreateDepth :: u64 where
  "CallCreateDepth = 1024"

definition ExpGas :: u64 where
  "ExpGas = 10"

definition LogGas :: u64 where
  "LogGas = 375"

definition CopyGas :: u64 where
  "CopyGas = 3"

definition StackLimit :: u64 where
  "StackLimit = 1024"

definition LogTopicGas :: u64 where
  "LogTopicGas = 375"

definition CreateGas :: u64 where
  "CreateGas = 32000"

definition Create2Gas :: u64 where
  "Create2Gas = 32000"

definition MemoryGas :: u64 where
  "MemoryGas = 3"

definition TxDataNonZeroGasEIP2028 :: u64 where
  "TxDataNonZeroGasEIP2028 = 16"

definition TxAccessListAddressGas :: u64 where
  "TxAccessListAddressGas = 2400"

definition TxAccessListStorageKeyGas :: u64 where
  "TxAccessListStorageKeyGas = 1900"

definition ExpByteEIP158 :: u64 where
  "ExpByteEIP158 = 50"

definition Sha256BaseGas :: u64 where
  "Sha256BaseGas = 60"

definition Sha256PerWordGas :: u64 where
  "Sha256PerWordGas = 12"

definition IdentityBaseGas :: u64 where
  "IdentityBaseGas = 15"

definition IdentityPerWordGas :: u64 where
  "IdentityPerWordGas = 3"

definition RefundQuotientEIP3529 :: u64 where
  "RefundQuotientEIP3529 = 5"

definition SstoreClearsScheduleRefundEIP3529 :: u64 where
  "SstoreClearsScheduleRefundEIP3529 =
     SstoreResetGasEIP2200 - ColdSloadCostEIP2929 + TxAccessListStorageKeyGas"

definition MaxCodeSize :: nat where
  "MaxCodeSize = 24576"

definition MaxInitCodeSize :: nat where
  "MaxInitCodeSize = 2 * MaxCodeSize"

definition DefaultBaseFeeChangeDenominator :: nat where
  "DefaultBaseFeeChangeDenominator = 8"

definition DefaultElasticityMultiplier :: nat where
  "DefaultElasticityMultiplier = 2"

definition GasQuickStep :: u64 where
  "GasQuickStep = 2"

definition GasFastestStep :: u64 where
  "GasFastestStep = 3"

definition GasFastStep :: u64 where
  "GasFastStep = 5"

definition GasMidStep :: u64 where
  "GasMidStep = 8"

definition GasSlowStep :: u64 where
  "GasSlowStep = 10"

definition GasExtStep :: u64 where
  "GasExtStep = 20"

lemmas params_defs [simp] =
  GasLimitBoundDivisor_def MinGasLimit_def MaxGasLimit_def MaximumExtraDataSize_def
  CallValueTransferGas_def CallNewAccountGas_def TxGas_def TxGasContractCreation_def
  TxDataZeroGas_def QuadCoeffDiv_def LogDataGas_def CallStipend_def Keccak256Gas_def
  Keccak256WordGas_def InitCodeWordGas_def SstoreSentryGasEIP2200_def SstoreSetGasEIP2200_def
  SstoreResetGasEIP2200_def ColdAccountAccessCostEIP2929_def ColdSloadCostEIP2929_def
  WarmStorageReadCostEIP2929_def JumpdestGas_def CreateDataGas_def CallCreateDepth_def ExpGas_def
  LogGas_def CopyGas_def StackLimit_def LogTopicGas_def CreateGas_def Create2Gas_def MemoryGas_def
  TxDataNonZeroGasEIP2028_def TxAccessListAddressGas_def TxAccessListStorageKeyGas_def
  ExpByteEIP158_def Sha256BaseGas_def Sha256PerWordGas_def IdentityBaseGas_def
  IdentityPerWordGas_def RefundQuotientEIP3529_def SstoreClearsScheduleRefundEIP3529_def
  MaxCodeSize_def MaxInitCodeSize_def DefaultBaseFeeChangeDenominator_def
  DefaultElasticityMultiplier_def GasQuickStep_def GasFastestStep_def GasFastStep_def GasMidStep_def
  GasSlowStep_def GasExtStep_def

end
