(* ===== verification/Uint256.thy ===== *)
theory Uint256
  imports Prelude "HOL-Library.Signed_Division"
begin

text \<open>
  The 256-bit integers of the external package \<open>github.com/holiman/uint256\<close>, which the virtual
  machine computes with. Its code is not part of the repository, so its methods are the fields of a
  record that every definition using them takes as an argument; a value of \<open>uint256.Int\<close> is a
  \<open>256 word\<close>. A method that writes its receiver is a function of its operands.

  The locale \<open>uint256\<close> states the documented behaviour of the methods. Facts that hold for every
  package do not mention it; facts that need the behaviour take it as a hypothesis. The record
  \<open>uint256_words\<close> meets the contract, computing with the words of the library.
\<close>

record uint256_lib =
  u_Add :: "u256 \<Rightarrow> u256 \<Rightarrow> u256"
  u_Sub :: "u256 \<Rightarrow> u256 \<Rightarrow> u256"
  u_Mul :: "u256 \<Rightarrow> u256 \<Rightarrow> u256"
  u_Div :: "u256 \<Rightarrow> u256 \<Rightarrow> u256"
  u_SDiv :: "u256 \<Rightarrow> u256 \<Rightarrow> u256"
  u_Mod :: "u256 \<Rightarrow> u256 \<Rightarrow> u256"
  u_SMod :: "u256 \<Rightarrow> u256 \<Rightarrow> u256"
  u_Exp :: "u256 \<Rightarrow> u256 \<Rightarrow> u256"
  u_ExtendSign :: "u256 \<Rightarrow> u256 \<Rightarrow> u256"
  u_Not :: "u256 \<Rightarrow> u256"
  u_Lt :: "u256 \<Rightarrow> u256 \<Rightarrow> bool"
  u_Gt :: "u256 \<Rightarrow> u256 \<Rightarrow> bool"
  u_Slt :: "u256 \<Rightarrow> u256 \<Rightarrow> bool"
  u_Sgt :: "u256 \<Rightarrow> u256 \<Rightarrow> bool"
  u_Eq :: "u256 \<Rightarrow> u256 \<Rightarrow> bool"
  u_IsZero :: "u256 \<Rightarrow> bool"
  u_And :: "u256 \<Rightarrow> u256 \<Rightarrow> u256"
  u_Or :: "u256 \<Rightarrow> u256 \<Rightarrow> u256"
  u_Xor :: "u256 \<Rightarrow> u256 \<Rightarrow> u256"
  u_Byte :: "u256 \<Rightarrow> u256 \<Rightarrow> u256"
  u_AddMod :: "u256 \<Rightarrow> u256 \<Rightarrow> u256 \<Rightarrow> u256"
  u_MulMod :: "u256 \<Rightarrow> u256 \<Rightarrow> u256 \<Rightarrow> u256"
  u_Lsh :: "u256 \<Rightarrow> nat \<Rightarrow> u256"
  u_Rsh :: "u256 \<Rightarrow> nat \<Rightarrow> u256"
  u_SRsh :: "u256 \<Rightarrow> nat \<Rightarrow> u256"
  u_Sign :: "u256 \<Rightarrow> int"
  u_BitLen :: "u256 \<Rightarrow> nat"
  u_IsUint64 :: "u256 \<Rightarrow> bool"
  u_Uint64 :: "u256 \<Rightarrow> u64"
  u_LtUint64 :: "u256 \<Rightarrow> u64 \<Rightarrow> bool"
  u_GtUint64 :: "u256 \<Rightarrow> u64 \<Rightarrow> bool"
  u_Uint64WithOverflow :: "u256 \<Rightarrow> u64 \<times> bool"
  u_SetUint64 :: "u64 \<Rightarrow> u256"
  u_SetBytes :: "bytes \<Rightarrow> u256"
  u_Bytes32 :: "u256 \<Rightarrow> hash"
  u_Bytes20 :: "u256 \<Rightarrow> address"
  u_FromBig :: "int \<Rightarrow> u256"
  u_ToBig :: "u256 \<Rightarrow> int"

subsection \<open>The documented behaviour\<close>

definition extend_sign_word :: "u256 \<Rightarrow> u256 \<Rightarrow> u256" where
  "extend_sign_word x b =
     (if 30 < unat b then x
      else let n = unat b * 8 + 8 in
        if bit x (n - 1) then x OR NOT (mask n) else x AND mask n)"

definition byte_word :: "u256 \<Rightarrow> u256 \<Rightarrow> u256" where
  "byte_word x n = (if unat n < 32 then drop_bit (8 * (31 - unat n)) x AND 255 else 0)"

locale uint256 =
  fixes U :: uint256_lib
  assumes Add: "u_Add U x y = x + y"
    and Sub: "u_Sub U x y = x - y"
    and Mul: "u_Mul U x y = x * y"
    and Div: "u_Div U x y = (if y = 0 then 0 else x div y)"
    and SDiv: "u_SDiv U x y = (if y = 0 then 0 else word_of_int (sint x sdiv sint y))"
    and Mod: "u_Mod U x y = (if y = 0 then 0 else x mod y)"
    and SMod: "u_SMod U x y = (if y = 0 then 0 else word_of_int (sint x smod sint y))"
    and Exp: "u_Exp U x y = x ^ unat y"
    and ExtendSign: "u_ExtendSign U x y = extend_sign_word x y"
    and Not: "u_Not U x = NOT x"
    and Lt: "u_Lt U x y = (x < y)"
    and Gt: "u_Gt U x y = (y < x)"
    and Slt: "u_Slt U x y = (sint x < sint y)"
    and Sgt: "u_Sgt U x y = (sint y < sint x)"
    and Eq: "u_Eq U x y = (x = y)"
    and IsZero: "u_IsZero U x = (x = 0)"
    and And: "u_And U x y = x AND y"
    and Or: "u_Or U x y = x OR y"
    and Xor: "u_Xor U x y = x XOR y"
    and Byte: "u_Byte U x y = byte_word x y"
    and AddMod: "u_AddMod U x y m =
          (if m = 0 then 0 else word_of_nat ((unat x + unat y) mod unat m))"
    and MulMod: "u_MulMod U x y m =
          (if m = 0 then 0 else word_of_nat ((unat x * unat y) mod unat m))"
    and Lsh: "u_Lsh U x n = push_bit n x"
    and Rsh: "u_Rsh U x n = drop_bit n x"
    and SRsh: "u_SRsh U x n = signed_drop_bit n x"
    and Sign: "u_Sign U x = sgn (sint x)"
    and BitLen: "u_BitLen U x = bitlen (unat x)"
    and IsUint64: "u_IsUint64 U x = (unat x < 2 ^ 64)"
    and Uint64: "u_Uint64 U x = ucast x"
    and LtUint64: "u_LtUint64 U x w = (unat x < unat w)"
    and GtUint64: "u_GtUint64 U x w = (unat w < unat x)"
    and Uint64WithOverflow: "u_Uint64WithOverflow U x = (ucast x, 2 ^ 64 \<le> unat x)"
    and SetUint64: "u_SetUint64 U w = ucast w"
    and SetBytes: "u_SetBytes U bs = word_of_nat (bytes_to_nat bs)"
    and Bytes32: "u_Bytes32 U x = x"
    and Bytes20: "u_Bytes20 U x = ucast x"
    and FromBig: "u_FromBig U i = word_of_int i"
    and ToBig: "u_ToBig U x = uint x"
begin

lemma ucast_u64_exact: "unat x < 2 ^ 64 \<Longrightarrow> unat (u_Uint64 U x) = unat x"
  by (simp add: Uint64 unsigned_ucast_eq take_bit_nat_eq_self)

end

subsection \<open>A package that meets the contract\<close>

definition uint256_words :: uint256_lib where
  "uint256_words = \<lparr>
     u_Add = (+), u_Sub = (-), u_Mul = (*),
     u_Div = (\<lambda>x y. if y = 0 then 0 else x div y),
     u_SDiv = (\<lambda>x y. if y = 0 then 0 else word_of_int (sint x sdiv sint y)),
     u_Mod = (\<lambda>x y. if y = 0 then 0 else x mod y),
     u_SMod = (\<lambda>x y. if y = 0 then 0 else word_of_int (sint x smod sint y)),
     u_Exp = (\<lambda>x y. x ^ unat y),
     u_ExtendSign = extend_sign_word,
     u_Not = (\<lambda>x. NOT x),
     u_Lt = (<), u_Gt = (\<lambda>x y. y < x),
     u_Slt = (\<lambda>x y. sint x < sint y), u_Sgt = (\<lambda>x y. sint y < sint x),
     u_Eq = (=), u_IsZero = (\<lambda>x. x = 0),
     u_And = (\<lambda>x y. x AND y), u_Or = (\<lambda>x y. x OR y), u_Xor = (\<lambda>x y. x XOR y),
     u_Byte = byte_word,
     u_AddMod = (\<lambda>x y m. if m = 0 then 0 else word_of_nat ((unat x + unat y) mod unat m)),
     u_MulMod = (\<lambda>x y m. if m = 0 then 0 else word_of_nat ((unat x * unat y) mod unat m)),
     u_Lsh = (\<lambda>x n. push_bit n x), u_Rsh = (\<lambda>x n. drop_bit n x),
     u_SRsh = (\<lambda>x n. signed_drop_bit n x),
     u_Sign = (\<lambda>x. sgn (sint x)),
     u_BitLen = (\<lambda>x. bitlen (unat x)),
     u_IsUint64 = (\<lambda>x. unat x < 2 ^ 64),
     u_Uint64 = ucast,
     u_LtUint64 = (\<lambda>x n. unat x < unat n),
     u_GtUint64 = (\<lambda>x n. unat n < unat x),
     u_Uint64WithOverflow = (\<lambda>x. (ucast x, 2 ^ 64 \<le> unat x)),
     u_SetUint64 = ucast,
     u_SetBytes = (\<lambda>bs. word_of_nat (bytes_to_nat bs)),
     u_Bytes32 = (\<lambda>x. x),
     u_Bytes20 = ucast,
     u_FromBig = word_of_int,
     u_ToBig = uint \<rparr>"

interpretation uw: uint256 uint256_words
  by unfold_locales (simp_all add: uint256_words_def)

end
