(* ===== verification/CommonLib.thy ===== *)
theory CommonLib
  imports Uint256
begin

text \<open>
  Helpers of \<open>src/common/\<close> shared by the state, the virtual machine and the codecs:
  \<open>bytes.go\<close> (padding, trimming), \<open>types.go\<close> (conversions to hashes and addresses) and
  \<open>math/integer.go\<close> (64-bit arithmetic with an overflow flag).
\<close>

subsection \<open>\<open>common/math/integer.go\<close>\<close>

text \<open>
  \<open>bits.Add64\<close>, \<open>bits.Sub64\<close> and \<open>bits.Mul64\<close> return the low word and the carry, borrow or high
  word; the flag is whether that is not zero.
\<close>

definition SafeSub :: "u64 \<Rightarrow> u64 \<Rightarrow> u64 \<times> bool" where
  "SafeSub x y = (x - y, unat x < unat y)"

definition SafeAdd :: "u64 \<Rightarrow> u64 \<Rightarrow> u64 \<times> bool" where
  "SafeAdd x y = (x + y, (unat x + unat y) div 2 ^ 64 \<noteq> 0)"

definition SafeMul :: "u64 \<Rightarrow> u64 \<Rightarrow> u64 \<times> bool" where
  "SafeMul x y = (x * y, (unat x * unat y) div 2 ^ 64 \<noteq> 0)"

lemma SafeAdd_exact: "SafeAdd x y = (z, False) \<Longrightarrow> unat z = unat x + unat y"
  by (auto simp: SafeAdd_def unat_word_ariths div_eq_0_iff)

lemma SafeMul_exact: "SafeMul x y = (z, False) \<Longrightarrow> unat z = unat x * unat y"
  by (auto simp: SafeMul_def unat_word_ariths div_eq_0_iff)

lemma SafeAdd_no_overflow: "unat x + unat y < 2 ^ 64 \<Longrightarrow> SafeAdd x y = (x + y, False)"
  by (simp add: SafeAdd_def)

lemma SafeMul_no_overflow: "unat x * unat y < 2 ^ 64 \<Longrightarrow> SafeMul x y = (x * y, False)"
  by (simp add: SafeMul_def)

subsection \<open>\<open>common/bytes.go\<close>\<close>

definition RightPadBytes :: "bytes \<Rightarrow> int \<Rightarrow> bytes" where
  "RightPadBytes b l =
     (if l \<le> int (length b) then b
      else b @ replicate (nat l - length b) 0)"

definition LeftPadBytes :: "bytes \<Rightarrow> int \<Rightarrow> bytes" where
  "LeftPadBytes b l =
     (if l \<le> int (length b) then b
      else replicate (nat l - length b) 0 @ b)"

fun TrimLeftZeroes :: "bytes \<Rightarrow> bytes" where
  "TrimLeftZeroes [] = []"
| "TrimLeftZeroes (b # bs) = (if b \<noteq> 0 then b # bs else TrimLeftZeroes bs)"

definition TrimRightZeroes :: "bytes \<Rightarrow> bytes" where
  "TrimRightZeroes s = rev (dropWhile (\<lambda>b. b = 0) (rev s))"

lemma length_RightPadBytes: "length (RightPadBytes b l) = max (length b) (nat l)"
  by (auto simp: RightPadBytes_def)

lemma length_LeftPadBytes: "length (LeftPadBytes b l) = max (length b) (nat l)"
  by (auto simp: LeftPadBytes_def)

lemma bytes_to_nat_replicate_0 [simp]: "bytes_to_nat (replicate n 0) = 0"
  by (induction n) (simp_all add: bytes_to_nat_Cons)

lemma bytes_to_nat_LeftPadBytes [simp]: "bytes_to_nat (LeftPadBytes b l) = bytes_to_nat b"
  by (simp add: LeftPadBytes_def bytes_to_nat_append)

lemma bytes_to_nat_TrimLeftZeroes [simp]: "bytes_to_nat (TrimLeftZeroes b) = bytes_to_nat b"
  by (induction b) (auto simp: bytes_to_nat_Cons)

subsection \<open>\<open>common/types.go\<close>\<close>

text \<open>\<open>SetBytes\<close> crops an input longer than the array from the left and right-aligns a shorter one.\<close>

definition BytesToHash :: "bytes \<Rightarrow> hash" where
  "BytesToHash b =
     word_of_nat (bytes_to_nat (if length b > 32 then drop (length b - 32) b else b))"

definition BytesToAddress :: "bytes \<Rightarrow> address" where
  "BytesToAddress b =
     word_of_nat (bytes_to_nat (if length b > 20 then drop (length b - 20) b else b))"

definition hash_bytes :: "hash \<Rightarrow> bytes" where
  "hash_bytes h = be_bytes 32 (unat h)"

definition address_bytes :: "address \<Rightarrow> bytes" where
  "address_bytes a = be_bytes 20 (unat a)"

lemma length_hash_bytes [simp]: "length (hash_bytes h) = 32"
  by (simp add: hash_bytes_def)

lemma length_address_bytes [simp]: "length (address_bytes a) = 20"
  by (simp add: address_bytes_def)

lemma BytesToHash_hash_bytes [simp]: "BytesToHash (hash_bytes h) = h"
proof -
  have "bytes_to_nat (hash_bytes h) = unat h"
    using unsigned_less[of h, where ?'a = nat]
    by (simp add: hash_bytes_def bytes_to_nat_be_bytes)
  then show ?thesis by (simp add: BytesToHash_def)
qed

lemma BytesToAddress_address_bytes [simp]: "BytesToAddress (address_bytes a) = a"
proof -
  have "bytes_to_nat (address_bytes a) = unat a"
    using unsigned_less[of a, where ?'a = nat]
    by (simp add: address_bytes_def bytes_to_nat_be_bytes)
  then show ?thesis by (simp add: BytesToAddress_def)
qed

lemma hash_bytes_inject [simp]: "hash_bytes h = hash_bytes k \<longleftrightarrow> h = k"
  using BytesToHash_hash_bytes by metis

lemma hash_bytes_BytesToHash: "length b = 32 \<Longrightarrow> hash_bytes (BytesToHash b) = b"
proof -
  assume l: "length b = 32"
  have "bytes_to_nat b < 256 ^ 32" using bytes_to_nat_bound[of b] l by simp
  then have "unat (word_of_nat (bytes_to_nat b) :: hash) = bytes_to_nat b"
    by (simp add: unat_of_nat)
  with l be_bytes_bytes_to_nat[of b] show ?thesis
    by (simp add: BytesToHash_def hash_bytes_def)
qed

end
