(* ===== verification/AccessList.thy ===== *)
theory AccessList
  imports CommonLib
begin

text \<open>
  \<open>src/core/state/access_list.go\<close>: the addresses and storage slots touched by a transaction. An
  address is mapped to the index of its slot set in \<open>slots\<close>, or to \<open>-1\<close> when no slot of it was
  touched. Removals happen only when the journal is unwound, in the reverse order of the additions;
  the locale \<open>inverse_pair\<close> states what the journal relies on, and the operations meet it.
\<close>

record accessList =
  addresses :: "address \<Rightarrow> int option"
  slots :: "hash set list"

definition newAccessList :: accessList where
  "newAccessList = \<lparr>addresses = (\<lambda>_. None), slots = []\<rparr>"

definition ContainsAddress :: "accessList \<Rightarrow> address \<Rightarrow> bool" where
  "ContainsAddress al a = (addresses al a \<noteq> None)"

text \<open>An index outside the slice would panic; \<open>al_wf\<close> below excludes it.\<close>

definition Contains :: "accessList \<Rightarrow> address \<Rightarrow> hash \<Rightarrow> bool \<times> bool" where
  "Contains al a sl =
     (case addresses al a of
        None \<Rightarrow> (False, False)
      | Some idx \<Rightarrow> if idx = -1 then (True, False) else (True, sl \<in> slots al ! nat idx))"

definition al_Copy :: "accessList \<Rightarrow> accessList" where
  "al_Copy al =
     newAccessList\<lparr>addresses := addresses al, slots := map (\<lambda>slotMap. {k. k \<in> slotMap}) (slots al)\<rparr>"

definition AddAddress :: "address \<Rightarrow> accessList \<Rightarrow> bool \<times> accessList" where
  "AddAddress a al =
     (case addresses al a of
        Some _ \<Rightarrow> (False, al)
      | None \<Rightarrow> (True, al\<lparr>addresses := (addresses al)(a := Some (-1))\<rparr>))"

definition AddSlot :: "address \<Rightarrow> hash \<Rightarrow> accessList \<Rightarrow> (bool \<times> bool) \<times> accessList" where
  "AddSlot a sl al =
     (case addresses al a of
        None \<Rightarrow>
          ((True, True),
           al\<lparr>addresses := (addresses al)(a := Some (int (length (slots al)))),
              slots := slots al @ [{sl}]\<rparr>)
      | Some idx \<Rightarrow>
          if idx = -1 then
            ((False, True),
             al\<lparr>addresses := (addresses al)(a := Some (int (length (slots al)))),
                slots := slots al @ [{sl}]\<rparr>)
          else
            let slotmap = slots al ! nat idx in
            if sl \<notin> slotmap then
              ((False, True), al\<lparr>slots := (slots al)[nat idx := insert sl slotmap]\<rparr>)
            else ((False, False), al))"

definition DeleteSlot :: "address \<Rightarrow> hash \<Rightarrow> accessList \<Rightarrow> accessList option" where
  "DeleteSlot a sl al =
     (case addresses al a of
        None \<Rightarrow> None
      | Some idx \<Rightarrow>
          if idx < 0 \<or> int (length (slots al)) \<le> idx then None
          else
            let slotmap = slots al ! nat idx - {sl} in
            if slotmap = {} then
              Some (al\<lparr>slots := take (nat idx) (slots al),
                       addresses := (addresses al)(a := Some (-1))\<rparr>)
            else Some (al\<lparr>slots := (slots al)[nat idx := slotmap]\<rparr>))"

definition DeleteAddress :: "address \<Rightarrow> accessList \<Rightarrow> accessList" where
  "DeleteAddress a al = al\<lparr>addresses := (addresses al)(a := None)\<rparr>"

subsection \<open>Well-formed access lists\<close>

definition al_wf :: "accessList \<Rightarrow> bool" where
  "al_wf al \<longleftrightarrow>
     (\<forall>a idx. addresses al a = Some idx \<longrightarrow> idx = -1 \<or> 0 \<le> idx \<and> idx < int (length (slots al))) \<and>
     (\<forall>a b idx. addresses al a = Some idx \<longrightarrow> addresses al b = Some idx \<longrightarrow> idx \<noteq> -1 \<longrightarrow> a = b) \<and>
     {} \<notin> set (slots al)"

lemma al_wf_index:
  "al_wf al \<Longrightarrow> addresses al a = Some idx \<Longrightarrow> idx \<noteq> -1 \<Longrightarrow> 0 \<le> idx \<and> nat idx < length (slots al)"
  by (force simp: al_wf_def)

lemma al_wf_distinct:
  "al_wf al \<Longrightarrow> addresses al a = Some idx \<Longrightarrow> addresses al b = Some idx' \<Longrightarrow> idx \<noteq> -1 \<Longrightarrow> a \<noteq> b \<Longrightarrow>
   idx \<noteq> idx'"
  unfolding al_wf_def by blast

lemma al_wf_new [simp]: "al_wf newAccessList"
  by (simp add: al_wf_def newAccessList_def)

lemma al_Copy_eq: "al_Copy al = al"
  by (simp add: al_Copy_def newAccessList_def)

lemma al_wf_AddAddress: "al_wf al \<Longrightarrow> al_wf (snd (AddAddress a al))"
  by (auto simp: AddAddress_def al_wf_def split: option.splits)

lemma AddSlot_cases:
  obtains
    (fresh) "addresses al a = None \<or> addresses al a = Some (-1)"
      "AddSlot a sl al = ((addresses al a = None, True),
         al\<lparr>addresses := (addresses al)(a := Some (int (length (slots al)))),
            slots := slots al @ [{sl}]\<rparr>)"
  | (added) idx where "addresses al a = Some idx" "idx \<noteq> -1" "sl \<notin> slots al ! nat idx"
      "AddSlot a sl al =
         ((False, True), al\<lparr>slots := (slots al)[nat idx := insert sl (slots al ! nat idx)]\<rparr>)"
  | (present) idx where "addresses al a = Some idx" "idx \<noteq> -1" "sl \<in> slots al ! nat idx"
      "AddSlot a sl al = ((False, False), al)"
proof (cases "addresses al a")
  case None
  then show thesis using fresh by (simp add: AddSlot_def)
next
  case (Some idx)
  then show thesis using fresh added present
    by (cases "idx = -1"; cases "sl \<in> slots al ! nat idx") (simp_all add: AddSlot_def)
qed

lemma al_wf_fresh:
  assumes "al_wf al"
  shows "al_wf (al\<lparr>addresses := (addresses al)(a := Some (int (length (slots al)))),
            slots := slots al @ [{sl}]\<rparr>)"
  using assms unfolding al_wf_def by auto force+

lemma al_wf_added:
  assumes "al_wf al"
  shows "al_wf (al\<lparr>slots := (slots al)[i := insert sl x]\<rparr>)"
  using assms set_update_subset_insert[of "slots al" i "insert sl x"] unfolding al_wf_def by auto

lemma al_wf_AddSlot: "al_wf al \<Longrightarrow> al_wf (snd (AddSlot a sl al))"
  by (cases rule: AddSlot_cases[of al a sl]) (simp_all add: al_wf_fresh al_wf_added)

subsection \<open>What is in the list\<close>

lemma ContainsAddress_AddAddress:
  "ContainsAddress (snd (AddAddress a al)) b \<longleftrightarrow> b = a \<or> ContainsAddress al b"
  by (auto simp: ContainsAddress_def AddAddress_def split: option.splits)

lemma Contains_AddAddress: "Contains (snd (AddAddress a al)) b k =
   (b = a \<or> fst (Contains al b k), snd (Contains al b k))"
  by (auto simp: Contains_def AddAddress_def split: option.splits)

lemma Contains_AddSlot:
  assumes "al_wf al"
  shows "Contains (snd (AddSlot a sl al)) b k =
    (b = a \<or> fst (Contains al b k), b = a \<and> k = sl \<or> snd (Contains al b k))"
proof (cases rule: AddSlot_cases[of al a sl])
  case fresh
  then show ?thesis using al_wf_index[OF assms, of b]
    by (auto simp: Contains_def nth_append split: option.splits)
next
  case (added idx)
  have "(slots al)[nat idx := insert sl (slots al ! nat idx)] ! nat i = slots al ! nat i"
    if "b \<noteq> a" "addresses al b = Some i" "i \<noteq> -1" for i
    using al_wf_index[OF assms added(1,2)] al_wf_index[OF assms that(2,3)]
      al_wf_distinct[OF assms that(2) added(1) that(3,1)]
    by (simp add: nth_list_update nat_eq_iff)
  then show ?thesis using added al_wf_index[OF assms added(1,2)]
    by (cases "b = a") (auto simp: Contains_def split: option.splits)
next
  case (present idx)
  then show ?thesis by (auto simp: Contains_def split: option.splits)
qed

lemma AddAddress_change: "fst (AddAddress a al) \<longleftrightarrow> \<not> ContainsAddress al a"
  by (auto simp: AddAddress_def ContainsAddress_def split: option.splits)

lemma AddSlot_change:
  "fst (AddSlot a sl al) = (\<not> fst (Contains al a sl), \<not> snd (Contains al a sl))"
  by (cases rule: AddSlot_cases[of al a sl]) (auto simp: Contains_def)

subsection \<open>Undoing additions\<close>

text \<open>What unwinding relies on: an undo that follows its operation at once gives the state before.\<close>

locale inverse_pair =
  fixes good :: "'s \<Rightarrow> bool"
    and enabled :: "'x \<Rightarrow> 's \<Rightarrow> bool"
    and apply_op :: "'x \<Rightarrow> 's \<Rightarrow> 's"
    and undo_op :: "'x \<Rightarrow> 's \<Rightarrow> 's option"
  assumes undo_apply: "good s \<Longrightarrow> enabled x s \<Longrightarrow> undo_op x (apply_op x s) = Some s"
    and good_apply: "good s \<Longrightarrow> enabled x s \<Longrightarrow> good (apply_op x s)"
begin

primrec enabled_all :: "'x list \<Rightarrow> 's \<Rightarrow> bool" where
  "enabled_all [] s = True"
| "enabled_all (x # xs) s = (enabled x s \<and> enabled_all xs (apply_op x s))"

primrec undo_all :: "'x list \<Rightarrow> 's \<Rightarrow> 's option" where
  "undo_all [] s = Some s"
| "undo_all (x # xs) s = Option.bind (undo_all xs s) (undo_op x)"

lemma undo_all_fold: "good s \<Longrightarrow> enabled_all xs s \<Longrightarrow> undo_all xs (fold apply_op xs s) = Some s"
  by (induction xs arbitrary: s) (auto simp: undo_apply good_apply)

end

lemma DeleteAddress_AddAddress:
  "fst (AddAddress a al) \<Longrightarrow> DeleteAddress a (snd (AddAddress a al)) = al"
  by (auto simp: AddAddress_def DeleteAddress_def fun_upd_idem_iff split: option.splits)

lemma DeleteSlot_AddSlot:
  assumes "al_wf al" "fst (AddSlot a sl al) = (False, True)"
  shows "DeleteSlot a sl (snd (AddSlot a sl al)) = Some al"
proof -
  obtain idx where a: "addresses al a = Some idx"
    using assms(2) by (auto simp: AddSlot_def split: option.splits)
  show ?thesis
  proof (cases "idx = -1")
    case True
    then show ?thesis using a
      by (simp add: AddSlot_def DeleteSlot_def fun_upd_idem)
  next
    case False
    then have i: "0 \<le> idx" "nat idx < length (slots al)" using al_wf_index[OF assms(1) a] by auto
    then have "slots al ! nat idx \<in> set (slots al)" by simp
    then have "slots al ! nat idx \<noteq> {}" using assms(1) by (auto simp: al_wf_def)
    then show ?thesis using assms(2) a False i
      by (auto simp: AddSlot_def DeleteSlot_def Let_def split: if_splits)
  qed
qed

lemma AddSlot_AddAddress:
  "addresses al a = None \<Longrightarrow> snd (AddSlot a sl (snd (AddAddress a al))) = snd (AddSlot a sl al)"
  by (simp add: AddSlot_def AddAddress_def)

text \<open>The two kinds of change to the access list that the journal records.\<close>

datatype access_change = AccountAdded address | SlotAdded address hash

fun access_enabled :: "access_change \<Rightarrow> accessList \<Rightarrow> bool" where
  "access_enabled (AccountAdded a) al = fst (AddAddress a al)"
| "access_enabled (SlotAdded a sl) al = (fst (AddSlot a sl al) = (False, True))"

fun access_apply :: "access_change \<Rightarrow> accessList \<Rightarrow> accessList" where
  "access_apply (AccountAdded a) al = snd (AddAddress a al)"
| "access_apply (SlotAdded a sl) al = snd (AddSlot a sl al)"

fun access_undo :: "access_change \<Rightarrow> accessList \<Rightarrow> accessList option" where
  "access_undo (AccountAdded a) al = Some (DeleteAddress a al)"
| "access_undo (SlotAdded a sl) al = DeleteSlot a sl al"

interpretation access: inverse_pair al_wf access_enabled access_apply access_undo
proof
  show "access_undo x (access_apply x s) = Some s" if "al_wf s" "access_enabled x s" for x s
    using that by (cases x) (simp_all add: DeleteAddress_AddAddress DeleteSlot_AddSlot)
  show "al_wf (access_apply x s)" if "al_wf s" "access_enabled x s" for x s
    using that by (cases x) (simp_all add: al_wf_AddAddress al_wf_AddSlot)
qed

text \<open>Adding a slot of a new address is adding the address and then the slot.\<close>

lemma AddSlot_as_changes:
  assumes "al_wf al"
  obtains xs where "access.enabled_all xs al" "fold access_apply xs al = snd (AddSlot a sl al)"
    "xs = (if fst (fst (AddSlot a sl al)) then [AccountAdded a] else []) @
          (if snd (fst (AddSlot a sl al)) then [SlotAdded a sl] else [])"
proof -
  have "fst (AddAddress a al)" "fst (AddSlot a sl (snd (AddAddress a al))) = (False, True)"
    if "addresses al a = None"
    using that by (simp_all add: AddAddress_def AddSlot_def)
  then show thesis
    using that by (cases rule: AddSlot_cases[of al a sl]) (auto simp: AddSlot_AddAddress)
qed

end
