(* ===== verification/RlpRaw.thy ===== *)
theory RlpRaw
  imports CommonLib
begin

text \<open>
  The codec's low level: \<open>src/rlp/raw.go\<close> (splitting a value off a byte slice, appending an
  integer), \<open>src/rlp/iterator.go\<close> (iterating over the values of a list) and the header and integer
  writers of \<open>src/rlp/encode.go\<close>. The reference is \<open>rlp_spec\<close>, the recursive definition of the
  format; the routines of the sources are shown to agree with it, the unrolled integer writers
  included, and the readers to accept nothing but canonical encodings.
\<close>

subsection \<open>The format\<close>

datatype rlp_item = Str bytes | Lst "rlp_item list"

definition min_bytes :: "nat \<Rightarrow> bytes" where
  "min_bytes n = be_bytes ((bitlen n + 7) div 8) n"

definition spec_head :: "byte \<Rightarrow> byte \<Rightarrow> nat \<Rightarrow> bytes" where
  "spec_head smalltag largetag n =
     (if n < 56 then [smalltag + word_of_nat n]
      else (largetag + word_of_nat (length (min_bytes n))) # min_bytes n)"

definition spec_str :: "bytes \<Rightarrow> bytes" where
  "spec_str b =
     (if length b = 1 \<and> hd b < 0x80 then b else spec_head 0x80 0xB7 (length b) @ b)"

definition spec_lst :: "bytes \<Rightarrow> bytes" where
  "spec_lst c = spec_head 0xC0 0xF7 (length c) @ c"

fun rlp_spec :: "rlp_item \<Rightarrow> bytes" where
  "rlp_spec (Str b) = spec_str b"
| "rlp_spec (Lst xs) = spec_lst (concat (map rlp_spec xs))"

subsection \<open>Integers and headers (\<open>encode.go\<close>)\<close>

text \<open>\<open>byte(i >> k)\<close>.\<close>

abbreviation byte_at :: "nat \<Rightarrow> u64 \<Rightarrow> byte" where
  "byte_at k i \<equiv> ucast (drop_bit k i)"

text \<open>The bytes that \<open>putint\<close> leaves at the beginning of its buffer; its result is their number.\<close>

definition putint :: "u64 \<Rightarrow> bytes" where
  "putint i =
     (if i < 0x100 then [ucast i]
      else if i < 0x10000 then [byte_at 8 i, ucast i]
      else if i < 0x1000000 then [byte_at 16 i, byte_at 8 i, ucast i]
      else if i < 0x100000000 then [byte_at 24 i, byte_at 16 i, byte_at 8 i, ucast i]
      else if i < 0x10000000000 then
        [byte_at 32 i, byte_at 24 i, byte_at 16 i, byte_at 8 i, ucast i]
      else if i < 0x1000000000000 then
        [byte_at 40 i, byte_at 32 i, byte_at 24 i, byte_at 16 i, byte_at 8 i, ucast i]
      else if i < 0x100000000000000 then
        [byte_at 48 i, byte_at 40 i, byte_at 32 i, byte_at 24 i, byte_at 16 i, byte_at 8 i, ucast i]
      else
        [byte_at 56 i, byte_at 48 i, byte_at 40 i, byte_at 32 i, byte_at 24 i, byte_at 16 i,
         byte_at 8 i, ucast i])"

definition intsize :: "u64 \<Rightarrow> nat" where
  "intsize i = (if i = 0 then 1 else (bitlen (unat i) + 7) div 8)"

definition headsize :: "u64 \<Rightarrow> nat" where
  "headsize size' = (if size' < 56 then 1 else 1 + intsize size')"

definition puthead :: "byte \<Rightarrow> byte \<Rightarrow> u64 \<Rightarrow> bytes" where
  "puthead smalltag largetag size' =
     (if size' < 56 then [smalltag + ucast size']
      else let b = putint size' in (largetag + word_of_nat (length b)) # b)"

subsection \<open>Reading (\<open>raw.go\<close>)\<close>

datatype kind = KByte | KString | KList

datatype rlp_error =
    ErrUnexpectedEOF | ErrCanonSize | ErrValueTooLarge | ErrExpectedString | ErrExpectedList
  | ErrCanonInt | ErrUintOverflow | ErrNegativeBigInt

text \<open>
  The eight cases of \<open>readSize\<close>; with a length of no byte, or of more than eight, \<open>s\<close> stays zero.
\<close>

definition read_be :: "bytes \<Rightarrow> byte \<Rightarrow> u64" where
  "read_be b slen =
     (let at = (\<lambda>j k. push_bit k (ucast (b ! j) :: u64)) in
      if slen = 1 then at 0 0
      else if slen = 2 then at 0 8 OR at 1 0
      else if slen = 3 then at 0 16 OR at 1 8 OR at 2 0
      else if slen = 4 then at 0 24 OR at 1 16 OR at 2 8 OR at 3 0
      else if slen = 5 then at 0 32 OR at 1 24 OR at 2 16 OR at 3 8 OR at 4 0
      else if slen = 6 then at 0 40 OR at 1 32 OR at 2 24 OR at 3 16 OR at 4 8 OR at 5 0
      else if slen = 7 then
        at 0 48 OR at 1 40 OR at 2 32 OR at 3 24 OR at 4 16 OR at 5 8 OR at 6 0
      else if slen = 8 then
        at 0 56 OR at 1 48 OR at 2 40 OR at 3 32 OR at 4 24 OR at 5 16 OR at 6 8 OR at 7 0
      else 0)"

definition readSize :: "bytes \<Rightarrow> byte \<Rightarrow> rlp_error + u64" where
  "readSize b slen =
     (if unat slen > length b then Inl ErrUnexpectedEOF
      else let s = read_be b slen in
        if s < 56 \<or> b ! 0 = 0 then Inl ErrCanonSize else Inr s)"

definition readKind :: "bytes \<Rightarrow> rlp_error + (kind \<times> u64 \<times> u64)" where
  "readKind buf =
     (if buf = [] then Inl ErrUnexpectedEOF
      else
        let b = buf ! 0;
            r = (if b < 0x80 then Inr (KByte, 0, 1)
                 else if b < 0xB8 then
                   let contentsize = ucast (b - 0x80) :: u64 in
                   if contentsize = 1 \<and> length buf > 1 \<and> buf ! 1 < 128 then Inl ErrCanonSize
                   else Inr (KString, 1, contentsize)
                 else if b < 0xC0 then
                   map_sum id (\<lambda>cs. (KString, ucast (b - 0xB7) + 1, cs))
                     (readSize (drop 1 buf) (b - 0xB7))
                 else if b < 0xF8 then Inr (KList, 1, ucast (b - 0xC0))
                 else
                   map_sum id (\<lambda>cs. (KList, ucast (b - 0xF7) + 1, cs))
                     (readSize (drop 1 buf) (b - 0xF7)))
        in case r of
             Inl e \<Rightarrow> Inl e
           | Inr (k, tagsize, contentsize) \<Rightarrow>
               if contentsize > word_of_nat (length buf) - tagsize then Inl ErrValueTooLarge
               else Inr (k, tagsize, contentsize))"

text \<open>The slice expressions \<open>b[lo:hi]\<close> and \<open>b[lo:]\<close> with bounds of type \<open>uint64\<close>.\<close>

definition sub_bytes :: "bytes \<Rightarrow> u64 \<Rightarrow> u64 \<Rightarrow> bytes" where
  "sub_bytes b lo hi = drop (unat lo) (take (unat hi) b)"

definition Split :: "bytes \<Rightarrow> rlp_error + (kind \<times> bytes \<times> bytes)" where
  "Split b =
     (case readKind b of
        Inl e \<Rightarrow> Inl e
      | Inr (k, ts, cs) \<Rightarrow> Inr (k, sub_bytes b ts (ts + cs), drop (unat (ts + cs)) b))"

definition SplitString :: "bytes \<Rightarrow> rlp_error + (bytes \<times> bytes)" where
  "SplitString b =
     (case Split b of
        Inl e \<Rightarrow> Inl e
      | Inr (k, content, rest) \<Rightarrow>
          if k = KList then Inl ErrExpectedString else Inr (content, rest))"

definition SplitUint64 :: "bytes \<Rightarrow> rlp_error + (u64 \<times> bytes)" where
  "SplitUint64 b =
     (case SplitString b of
        Inl e \<Rightarrow> Inl e
      | Inr (content, rest) \<Rightarrow>
          let n = length content in
          if n = 0 then Inr (0, rest)
          else if n = 1 then
            if content ! 0 = 0 then Inl ErrCanonInt else Inr (ucast (content ! 0), rest)
          else if n > 8 then Inl ErrUintOverflow
          else case readSize content (word_of_nat n) of
                 Inl e \<Rightarrow> Inl ErrCanonInt
               | Inr x \<Rightarrow> Inr (x, rest))"

definition SplitList :: "bytes \<Rightarrow> rlp_error + (bytes \<times> bytes)" where
  "SplitList b =
     (case Split b of
        Inl e \<Rightarrow> Inl e
      | Inr (k, content, rest) \<Rightarrow>
          if k \<noteq> KList then Inl ErrExpectedList else Inr (content, rest))"

text \<open>
  The loop of \<open>CountValues\<close>: every iteration drops at least one byte, so as many iterations as the
  slice has bytes are enough (\<open>CountValues_total\<close>); \<open>None\<close> would be running out of them.
\<close>

primrec count_loop :: "nat \<Rightarrow> bytes \<Rightarrow> nat \<Rightarrow> (rlp_error + nat) option" where
  "count_loop 0 b i = (if b = [] then Some (Inr i) else None)"
| "count_loop (Suc n) b i =
     (if b = [] then Some (Inr i)
      else case readKind b of
             Inl e \<Rightarrow> Some (Inl e)
           | Inr (k, tagsize, sz) \<Rightarrow> count_loop n (drop (unat (tagsize + sz)) b) (i + 1))"

definition CountValues :: "bytes \<Rightarrow> (rlp_error + nat) option" where
  "CountValues b = count_loop (length b) b 0"

definition AppendUint64 :: "bytes \<Rightarrow> u64 \<Rightarrow> bytes" where
  "AppendUint64 b i =
     (if i = 0 then b @ [0x80]
      else if i < 128 then b @ [ucast i]
      else if i < 0x100 then b @ [0x81, ucast i]
      else if i < 0x10000 then b @ [0x82, byte_at 8 i, ucast i]
      else if i < 0x1000000 then b @ [0x83, byte_at 16 i, byte_at 8 i, ucast i]
      else if i < 0x100000000 then
        b @ [0x84, byte_at 24 i, byte_at 16 i, byte_at 8 i, ucast i]
      else if i < 0x10000000000 then
        b @ [0x85, byte_at 32 i, byte_at 24 i, byte_at 16 i, byte_at 8 i, ucast i]
      else if i < 0x1000000000000 then
        b @ [0x86, byte_at 40 i, byte_at 32 i, byte_at 24 i, byte_at 16 i, byte_at 8 i, ucast i]
      else if i < 0x100000000000000 then
        b @ [0x87, byte_at 48 i, byte_at 40 i, byte_at 32 i, byte_at 24 i, byte_at 16 i,
             byte_at 8 i, ucast i]
      else
        b @ [0x88, byte_at 56 i, byte_at 48 i, byte_at 40 i, byte_at 32 i, byte_at 24 i,
             byte_at 16 i, byte_at 8 i, ucast i])"

definition StringSize :: "bytes \<Rightarrow> u64" where
  "StringSize s =
     (let n = length s in
      if n = 0 then 1
      else if n = 1 then if s ! 0 \<le> 0x7f then 1 else 2
      else word_of_nat (headsize (word_of_nat n) + n))"

definition BytesSize :: "bytes \<Rightarrow> u64" where
  "BytesSize b =
     (let n = length b in
      if n = 0 then 1
      else if n = 1 then if b ! 0 \<le> 0x7f then 1 else 2
      else word_of_nat (headsize (word_of_nat n) + n))"

definition ListSize :: "u64 \<Rightarrow> u64" where
  "ListSize contentSize = word_of_nat (headsize contentSize) + contentSize"

definition IntSize :: "u64 \<Rightarrow> nat" where
  "IntSize x = (if x < 0x80 then 1 else 1 + intsize x)"

subsection \<open>Iterating (\<open>iterator.go\<close>)\<close>

record listIterator =
  it_data :: bytes
  it_next :: bytes
  it_err :: "rlp_error option"

definition NewListIterator :: "bytes \<Rightarrow> rlp_error + listIterator" where
  "NewListIterator data =
     (case readKind data of
        Inl e \<Rightarrow> Inl e
      | Inr (k, t, c) \<Rightarrow>
          if k \<noteq> KList then Inl ErrExpectedList
          else Inr \<lparr>it_data = sub_bytes data t (t + c), it_next = [], it_err = None\<rparr>)"

definition Next :: "listIterator \<Rightarrow> bool \<times> listIterator" where
  "Next it =
     (if it_data it = [] then (False, it)
      else case readKind (it_data it) of
             Inl e \<Rightarrow> (True, it\<lparr>it_next := [], it_err := Some e, it_data := []\<rparr>)
           | Inr (k, t, c) \<Rightarrow>
               (True, it\<lparr>it_next := take (unat (t + c)) (it_data it),
                         it_data := drop (unat (t + c)) (it_data it), it_err := None\<rparr>))"

subsection \<open>Integers\<close>

lemma byte_at_eq: "word_of_nat (unat i div 2 ^ k) = byte_at k i"
proof -
  have "unat (drop_bit k i) = drop_bit k (unat i)" by (rule unat_drop_bit_eq)
  also have "\<dots> = unat i div 2 ^ k" by (rule drop_bit_eq_div)
  finally show ?thesis using of_nat_unat[of "drop_bit k i"] by simp
qed

lemmas byte_ats = byte_at_eq[of _ 8, simplified] byte_at_eq[of _ 16, simplified]
  byte_at_eq[of _ 24, simplified] byte_at_eq[of _ 32, simplified] byte_at_eq[of _ 40, simplified]
  byte_at_eq[of _ 48, simplified] byte_at_eq[of _ 56, simplified]

lemma div_div_nat: "(v :: nat) div a div b = v div (a * b)"
  by (simp add: div_mult2_eq)

lemma byte_count:
  assumes "256 ^ k \<le> n" "n < 256 ^ Suc k"
  shows "(bitlen n + 7) div 8 = Suc k"
proof -
  have "(256 :: nat) ^ j = 2 ^ (8 * j)" for j by (simp add: power_mult)
  then have "\<not> bitlen n \<le> 8 * k" "bitlen n \<le> 8 * Suc k"
    using assms by (simp_all only: bitlen_le_iff not_less)
  then show ?thesis by simp
qed

lemma byte_count_ex: "0 < n \<Longrightarrow> \<exists>k. 256 ^ k \<le> n \<and> n < 256 ^ Suc k" for n :: nat
  using ex_power_ivl1[of 256 n] by auto

lemma min_bytes_eq: "256 ^ k \<le> n \<Longrightarrow> n < 256 ^ Suc k \<Longrightarrow> min_bytes n = be_bytes (Suc k) n"
  by (simp only: min_bytes_def byte_count)

lemma be_bytes_numeral:
  "be_bytes (numeral m) v = be_bytes (pred_numeral m) (v div 256) @ [word_of_nat v]"
  by (simp only: numeral_eq_Suc[of m] be_bytes.simps)

lemma u64_byte_count:
  assumes "(i :: u64) \<noteq> 0"
  obtains k where "k < 8" "256 ^ k \<le> unat i" "unat i < 256 ^ Suc k"
proof -
  have n: "0 < unat i" "unat i < 256 ^ 8" using assms unat_u64_less[of i] by (simp_all add: unat_gt_0)
  then obtain k where k: "256 ^ k \<le> unat i" "unat i < 256 ^ Suc k" using byte_count_ex by blast
  have "(256 :: nat) ^ k < 256 ^ 8" using n k by linarith
  then have "k < 8" by (simp only: power_strict_increasing_iff)
  with k show thesis using that by blast
qed






lemma u64_less_numeral:
  assumes "numeral n < (2 :: nat) ^ 64"
  shows "(i :: u64) < numeral n \<longleftrightarrow> unat i < numeral n"
proof -
  have "unat (numeral n :: u64) = unat (word_of_nat (numeral n) :: u64)"
    by (simp only: of_nat_numeral)
  also have "\<dots> = numeral n mod 2 ^ 64" by (simp only: unat_of_nat) simp
  also have "\<dots> = numeral n" using assms by (rule mod_less)
  finally show ?thesis by (simp only: word_less_nat_alt)
qed
lemma putint_eq:
  assumes "i \<noteq> 0"
  shows "putint i = min_bytes (unat i)"
proof -
  obtain k where k: "k < 8" "256 ^ k \<le> unat i" "unat i < 256 ^ Suc k"
    using u64_byte_count[OF assms] .
  from k(1) consider "k = 0" | "k = 1" | "k = 2" | "k = 3" | "k = 4" | "k = 5" | "k = 6" | "k = 7"
    by linarith
  then show ?thesis
    using k(2,3)
    by cases (simp_all add: min_bytes_eq[OF k(2,3)] putint_def u64_less_numeral byte_ats
        be_bytes_numeral
        div_div_nat)
qed

lemma length_min_bytes_pos: "0 < n \<Longrightarrow> 0 < length (min_bytes n)"
  using byte_count_ex[of n] by (auto simp: min_bytes_eq)

lemma length_min_bytes_u64: "n < 2 ^ 64 \<Longrightarrow> length (min_bytes n) \<le> 8"
  using bitlen_le_iff[of n 64] by (simp add: min_bytes_def)

lemma bytes_to_nat_min_bytes [simp]: "bytes_to_nat (min_bytes n) = n"
proof (cases "n = 0")
  case False
  then obtain k where "256 ^ k \<le> n" "n < 256 ^ Suc k" using byte_count_ex by blast
  then show ?thesis by (simp add: min_bytes_eq bytes_to_nat_be_bytes del: be_bytes.simps)
qed (simp add: min_bytes_def)

lemma min_bytes_canonical:
  assumes "xs \<noteq> []" "hd xs \<noteq> 0"
  shows "min_bytes (bytes_to_nat xs) = xs"
proof -
  obtain y ys where xs: "xs = y # ys" "y \<noteq> 0" using assms by (cases xs) auto
  then have "1 \<le> unat y" using unat_gt_0[of y] by linarith
  then have "256 ^ length ys \<le> unat y * 256 ^ length ys" by simp
  then have "256 ^ length ys \<le> bytes_to_nat xs"
    unfolding xs(1) bytes_to_nat_Cons by linarith
  moreover have "bytes_to_nat xs < 256 ^ Suc (length ys)"
    using bytes_to_nat_bound[of xs] xs by simp
  ultimately have "min_bytes (bytes_to_nat xs) = be_bytes (length xs) (bytes_to_nat xs)"
    using xs(1) by (simp only: min_bytes_eq list.size add_Suc_right add_0_right)
  then show ?thesis by (simp add: be_bytes_bytes_to_nat)
qed

lemma hd_min_bytes: "0 < n \<Longrightarrow> hd (min_bytes n) \<noteq> 0"
proof
  assume n: "0 < n" "hd (min_bytes n) = 0"
  obtain k where k: "256 ^ k \<le> n" "n < 256 ^ Suc k" using byte_count_ex[OF n(1)] by blast
  then have l: "length (min_bytes n) = Suc k" by (simp add: min_bytes_eq)
  then obtain ys where "min_bytes n = 0 # ys" "length ys = k" using n(2) by (cases "min_bytes n") auto
  then have "n < 256 ^ k"
    using bytes_to_nat_min_bytes[of n] bytes_to_nat_bound[of ys] by (simp add: bytes_to_nat_Cons)
  with k show False by simp
qed

subsection \<open>Reading back a size\<close>

definition shift_read :: "bytes \<Rightarrow> u64" where
  "shift_read xs = foldl (\<lambda>s x. push_bit 8 s OR ucast x) 0 xs"

lemma push_bit_or_byte: "push_bit 8 s OR ucast (x :: byte) = s * 256 + (ucast x :: u64)"
proof -
  have "push_bit 8 s + (ucast x :: u64) = push_bit 8 s OR ucast x"
    by (rule disjunctive_add) (auto simp: bit_push_bit_iff bit_ucast_iff dest: bit_imp_le_length)
  then show ?thesis by (simp add: push_bit_eq_mult)
qed

lemma shift_read_eq: "shift_read xs = word_of_nat (bytes_to_nat xs)"
  by (induction xs rule: rev_induct) (simp_all add: shift_read_def push_bit_or_byte)

lemma list_of_nths: "n \<le> length b \<Longrightarrow> take n b = map ((!) b) [0..<n]"
  by (simp add: list_eq_iff_nth_eq)

lemma read_be_eq:
  assumes "1 \<le> unat slen" "unat slen \<le> 8" "unat slen \<le> length b"
  shows "read_be b slen = word_of_nat (bytes_to_nat (take (unat slen) b))"
proof -
  have "unat slen = 1 \<or> unat slen = 2 \<or> unat slen = 3 \<or> unat slen = 4 \<or> unat slen = 5 \<or>
    unat slen = 6 \<or> unat slen = 7 \<or> unat slen = 8"
    using assms(1,2) by linarith
  then consider "slen = 1" | "slen = 2" | "slen = 3" | "slen = 4" | "slen = 5"
    | "slen = 6" | "slen = 7" | "slen = 8"
    by (auto simp: word_unat_eq_iff)
  then have "read_be b slen = shift_read (take (unat slen) b)"
    using assms(3)
    by cases (simp_all add: list_of_nths read_be_def shift_read_def push_bit_or or.assoc upt_rec
        numeral_2_eq_2[symmetric])
  then show ?thesis by (simp add: shift_read_eq)
qed

lemma readSize_iff:
  assumes "1 \<le> unat slen" "unat slen \<le> 8"
  shows "readSize b slen = Inr s \<longleftrightarrow>
    56 \<le> unat s \<and> unat slen = length (min_bytes (unat s)) \<and> take (unat slen) b = min_bytes (unat s)"
    (is "_ \<longleftrightarrow> ?R")
proof
  let ?n = "unat slen"
  assume r: "readSize b slen = Inr s"
  then have n: "?n \<le> length b" and s: "s = read_be b slen" "56 \<le> s" and b0: "b ! 0 \<noteq> 0"
    by (auto simp: readSize_def Let_def split: if_splits)
  have "bytes_to_nat (take ?n b) < 256 ^ ?n" using bytes_to_nat_bound[of "take ?n b"] n by simp
  also have "\<dots> \<le> 256 ^ 8" using assms(2) by (intro power_increasing) auto
  finally have "unat s = bytes_to_nat (take ?n b)"
    using s(1) assms n by (simp add: read_be_eq unat_of_nat)
  moreover have "take ?n b \<noteq> []" "hd (take ?n b) \<noteq> 0"
    using assms n b0 by (cases b; auto simp: take_Cons')+
  ultimately have "min_bytes (unat s) = take ?n b" by (simp add: min_bytes_canonical)
  then show ?R using s(2) n by (simp add: word_le_nat_alt)
next
  assume r: ?R
  then have n: "unat slen \<le> length b" by (metis length_take min.cobounded1)
  have "b ! 0 = hd (min_bytes (unat s))" using r assms n by (metis hd_conv_nth length_greater_0_conv
        less_le_trans nth_take zero_less_one)
  then have b0: "b ! 0 \<noteq> 0" using r hd_min_bytes[of "unat s"] by simp
  have "read_be b slen = word_of_nat (bytes_to_nat (min_bytes (unat s)))"
    using read_be_eq[OF assms n] r by metis
  then have "read_be b slen = s" by simp
  then show "readSize b slen = Inr s" using n b0 r by (simp add: readSize_def word_less_nat_alt)
qed

subsection \<open>Reading a header\<close>

definition header :: "kind \<Rightarrow> bytes \<Rightarrow> bytes" where
  "header k c =
     (case k of KByte \<Rightarrow> []
      | KString \<Rightarrow> spec_head 0x80 0xB7 (length c)
      | KList \<Rightarrow> spec_head 0xC0 0xF7 (length c))"

definition header_ok :: "kind \<Rightarrow> bytes \<Rightarrow> bool" where
  "header_ok k c =
     (case k of KByte \<Rightarrow> length c = 1 \<and> hd c < 0x80
      | KString \<Rightarrow> \<not> (length c = 1 \<and> hd c < 0x80)
      | KList \<Rightarrow> True)"

lemma byte_less_numeral:
  assumes "numeral n < (256 :: nat)"
  shows "(i :: byte) < numeral n \<longleftrightarrow> unat i < numeral n"
proof -
  have "unat (numeral n :: byte) = unat (word_of_nat (numeral n) :: byte)"
    by (simp only: of_nat_numeral)
  also have "\<dots> = numeral n mod 256" by (simp only: unat_of_nat) simp
  also have "\<dots> = numeral n" using assms by (rule mod_less)
  finally show ?thesis by (simp only: word_less_nat_alt)
qed

lemma unat_byte_minus_numeral:
  assumes "numeral n < (256 :: nat)" "numeral n \<le> unat (i :: byte)"
  shows "unat (i - numeral n) = unat i - numeral n"
proof -
  have "unat (numeral n :: byte) = unat (word_of_nat (numeral n) :: byte)"
    by (simp only: of_nat_numeral)
  also have "\<dots> = numeral n mod 256" by (simp only: unat_of_nat) simp
  also have "\<dots> = numeral n" using assms(1) by (rule mod_less)
  finally have n: "unat (numeral n :: byte) = numeral n" .
  then have "numeral n \<le> i" using assms(2) by (simp only: word_le_nat_alt)
  then show ?thesis by (simp only: unat_sub n)
qed

lemma unat_ucast_byte [simp]: "unat (ucast (x :: byte) :: u64) = unat x"
  using unat_byte_less[of x] by (simp add: unsigned_ucast_eq take_bit_nat_eq_self)

lemma readKind_size_ok:
  assumes "length b < 2 ^ 63" "unat (t :: u64) \<le> length b"
  shows "c > word_of_nat (length b) - t \<longleftrightarrow> length b < unat t + unat c"
proof -
  have l: "unat (word_of_nat (length b) :: u64) = length b" using assms(1) by (simp add: unat_of_nat)
  then have "unat (word_of_nat (length b) - t) = length b - unat t"
    using assms(2) unat_sub[of t "word_of_nat (length b)"] by (simp add: word_le_nat_alt)
  then show ?thesis using assms(2) by (auto simp: word_less_nat_alt)
qed

text \<open>The five cases of \<open>readKind\<close>, on numbers.\<close>

definition tag_of :: "bytes \<Rightarrow> rlp_error + (kind \<times> u64 \<times> u64)" where
  "tag_of buf =
     (let b = buf ! 0 in
      if b < 0x80 then Inr (KByte, 0, 1)
      else if b < 0xB8 then
        let contentsize = ucast (b - 0x80) :: u64 in
        if contentsize = 1 \<and> length buf > 1 \<and> buf ! 1 < 128 then Inl ErrCanonSize
        else Inr (KString, 1, contentsize)
      else if b < 0xC0 then
        map_sum id (\<lambda>cs. (KString, ucast (b - 0xB7) + 1, cs)) (readSize (drop 1 buf) (b - 0xB7))
      else if b < 0xF8 then Inr (KList, 1, ucast (b - 0xC0))
      else map_sum id (\<lambda>cs. (KList, ucast (b - 0xF7) + 1, cs)) (readSize (drop 1 buf) (b - 0xF7)))"

lemma readKind_tag_of:
  "readKind buf =
     (if buf = [] then Inl ErrUnexpectedEOF
      else case tag_of buf of
             Inl e \<Rightarrow> Inl e
           | Inr (k, t, c) \<Rightarrow>
               if c > word_of_nat (length buf) - t then Inl ErrValueTooLarge else Inr (k, t, c))"
  unfolding readKind_def tag_of_def Let_def ..

definition long_head :: "nat \<Rightarrow> bytes \<Rightarrow> u64 \<Rightarrow> u64 \<Rightarrow> bool" where
  "long_head base buf t c \<longleftrightarrow>
     56 \<le> unat c \<and> unat t = Suc (length (min_bytes (unat c))) \<and>
     take (unat t) buf = word_of_nat (base + length (min_bytes (unat c))) # min_bytes (unat c)"

lemma Suc_ucast_byte: "unat (ucast (x :: byte) + 1 :: u64) = Suc (unat x)"
  using unat_byte_less[of x] by (simp add: unat_word_ariths)

lemma tag_of_long:
  assumes "buf \<noteq> []" "unat (buf ! 0) = base + n" "unat x = n" "1 \<le> n" "n \<le> 8"
    and base: "base \<le> 247"
  shows "map_sum id (\<lambda>cs. (k', ucast x + 1, cs)) (readSize (drop 1 buf) x) = Inr (k, t, c) \<longleftrightarrow>
    k = k' \<and> unat t = Suc n \<and> long_head base buf t c"
proof -
  obtain y ys where b: "buf = y # ys" using assms(1) by (cases buf) auto
  then have y: "unat y = base + n" using assms(2) by simp
  have yw: "y = word_of_nat (base + m) \<longleftrightarrow> n = m" if "m \<le> 8" for m
  proof -
    have "unat (word_of_nat (base + m) :: byte) = base + m"
      using base that by (simp add: unat_of_nat del: of_nat_add)
    then show ?thesis using y by (simp add: word_unat_eq_iff del: of_nat_add)
  qed
  have "map_sum id (\<lambda>cs. (k', ucast x + 1, cs)) (readSize (drop 1 buf) x) = Inr (k, t, c) \<longleftrightarrow>
      k = k' \<and> t = ucast x + 1 \<and> readSize ys x = Inr c"
    using b by (cases "readSize ys x") auto
  also have "\<dots> \<longleftrightarrow> k = k' \<and> unat t = Suc n \<and> 56 \<le> unat c \<and> n = length (min_bytes (unat c)) \<and>
      take n ys = min_bytes (unat c)"
    using assms Suc_ucast_byte[of x] by (auto simp: readSize_iff word_unat_eq_iff)
  also have "\<dots> \<longleftrightarrow> k = k' \<and> unat t = Suc n \<and> long_head base buf t c"
    using b yw assms(5) by (auto simp: long_head_def simp del: of_nat_add)
  finally show ?thesis .
qed
lemma long_head_tag:
  assumes "long_head base buf t c" "base \<le> 247"
  shows "base + 1 \<le> unat (buf ! 0) \<and> unat (buf ! 0) \<le> base + 8 \<and>
    unat t = Suc (unat (buf ! 0) - base) \<and> unat t \<le> length buf"
proof -
  let ?m = "min_bytes (unat c)"
  have c: "0 < length ?m" "length ?m \<le> 8"
    using assms(1) length_min_bytes_pos length_min_bytes_u64[OF unat_u64_less]
    by (auto simp: long_head_def)
  have t: "take (unat t) buf = word_of_nat (base + length ?m) # ?m" "unat t = Suc (length ?m)"
    using assms(1) unfolding long_head_def by blast+
  then have "buf ! 0 = word_of_nat (base + length ?m)" "unat t \<le> length buf"
    by (cases buf; simp; fail) (metis t length_Cons length_take min.cobounded1)
  moreover have "unat (word_of_nat (base + length ?m) :: byte) = base + length ?m"
    using c assms(2) by (simp add: unat_of_nat del: of_nat_add)
  ultimately have "unat (buf ! 0) = base + length ?m" "unat t \<le> length buf" by simp_all
  then show ?thesis using c t(2) by (intro conjI) linarith+
qed

lemma ucast_byte_iff: "(c :: u64) = ucast (x :: byte) \<longleftrightarrow> unat c = unat x"
  by (simp add: word_unat_eq_iff)

lemma tag_of_iff:
  assumes "buf \<noteq> []"
  shows "tag_of buf = Inr (k, t, c) \<longleftrightarrow>
    (k = KByte \<and> t = 0 \<and> c = 1 \<and> unat (buf ! 0) < 128) \<or>
    (k = KString \<and> t = 1 \<and> unat c < 56 \<and> unat (buf ! 0) = 128 + unat c \<and>
       \<not> (c = 1 \<and> length buf > 1 \<and> buf ! 1 < 128)) \<or>
    (k = KString \<and> long_head 183 buf t c) \<or>
    (k = KList \<and> t = 1 \<and> unat c < 56 \<and> unat (buf ! 0) = 192 + unat c) \<or>
    (k = KList \<and> long_head 247 buf t c)" (is "_ \<longleftrightarrow> ?R")
proof -
  let ?b = "buf ! 0"
  note tags = long_head_tag[of 183 buf t c] long_head_tag[of 247 buf t c]
  consider (a) "unat ?b < 128" | (b) "128 \<le> unat ?b" "unat ?b < 184"
    | (c) "184 \<le> unat ?b" "unat ?b < 192" | (d) "192 \<le> unat ?b" "unat ?b < 248"
    | (e) "248 \<le> unat ?b" by linarith
  then show ?thesis
  proof cases
    case a
    then show ?thesis using tags by (auto simp: tag_of_def byte_less_numeral Let_def)
  next
    case b
    then have "unat (?b - 0x80) = unat ?b - 128" by (simp add: unat_byte_minus_numeral)
    with b show ?thesis using tags
      by (auto simp: tag_of_def byte_less_numeral ucast_byte_iff Let_def
          word_unat_eq_iff[where 'a = 64] split: if_splits)
  next
    case c
    then have n: "unat (?b - 0xB7) = unat ?b - 183" by (simp add: unat_byte_minus_numeral)
    have "tag_of buf = Inr (k, t, c) \<longleftrightarrow>
        k = KString \<and> unat t = Suc (unat ?b - 183) \<and> long_head 183 buf t c"
      using c by (simp add: tag_of_def Let_def byte_less_numeral del: drop0 One_nat_def)
        (rule tag_of_long, use assms n c in \<open>auto\<close>)
    with c show ?thesis using tags by auto
  next
    case d
    then have "unat (?b - 0xC0) = unat ?b - 192" by (simp add: unat_byte_minus_numeral)
    with d show ?thesis using tags
      by (auto simp: tag_of_def byte_less_numeral ucast_byte_iff Let_def
          word_unat_eq_iff[where 'a = 64])
  next
    case e
    then have n: "unat (?b - 0xF7) = unat ?b - 247" by (simp add: unat_byte_minus_numeral)
    have "tag_of buf = Inr (k, t, c) \<longleftrightarrow>
        k = KList \<and> unat t = Suc (unat ?b - 247) \<and> long_head 247 buf t c"
      using e by (simp add: tag_of_def Let_def byte_less_numeral del: drop0 One_nat_def)
        (rule tag_of_long, use assms n e unat_byte_less[of ?b] in \<open>auto\<close>)
    with e show ?thesis using tags by auto
  qed
qed

lemma spec_head_long:
  "56 \<le> n \<Longrightarrow> spec_head small large n = (large + word_of_nat (length (min_bytes n))) # min_bytes n"
  by (simp add: spec_head_def)

lemma spec_head_short: "n < 56 \<Longrightarrow> spec_head small large n = [small + word_of_nat n]"
  by (simp add: spec_head_def)

lemma take_Suc_0_eq: "buf \<noteq> [] \<Longrightarrow> take (Suc 0) buf = [buf ! 0]"
  by (cases buf) auto

lemma byte_add_iff:
  assumes "n < 56" "numeral m + n < (256 :: nat)"
  shows "x = numeral m + word_of_nat n \<longleftrightarrow> unat (x :: byte) = numeral m + n"
proof -
  have "unat (word_of_nat (numeral m + n) :: byte) = numeral m + n"
    using assms(2) by (simp add: unat_of_nat del: of_nat_add)
  then show ?thesis by (simp add: word_unat_eq_iff)
qed

lemma unat_byte_add_ucast:
  assumes "unat (c :: u64) < 56" "numeral m + unat c < (256 :: nat)"
  shows "unat (numeral m + ucast c :: byte) = numeral m + unat c"
  using byte_add_iff[OF assms, of "numeral m + word_of_nat (unat c)"] by simp

text \<open>\<open>readKind\<close> succeeds exactly on the slices that begin with a canonical header and enough content.\<close>

lemma header_take:
  assumes "buf \<noteq> []" "unat t + unat c \<le> length buf"
    and content: "content = take (unat c) (drop (unat t) buf)"
  shows "tag_of buf = Inr (k, t, c) \<longleftrightarrow>
    take (unat t) buf = header k content \<and> unat t = length (header k content) \<and>
    header_ok k content \<and> (k = KByte \<longrightarrow> unat c = 1)"
proof (cases k)
  case KByte
  have "tag_of buf = Inr (k, t, c) \<longleftrightarrow> t = 0 \<and> c = 1 \<and> unat (buf ! 0) < 128"
    using KByte by (simp add: tag_of_iff[OF assms(1)])
  then show ?thesis using KByte assms
    by (auto simp: header_def header_ok_def word_unat_eq_iff byte_less_numeral take_Suc_0_eq)
next
  case KString
  have l: "length content = unat c" using assms by simp
  show ?thesis
  proof (cases "unat c < 56")
    case True
    have "tag_of buf = Inr (k, t, c) \<longleftrightarrow>
        t = 1 \<and> unat (buf ! 0) = 128 + unat c \<and> \<not> (c = 1 \<and> length buf > 1 \<and> buf ! 1 < 128)"
      using KString True by (auto simp: tag_of_iff[OF assms(1)] long_head_def)
    moreover have "c = 1 \<and> length buf > 1 \<and> buf ! 1 < 128 \<longleftrightarrow> length content = 1 \<and> hd content < 128"
      if "t = 1"
      using that assms l by (auto simp: word_unat_eq_iff[of c] hd_drop_conv_nth)
    moreover have "take (unat t) buf = header k content \<and> unat t = length (header k content) \<longleftrightarrow>
        t = 1 \<and> unat (buf ! 0) = 128 + unat c"
      using KString True l assms(1)
      by (auto simp: header_def spec_head_short unat_byte_add_ucast
          word_unat_eq_iff take_Suc_0_eq)
    moreover have "header_ok k content \<longleftrightarrow> \<not> (length content = 1 \<and> hd content < 128)"
      using KString by (simp add: header_ok_def)
    ultimately show ?thesis using KString by blast
  next
    case False
    then show ?thesis using KString l
      by (auto simp: tag_of_iff[OF assms(1)] header_def header_ok_def spec_head_long long_head_def)
  qed
next
  case KList
  have l: "length content = unat c" using assms by simp
  show ?thesis
  proof (cases "unat c < 56")
    case True
    have "tag_of buf = Inr (k, t, c) \<longleftrightarrow> t = 1 \<and> unat (buf ! 0) = 192 + unat c"
      using KList True by (auto simp: tag_of_iff[OF assms(1)] long_head_def)
    then show ?thesis using KList True l assms(1)
      by (auto simp: header_def header_ok_def spec_head_short unat_byte_add_ucast
          word_unat_eq_iff take_Suc_0_eq)
  next
    case False
    then show ?thesis using KList l
      by (auto simp: tag_of_iff[OF assms(1)] header_def header_ok_def spec_head_long long_head_def)
  qed
qed

lemma tag_of_tagsize: "buf \<noteq> [] \<Longrightarrow> tag_of buf = Inr (k, t, c) \<Longrightarrow> unat t \<le> length buf"
  using long_head_tag[of 183 buf t c] long_head_tag[of 247 buf t c]
  by (cases buf) (auto simp: tag_of_iff)

lemma readKind_iff:
  assumes "length b < 2 ^ 63"
  shows "readKind b = Inr (k, t, c) \<longleftrightarrow>
    (\<exists>content rest. b = header k content @ content @ rest \<and> header_ok k content \<and>
       unat t = length (header k content) \<and> unat c = length content)" (is "_ \<longleftrightarrow> ?R")
proof
  assume r: "readKind b = Inr (k, t, c)"
  then have b: "b \<noteq> []" and tag: "tag_of b = Inr (k, t, c)"
    and "\<not> c > word_of_nat (length b) - t"
    by (auto simp: readKind_tag_of split: if_splits sum.splits)
  then have le: "unat t + unat c \<le> length b"
    using readKind_size_ok[OF assms tag_of_tagsize[OF b tag], of c] by simp
  let ?content = "take (unat c) (drop (unat t) b)"
  have h: "take (unat t) b = header k ?content \<and> unat t = length (header k ?content) \<and>
      header_ok k ?content"
    using tag header_take[OF b le refl] by blast
  have "b = take (unat t) b @ ?content @ drop (unat c) (drop (unat t) b)"
    by (simp only: append_take_drop_id)
  then have "b = header k ?content @ ?content @ drop (unat c) (drop (unat t) b)" using h by metis
  moreover have "unat c = length ?content" using le by simp
  ultimately show ?R using h by blast
next
  assume ?R
  then obtain content rest where b: "b = header k content @ content @ rest" "header_ok k content"
    "unat t = length (header k content)" "unat c = length content" by blast
  then have ne: "b \<noteq> []" and le: "unat t + unat c \<le> length b"
    by (auto simp: header_def header_ok_def spec_head_def split: kind.splits if_splits)
  have "take (unat c) (drop (unat t) b) = content" using b by simp
  then have tag: "tag_of b = Inr (k, t, c)"
    using b by (subst header_take[OF ne le refl]) (auto simp: header_ok_def)
  then show "readKind b = Inr (k, t, c)"
    using readKind_size_ok[OF assms tag_of_tagsize[OF ne tag], of c] ne le
    by (simp add: readKind_tag_of)
qed

lemma Split_iff:
  assumes "length b < 2 ^ 63"
  shows "Split b = Inr (k, content, rest) \<longleftrightarrow>
    b = header k content @ content @ rest \<and> header_ok k content" (is "_ \<longleftrightarrow> ?R")
proof
  assume "Split b = Inr (k, content, rest)"
  then obtain t c where r: "readKind b = Inr (k, t, c)"
    and cr: "content = sub_bytes b t (t + c)" "rest = drop (unat (t + c)) b"
    by (auto simp: Split_def split: sum.splits)
  obtain x y where b: "b = header k x @ x @ y" "header_ok k x" "unat t = length (header k x)"
    "unat c = length x" using r readKind_iff[OF assms] by blast
  then have "unat (t + c) = length (header k x) + length x"
    using assms by (simp add: unat_plus_if')
  then show ?R using b cr by (simp add: sub_bytes_def)
next
  assume r: ?R
  let ?t = "word_of_nat (length (header k content)) :: u64"
  let ?c = "word_of_nat (length content) :: u64"
  have u: "unat ?t = length (header k content)" "unat ?c = length content"
    "unat (?t + ?c) = length (header k content) + length content"
    using r assms by (simp_all add: unat_of_nat unat_word_ariths)
  then have "readKind b = Inr (k, ?t, ?c)" using r readKind_iff[OF assms] by blast
  then show "Split b = Inr (k, content, rest)"
    using r u by (simp add: Split_def sub_bytes_def)
qed

lemma header_String:
  "(\<exists>k. k \<noteq> KList \<and> b = header k content @ content @ rest \<and> header_ok k content) \<longleftrightarrow>
   b = spec_str content @ rest"
proof -
  have "(\<exists>k. k \<noteq> KList \<and> P k) \<longleftrightarrow> P KByte \<or> P KString" for P
    by (metis kind.distinct(3,5) kind.exhaust)
  then show ?thesis by (auto simp: header_def header_ok_def spec_str_def)
qed

lemma SplitString_iff:
  assumes "length b < 2 ^ 63"
  shows "SplitString b = Inr (content, rest) \<longleftrightarrow> b = spec_str content @ rest"
proof -
  have "SplitString b = Inr (content, rest) \<longleftrightarrow>
      (\<exists>k. k \<noteq> KList \<and> Split b = Inr (k, content, rest))"
    by (auto simp: SplitString_def split: sum.splits if_splits)
  then show ?thesis by (simp only: Split_iff[OF assms] header_String)
qed

lemma SplitList_iff:
  assumes "length b < 2 ^ 63"
  shows "SplitList b = Inr (content, rest) \<longleftrightarrow> b = spec_lst content @ rest"
proof -
  have "SplitList b = Inr (content, rest) \<longleftrightarrow> Split b = Inr (KList, content, rest)"
    by (auto simp: SplitList_def split: sum.splits if_splits)
  then show ?thesis by (simp add: Split_iff[OF assms] header_def header_ok_def spec_lst_def)
qed

subsection \<open>Integers, sizes, counting and iterating\<close>

lemma min_bytes_0 [simp]: "min_bytes 0 = []"
  by (simp add: min_bytes_def)

lemma min_bytes_byte: "0 < n \<Longrightarrow> n < 256 \<Longrightarrow> min_bytes n = [word_of_nat n]"
  by (simp add: min_bytes_eq[where k = 0])

lemma AppendUint64_eq: "AppendUint64 b i = b @ spec_str (min_bytes (unat i))"
proof (cases "unat i < 128")
  case True
  then show ?thesis
    by (cases "i = 0")
      (auto simp: AppendUint64_def spec_str_def spec_head_def u64_less_numeral byte_less_numeral
        min_bytes_byte unat_gt_0 unsigned_ucast_eq take_bit_nat_eq_self)
next
  case False
  then have i: "i \<noteq> 0" by auto
  obtain k where k: "k < 8" "256 ^ k \<le> unat i" "unat i < 256 ^ Suc k"
    using u64_byte_count[OF i] .
  from k(1) consider "k = 0" | "k = 1" | "k = 2" | "k = 3" | "k = 4" | "k = 5" | "k = 6" | "k = 7"
    by linarith
  then show ?thesis
    using k(2,3) False i
    by cases (simp_all add: min_bytes_eq[OF k(2,3)] AppendUint64_def spec_str_def spec_head_def
        u64_less_numeral byte_less_numeral byte_ats div_div_nat unsigned_ucast_eq be_bytes_numeral
        take_bit_nat_eq_self)
qed

lemma min_bytes_single: "[y] = min_bytes (unat x) \<longleftrightarrow> y \<noteq> 0 \<and> x = ucast y" for x :: u64
proof
  assume a: "[y] = min_bytes (unat x)"
  then have "bytes_to_nat [y] = unat x" by simp
  then have "unat x = unat y" by (simp add: bytes_to_nat_Cons)
  moreover have "y \<noteq> 0"
    using a hd_min_bytes[of "unat x"] by (cases "unat x = 0") (simp, metis list.sel(1) neq0_conv)
  ultimately show "y \<noteq> 0 \<and> x = ucast y" by (simp add: ucast_byte_iff)
next
  assume "y \<noteq> 0 \<and> x = ucast y"
  then show "[y] = min_bytes (unat x)"
    using unat_byte_less[of y] by (simp add: min_bytes_byte unat_gt_0)
qed

lemma min_bytes_long: "2 \<le> length (min_bytes n) \<Longrightarrow> 256 \<le> n"
  using min_bytes_byte[of n] by (cases "n = 0"; cases "n < 256") auto

lemma SplitUint64_iff:
  assumes "length b < 2 ^ 63"
  shows "SplitUint64 b = Inr (x, rest) \<longleftrightarrow> b = AppendUint64 [] x @ rest"
proof -
  have *: "(if length c = 0 then Inr (0, r)
          else if length c = 1 then
            if c ! 0 = 0 then Inl ErrCanonInt else Inr (ucast (c ! 0), r)
          else if length c > 8 then Inl ErrUintOverflow
          else case readSize c (word_of_nat (length c)) of
                 Inl e \<Rightarrow> Inl ErrCanonInt
               | Inr x \<Rightarrow> Inr (x, r)) = Inr (x, rest) \<longleftrightarrow> c = min_bytes (unat x) \<and> r = rest" for c r
  proof -
    consider "c = []" | y where "c = [y]" | "2 \<le> length c" "length c \<le> 8" | "8 < length c"
      by (cases c; cases "tl c"; force)
    then show ?thesis
    proof cases
      case 1
      then show ?thesis using length_min_bytes_pos[of "unat x"] unat_gt_0[of x] by auto
    next
      case 2
      then show ?thesis using min_bytes_single[of y x] by auto
    next
      case 3
      then have "unat (word_of_nat (length c) :: byte) = length c" by (simp add: unat_of_nat)
      then have "readSize c (word_of_nat (length c)) = Inr x \<longleftrightarrow> c = min_bytes (unat x)"
        using 3 readSize_iff[of "word_of_nat (length c)" c x] min_bytes_long[of "unat x"] by auto
      with 3 show ?thesis by (auto split: sum.splits)
    next
      case 4
      then show ?thesis using length_min_bytes_u64[OF unat_u64_less[of x]] by auto
    qed
  qed
  have "SplitUint64 b = Inr (x, rest) \<longleftrightarrow>
     (\<exists>c r. SplitString b = Inr (c, r) \<and> c = min_bytes (unat x) \<and> r = rest)"
  proof (cases "SplitString b")
    case (Inr p)
    obtain c r where "p = (c, r)" by (cases p)
    with Inr * show ?thesis
      by (simp only: SplitUint64_def Let_def sum.case prod.case) auto
  qed (simp add: SplitUint64_def)
  also have "\<dots> \<longleftrightarrow> b = AppendUint64 [] x @ rest"
    by (simp add: SplitString_iff[OF assms] AppendUint64_eq)
  finally show ?thesis .
qed

lemma headsize_eq: "length c < 2 ^ 63 \<Longrightarrow> headsize (word_of_nat (length c)) = length (spec_head s l (length c))"
  by (auto simp: headsize_def intsize_def spec_head_def min_bytes_def unat_of_nat u64_less_numeral
      word_unat_eq_iff)

lemma spec_head_length_le: "length c < 2 ^ 63 \<Longrightarrow> length (spec_head s l (length c)) \<le> 9"
  using length_min_bytes_u64[of "length c"] by (auto simp: spec_head_def)

lemma BytesSize_eq:
  assumes "length b < 2 ^ 63 - 9"
  shows "unat (BytesSize b) = length (spec_str b)"
proof -
  have l: "length b < 2 ^ 63" using assms by simp
  consider "b = []" | y where "b = [y]" | "2 \<le> length b" by (cases b; cases "tl b"; force)
  then show ?thesis
  proof cases
    case 3
    have "unat (BytesSize b) = unat (word_of_nat (headsize (word_of_nat (length b)) + length b) :: u64)"
      using 3 by (auto simp add: BytesSize_def Let_def)
    also have "\<dots> = headsize (word_of_nat (length b)) + length b"
      using assms spec_head_length_le[OF l, of "0x80" "0xB7"] headsize_eq[OF l, of "0x80" "0xB7"]
      by (simp add: unat_of_nat del: of_nat_add)
    finally show ?thesis using 3 headsize_eq[OF l, of "0x80" "0xB7"] by (simp add: spec_str_def)
  qed (auto simp: BytesSize_def spec_str_def spec_head_def word_le_nat_alt word_less_nat_alt)
qed

lemma StringSize_BytesSize: "StringSize s = BytesSize s"
  by (simp add: StringSize_def BytesSize_def)

lemma ListSize_eq:
  assumes "length c < 2 ^ 63 - 9"
  shows "unat (ListSize (word_of_nat (length c))) = length (spec_lst c)"
proof -
  have l: "length c < 2 ^ 63" using assms by simp
  then show ?thesis
    using assms spec_head_length_le[OF l, of "0xC0" "0xF7"] headsize_eq[OF l, of "0xC0" "0xF7"]
    by (simp add: ListSize_def spec_lst_def unat_word_ariths unat_of_nat)
qed

lemma spec_str_uint:
  assumes "128 \<le> unat (x :: u64)"
  shows "spec_str (min_bytes (unat x)) =
    (0x80 + word_of_nat (length (min_bytes (unat x)))) # min_bytes (unat x)"
proof -
  have "\<not> (length (min_bytes (unat x)) = 1 \<and> hd (min_bytes (unat x)) < 0x80)"
    using assms min_bytes_single[of "hd (min_bytes (unat x))" x]
    by (cases "min_bytes (unat x)") (auto simp: word_less_nat_alt)
  then show ?thesis
    using length_min_bytes_u64[OF unat_u64_less[of x]] by (auto simp: spec_str_def spec_head_def)
qed

lemma IntSize_eq: "IntSize x = length (AppendUint64 [] x)"
proof (cases "unat x < 128")
  case True
  then show ?thesis
    by (cases "x = 0")
      (auto simp: IntSize_def u64_less_numeral AppendUint64_eq spec_str_def spec_head_def
        min_bytes_byte unat_gt_0 word_less_nat_alt unsigned_ucast_eq take_bit_nat_eq_self)
next
  case False
  then have "IntSize x = Suc (length (min_bytes (unat x)))"
    by (auto simp: IntSize_def u64_less_numeral intsize_def min_bytes_def)
  with False show ?thesis by (simp add: AppendUint64_eq spec_str_uint)
qed

lemma rlp_spec_header: "\<exists>k c. rlp_spec x = header k c @ c \<and> header_ok k c \<and> (k = KList \<longleftrightarrow> (\<exists>xs. x = Lst xs))"
proof (cases x)
  case (Str b)
  then show ?thesis using header_String[of "spec_str b" b "[]"] by auto
next
  case (Lst xs)
  then show ?thesis
    by (auto simp: spec_lst_def header_def header_ok_def intro!: exI[of _ KList])
qed

lemma header_nonempty: "header_ok k c \<Longrightarrow> 1 \<le> length (header k c) + length c"
  by (auto simp: header_def header_ok_def spec_head_def split: kind.splits)

lemma rlp_spec_nonempty [simp]: "rlp_spec x \<noteq> []"
  using rlp_spec_header[of x] header_nonempty by fastforce

lemma readKind_parts:
  assumes "length b < 2 ^ 63" "readKind b = Inr (k, t, c)"
  obtains v rest where "b = header k v @ v @ rest" "header_ok k v"
    "unat (t + c) = length (header k v @ v)"
proof -
  obtain v rest where b: "b = header k v @ v @ rest" "header_ok k v"
    "unat t = length (header k v)" "unat c = length v"
    using assms readKind_iff by blast
  then have "unat (t + c) = length (header k v @ v)" using assms(1) by (simp add: unat_plus_if')
  with b that show thesis by blast
qed

lemma readKind_rlp_spec:
  assumes "length (rlp_spec x @ d) < 2 ^ 63"
  obtains k t c where "readKind (rlp_spec x @ d) = Inr (k, t, c)"
    "unat (t + c) = length (rlp_spec x)"
proof -
  obtain k v where x: "rlp_spec x = header k v @ v" "header_ok k v" using rlp_spec_header by blast
  let ?t = "word_of_nat (length (header k v)) :: u64"
  let ?c = "word_of_nat (length v) :: u64"
  have u: "unat ?t = length (header k v)" "unat ?c = length v"
    "unat (?t + ?c) = length (header k v) + length v"
    using x assms by (simp_all add: unat_of_nat unat_word_ariths)
  then have "readKind (rlp_spec x @ d) = Inr (k, ?t, ?c)"
    using x readKind_iff[OF assms] by auto
  with u x that show thesis by simp
qed

lemma count_loop_total:
  "length b < 2 ^ 63 \<Longrightarrow> length b \<le> n \<Longrightarrow> count_loop n b i \<noteq> None"
proof (induction n arbitrary: b i)
  case (Suc n)
  show ?case
  proof (cases "b = []")
    case False
    show ?thesis
    proof (cases "readKind b")
      case (Inr r)
      obtain k t c where r: "r = (k, t, c)" by (cases r) auto
      then obtain v rest where "b = header k v @ v @ rest" "header_ok k v"
        "unat (t + c) = length (header k v @ v)"
        using readKind_parts[OF Suc.prems(1)] Inr by auto
      then have "Suc (length (drop (unat (t + c)) b)) \<le> length b"
        using header_nonempty[of k v] by simp
      then have "length (drop (unat (t + c)) b) \<le> n" "length (drop (unat (t + c)) b) < 2 ^ 63"
        using Suc.prems by linarith+
      then show ?thesis using Suc.IH False Inr r by simp
    qed (use False in simp)
  qed simp
qed simp

lemma count_loop_encoded:
  "length (concat (map rlp_spec xs)) < 2 ^ 63 \<Longrightarrow> length xs \<le> n \<Longrightarrow>
   count_loop n (concat (map rlp_spec xs)) i = Some (Inr (i + length xs))"
proof (induction xs arbitrary: n i)
  case Nil
  then show ?case by (cases n) auto
next
  case (Cons x xs)
  obtain k t c where r: "readKind (rlp_spec x @ concat (map rlp_spec xs)) = Inr (k, t, c)"
    "unat (t + c) = length (rlp_spec x)"
    using readKind_rlp_spec[of x "concat (map rlp_spec xs)"] Cons.prems(1) by auto
  obtain m where n: "n = Suc m" "length xs \<le> m" using Cons.prems(2) by (cases n) auto
  then show ?case using Cons r by simp
qed

lemma CountValues_total: "length b < 2 ^ 63 \<Longrightarrow> CountValues b \<noteq> None"
  by (simp add: CountValues_def count_loop_total)

lemma CountValues_encoded:
  assumes "length (concat (map rlp_spec xs)) < 2 ^ 63"
  shows "CountValues (concat (map rlp_spec xs)) = Some (Inr (length xs))"
proof -
  have "length xs \<le> length (concat (map rlp_spec xs))"
    by (induction xs) (auto simp: Suc_le_eq add_strict_increasing intro: add_strict_increasing)
  then show ?thesis using count_loop_encoded[OF assms, of _ 0] by (simp add: CountValues_def)
qed

lemma Next_encoded:
  assumes "it_data it = rlp_spec x @ d" "length (it_data it) < 2 ^ 63"
  shows "Next it = (True, it\<lparr>it_next := rlp_spec x, it_data := d, it_err := None\<rparr>)"
proof -
  obtain k t c where "readKind (rlp_spec x @ d) = Inr (k, t, c)"
    "unat (t + c) = length (rlp_spec x)"
    using readKind_rlp_spec[of x d] assms by auto
  then show ?thesis using assms(1) by (simp add: Next_def)
qed

definition advance :: "listIterator \<Rightarrow> listIterator" where
  "advance it = snd (Next it)"

lemma iterate_encoded:
  "it_data it = concat (map rlp_spec xs) \<Longrightarrow> length (it_data it) < 2 ^ 63 \<Longrightarrow> k < length xs \<Longrightarrow>
   it_next ((advance ^^ Suc k) it) = rlp_spec (xs ! k)"
proof (induction k arbitrary: it xs)
  case 0
  then obtain x ys where "xs = x # ys" by (cases xs) auto
  then show ?case using 0 Next_encoded[of it x "concat (map rlp_spec ys)"]
    by (simp add: advance_def)
next
  case (Suc k)
  then obtain x ys where xs: "xs = x # ys" by (cases xs) auto
  let ?it = "advance it"
  have "it_data ?it = concat (map rlp_spec ys)"
    using Suc.prems xs Next_encoded[of it x "concat (map rlp_spec ys)"]
    by (simp add: advance_def)
  moreover from this have "length (it_data ?it) < 2 ^ 63" using Suc.prems xs by simp
  ultimately have "it_next ((advance ^^ Suc k) ?it) = rlp_spec (ys ! k)"
    by (intro Suc.IH) (use Suc.prems xs in auto)
  then show ?case using xs by (simp add: funpow_swap1)
qed

lemma NewListIterator_encoded:
  assumes "length (rlp_spec (Lst xs)) < 2 ^ 63"
  shows "NewListIterator (rlp_spec (Lst xs)) =
    Inr \<lparr>it_data = concat (map rlp_spec xs), it_next = [], it_err = None\<rparr>"
proof -
  let ?b = "rlp_spec (Lst xs)"
  have s: "Split ?b = Inr (KList, concat (map rlp_spec xs), [])"
    using assms by (simp add: Split_iff header_def header_ok_def spec_lst_def)
  then obtain t c where "readKind ?b = Inr (KList, t, c)"
    "sub_bytes ?b t (t + c) = concat (map rlp_spec xs)"
    unfolding Split_def by (auto split: sum.splits simp del: rlp_spec.simps)
  then show ?thesis by (simp add: NewListIterator_def del: rlp_spec.simps)
qed

end
