(* ===== verification/RlpEncode.thy ===== *)
theory RlpEncode
  imports RlpRaw
begin

text \<open>
  The encoder: \<open>src/rlp/encbuffer.go\<close> and the writers of \<open>src/rlp/encode.go\<close>.

  A value is written in two phases. The writers append string data to \<open>str\<close> and only record where
  a list starts (\<open>list\<close>) and how long its encoding is (\<open>listEnd\<close>); the headers are put between the
  pieces of string data when the output is assembled (\<open>copyTo\<close>). The result is shown to be the
  recursive definition of the format (\<open>EncodeToBytes_spec\<close>).

  The writers are selected by reflection on the Go type of a value; a value of the model carries
  that choice as its constructor. Struct fields tagged \<open>optional\<close> are not covered, and neither are
  types with a method \<open>EncodeRLP\<close> of their own.
\<close>

record listhead =
  offset :: nat
  lsize :: nat

record encBuffer =
  str :: bytes
  lheads :: "listhead list"
  lhsize :: nat

definition empty_encBuffer :: encBuffer where
  "empty_encBuffer = \<lparr>str = [], lheads = [], lhsize = 0\<rparr>"

definition enc_reset :: "encBuffer \<Rightarrow> encBuffer" where
  "enc_reset buf = buf\<lparr>lhsize := 0, str := [], lheads := []\<rparr>"

definition enc_size :: "encBuffer \<Rightarrow> nat" where
  "enc_size buf = length (str buf) + lhsize buf"

definition head_encode :: "listhead \<Rightarrow> bytes" where
  "head_encode h = puthead 0xC0 0xF7 (word_of_nat (lsize h))"

text \<open>The bytes that the loop of \<open>copyTo\<close> writes, from position \<open>strpos\<close> of the string data on.\<close>

fun copy_pieces :: "nat \<Rightarrow> bytes \<Rightarrow> listhead list \<Rightarrow> bytes" where
  "copy_pieces strpos s [] = s"
| "copy_pieces strpos s (h # hs) =
     (let n = offset h - strpos in
      take n s @ head_encode h @ copy_pieces (strpos + n) (drop n s) hs)"

definition copyTo :: "encBuffer \<Rightarrow> bytes \<Rightarrow> bytes" where
  "copyTo buf dst =
     (let out = copy_pieces 0 (str buf) (lheads buf) in
      take (length dst) out @ drop (length out) dst)"

definition makeBytes :: "encBuffer \<Rightarrow> bytes" where
  "makeBytes buf = copyTo buf (replicate (enc_size buf) 0)"

subsection \<open>Writers\<close>

definition append_str :: "bytes \<Rightarrow> encBuffer \<Rightarrow> encBuffer" where
  "append_str b buf = buf\<lparr>str := str buf @ b\<rparr>"

definition enc_writeBool :: "bool \<Rightarrow> encBuffer \<Rightarrow> encBuffer" where
  "enc_writeBool b buf = append_str (if b then [0x01] else [0x80]) buf"

definition enc_writeUint64 :: "u64 \<Rightarrow> encBuffer \<Rightarrow> encBuffer" where
  "enc_writeUint64 i buf =
     (if i = 0 then append_str [0x80] buf
      else if i < 128 then append_str [ucast i] buf
      else let s = putint i in append_str ((0x80 + word_of_nat (length s)) # s) buf)"

definition encodeStringHeader :: "nat \<Rightarrow> encBuffer \<Rightarrow> encBuffer" where
  "encodeStringHeader sz buf =
     (if sz < 56 then append_str [0x80 + word_of_nat sz] buf
      else let s = putint (word_of_nat sz) in append_str ((0xB7 + word_of_nat (length s)) # s) buf)"

definition enc_writeBytes :: "bytes \<Rightarrow> encBuffer \<Rightarrow> encBuffer" where
  "enc_writeBytes b buf =
     (if length b = 1 \<and> b ! 0 \<le> 0x7F then append_str [b ! 0] buf
      else append_str b (encodeStringHeader (length b) buf))"

text \<open>\<open>i\<close> is not negative here; \<open>math.ReadBits\<close> fills the slice with its big-endian bytes.\<close>

definition enc_writeBigInt :: "int \<Rightarrow> encBuffer \<Rightarrow> encBuffer" where
  "enc_writeBigInt i buf =
     (let bl = bitlen (nat \<bar>i\<bar>) in
      if bl \<le> 64 then enc_writeUint64 (word_of_int i) buf
      else let len = (bl + 7) div 8 in
        append_str (be_bytes len (nat \<bar>i\<bar>)) (encodeStringHeader len buf))"

definition enc_writeUint256 :: "uint256_lib \<Rightarrow> u256 \<Rightarrow> encBuffer \<Rightarrow> encBuffer" where
  "enc_writeUint256 U z buf =
     (let bl = u_BitLen U z in
      if bl \<le> 64 then enc_writeUint64 (u_Uint64 U z) buf
      else let nBytes = (bl + 7) div 8;
               b = (0 # be_bytes 32 (unat z))[32 - nBytes := 0x80 + word_of_nat nBytes]
           in append_str (drop (32 - nBytes) b) buf)"

definition enc_list :: "encBuffer \<Rightarrow> nat \<times> encBuffer" where
  "enc_list buf =
     (length (lheads buf),
      buf\<lparr>lheads := lheads buf @ [\<lparr>offset = length (str buf), lsize = lhsize buf\<rparr>]\<rparr>)"

definition enc_listEnd :: "nat \<Rightarrow> encBuffer \<Rightarrow> encBuffer" where
  "enc_listEnd index buf =
     (let lh = lheads buf ! index;
          sz = enc_size buf - offset lh - lsize lh
      in buf\<lparr>lheads := (lheads buf)[index := lh\<lparr>lsize := sz\<rparr>],
             lhsize := (if sz < 56 then lhsize buf + 1
                        else lhsize buf + (1 + intsize (word_of_nat sz)))\<rparr>)"

datatype rlp_value =
    VRaw bytes \<comment> \<open>\<open>RawValue\<close>\<close>
  | VBigInt int
  | VUint256 u256
  | VNilPtr bool \<comment> \<open>a nil pointer; whether its element is of kind \<open>String\<close>\<close>
  | VUint u64
  | VBool bool
  | VString bytes
  | VBytes bytes
  | VByteArray bytes
  | VSlice "rlp_value list"
  | VTail "rlp_value list" \<comment> \<open>the last field of a struct, tagged \<open>tail\<close>\<close>
  | VStruct "rlp_value list"
  | VNilInterface

fun enc_encode :: "uint256_lib \<Rightarrow> rlp_value \<Rightarrow> encBuffer \<Rightarrow> rlp_error + encBuffer"
and enc_encodes :: "uint256_lib \<Rightarrow> rlp_value list \<Rightarrow> encBuffer \<Rightarrow> rlp_error + encBuffer" where
  "enc_encode U (VRaw b) w = Inr (append_str b w)"
| "enc_encode U (VBigInt i) w = (if i < 0 then Inl ErrNegativeBigInt else Inr (enc_writeBigInt i w))"
| "enc_encode U (VUint256 z) w = Inr (enc_writeUint256 U z w)"
| "enc_encode U (VNilPtr str_kind) w = Inr (append_str (if str_kind then [0x80] else [0xC0]) w)"
| "enc_encode U (VUint i) w = Inr (enc_writeUint64 i w)"
| "enc_encode U (VBool b) w = Inr (enc_writeBool b w)"
| "enc_encode U (VString s) w =
     Inr (if length s = 1 \<and> s ! 0 \<le> 0x7f then append_str [s ! 0] w
          else append_str s (encodeStringHeader (length s) w))"
| "enc_encode U (VBytes b) w = Inr (enc_writeBytes b w)"
| "enc_encode U (VByteArray b) w =
     Inr (if length b = 0 then append_str [0x80] w
          else if length b = 1 then
            if b ! 0 \<le> 0x7f then append_str [b ! 0] w else append_str [0x81, b ! 0] w
          else append_str b (encodeStringHeader (length b) w))"
| "enc_encode U (VSlice vs) w =
     (if vs = [] then Inr (append_str [0xC0] w)
      else let (listOffset, w1) = enc_list w in map_sum id (enc_listEnd listOffset) (enc_encodes U vs w1))"
| "enc_encode U (VTail vs) w = enc_encodes U vs w"
| "enc_encode U (VStruct vs) w =
     (let (lh, w1) = enc_list w in map_sum id (enc_listEnd lh) (enc_encodes U vs w1))"
| "enc_encode U VNilInterface w = Inr (append_str [0xC0] w)"
| "enc_encodes U [] w = Inr w"
| "enc_encodes U (v # vs) w =
     (case enc_encode U v w of Inl e \<Rightarrow> Inl e | Inr w1 \<Rightarrow> enc_encodes U vs w1)"

definition EncodeToBytes :: "uint256_lib \<Rightarrow> rlp_value \<Rightarrow> rlp_error + bytes" where
  "EncodeToBytes U v = map_sum id makeBytes (enc_encode U v (enc_reset empty_encBuffer))"

subsection \<open>The format of a value\<close>

fun value_spec :: "rlp_value \<Rightarrow> bytes" where
  "value_spec (VRaw b) = b"
| "value_spec (VBigInt i) = rlp_spec (Str (min_bytes (nat i)))"
| "value_spec (VUint256 z) = rlp_spec (Str (min_bytes (unat z)))"
| "value_spec (VNilPtr str_kind) = rlp_spec (if str_kind then Str [] else Lst [])"
| "value_spec (VUint i) = rlp_spec (Str (min_bytes (unat i)))"
| "value_spec (VBool b) = rlp_spec (Str (if b then [1] else []))"
| "value_spec (VString s) = rlp_spec (Str s)"
| "value_spec (VBytes b) = rlp_spec (Str b)"
| "value_spec (VByteArray b) = rlp_spec (Str b)"
| "value_spec (VSlice vs) = spec_lst (concat (map value_spec vs))"
| "value_spec (VTail vs) = concat (map value_spec vs)"
| "value_spec (VStruct vs) = spec_lst (concat (map value_spec vs))"
| "value_spec VNilInterface = rlp_spec (Lst [])"

fun has_negative :: "rlp_value \<Rightarrow> bool" where
  "has_negative (VBigInt i) = (i < 0)"
| "has_negative (VSlice vs) = list_ex has_negative vs"
| "has_negative (VTail vs) = list_ex has_negative vs"
| "has_negative (VStruct vs) = list_ex has_negative vs"
| "has_negative v = False"

text \<open>
  \<open>ext buf buf' w\<close>: going from \<open>buf\<close> to \<open>buf'\<close> has added string data and closed headers that
  assemble to \<open>w\<close>, whatever is added later.
\<close>

definition ext :: "encBuffer \<Rightarrow> encBuffer \<Rightarrow> bytes \<Rightarrow> bool" where
  "ext buf buf' w \<longleftrightarrow>
     (\<exists>s hs n. str buf' = str buf @ s \<and> lheads buf' = lheads buf @ hs \<and>
        lhsize buf' = lhsize buf + n \<and> length w = length s + n \<and>
        (\<forall>h \<in> set hs. length (str buf) \<le> offset h) \<and>
        (\<forall>r rest. (\<forall>h \<in> set rest. length (str buf) + length s \<le> offset h) \<longrightarrow>
           copy_pieces (length (str buf)) (s @ r) (hs @ rest) =
           w @ copy_pieces (length (str buf) + length s) r rest))"

subsection \<open>Leaf writers\<close>

lemma puthead_eq: "n < 2 ^ 64 \<Longrightarrow> puthead small large (word_of_nat n) = spec_head small large n"
proof -
  assume n: "n < 2 ^ 64"
  then have u: "unat (word_of_nat n :: u64) = n" by (simp add: unat_of_nat)
  show ?thesis
  proof (cases "n < 56")
    case True
    have "(ucast (word_of_nat n :: u64) :: byte) = word_of_nat n"
      using of_nat_unat[of "word_of_nat n :: u64", where ?'a = "8 word"] u by simp
    then show ?thesis using True u by (simp add: puthead_def spec_head_def u64_less_numeral)
  next
    case False
    then have "(word_of_nat n :: u64) \<noteq> 0" using u by auto
    then show ?thesis using False u
      by (simp add: puthead_def spec_head_def u64_less_numeral putint_eq Let_def)
  qed
qed

lemma append_str_append [simp]: "append_str b (append_str a w) = append_str (a @ b) w"
  by (simp add: append_str_def)

lemma writeUint64_eq: "enc_writeUint64 i w = append_str (spec_str (min_bytes (unat i))) w"
proof -
  have "enc_writeUint64 i w = append_str (AppendUint64 [] i) w"
  proof (cases "i = 0 \<or> i < 128")
    case False
    then show ?thesis
      by (simp add: enc_writeUint64_def Let_def putint_eq AppendUint64_eq spec_str_uint
          u64_less_numeral)
  qed (auto simp: enc_writeUint64_def AppendUint64_def)
  then show ?thesis by (simp add: AppendUint64_eq)
qed

lemma encodeStringHeader_eq:
  "n < 2 ^ 64 \<Longrightarrow> encodeStringHeader n w = append_str (spec_head 0x80 0xB7 n) w"
proof -
  assume n: "n < 2 ^ 64"
  then have u: "unat (word_of_nat n :: u64) = n" by (simp add: unat_of_nat)
  show ?thesis
  proof (cases "n < 56")
    case False
    then have "(word_of_nat n :: u64) \<noteq> 0" using u by auto
    then show ?thesis using False u
      by (simp add: Let_def encodeStringHeader_def spec_head_def putint_eq)
  qed (simp add: encodeStringHeader_def spec_head_def)
qed

lemma small_byte_iff: "(x :: byte) \<le> 0x7F \<longleftrightarrow> x < 0x80"
  by (simp add: word_le_nat_alt word_less_nat_alt) linarith

lemma writeBytes_eq: "length b < 2 ^ 63 \<Longrightarrow> enc_writeBytes b w = append_str (spec_str b) w"
  by (cases b) (auto simp: enc_writeBytes_def spec_str_def encodeStringHeader_eq small_byte_iff)

lemma length_spec_str: "length b \<le> length (spec_str b)"
  by (simp add: spec_str_def)

lemma spec_str_long:
  "2 \<le> length b \<Longrightarrow> spec_str b = spec_head 0x80 0xB7 (length b) @ b"
  by (simp add: spec_str_def)

lemma writeBigInt_eq:
  assumes "0 \<le> i" "length (spec_str (min_bytes (nat i))) < 2 ^ 63"
  shows "enc_writeBigInt i w = append_str (spec_str (min_bytes (nat i))) w"
proof (cases "bitlen (nat i) \<le> 64")
  case True
  then have "unat (word_of_int i :: u64) = nat i"
    using assms(1) by (simp add: bitlen_le_iff unsigned_of_int take_bit_eq_mod nat_less_iff)
  with True show ?thesis using assms(1) by (simp add: enc_writeBigInt_def writeUint64_eq)
next
  case False
  let ?b = "min_bytes (nat i)"
  have l: "length ?b = (bitlen (nat i) + 7) div 8" by (simp add: min_bytes_def)
  moreover have "2 \<le> length ?b" using False l by linarith
  moreover have "length ?b < 2 ^ 64" using assms(2) length_spec_str[of ?b] by simp
  ultimately show ?thesis using False assms(1)
    by (simp add: enc_writeBigInt_def Let_def encodeStringHeader_eq spec_str_long)
       (simp add: min_bytes_def)
qed

lemma be_bytes_split: "be_bytes (m + n) v = be_bytes m (v div 256 ^ n) @ be_bytes n v"
  by (induction n arbitrary: v) (simp_all add: div_mult2_eq)

lemma writeUint256_eq:
  assumes "uint256 U"
  shows "enc_writeUint256 U z w = append_str (spec_str (min_bytes (unat z))) w"
proof (cases "bitlen (unat z) \<le> 64")
  case True
  then have "unat (u_Uint64 U z) = unat z"
    using uint256.ucast_u64_exact[OF assms, of z] by (simp add: bitlen_le_iff)
  with True show ?thesis
    by (simp add: enc_writeUint256_def uint256.BitLen[OF assms] writeUint64_eq)
next
  case False
  let ?n = "(bitlen (unat z) + 7) div 8"
  have "bitlen (unat z) \<le> 256"
    using unsigned_less[of z, where ?'a = nat] by (simp add: bitlen_le_iff)
  then have n: "2 \<le> ?n" "?n \<le> 32" using False by linarith+
  have upd: "drop k (xs[k := x]) = x # drop (Suc k) xs" if "k < length xs" for k x and xs :: bytes
    using that by (metis Cons_nth_drop_Suc drop_update_cancel length_list_update lessI nth_list_update_eq)
  have "be_bytes 32 (unat z) = be_bytes (32 - ?n) (unat z div 256 ^ ?n) @ be_bytes ?n (unat z)"
    using be_bytes_split[of "32 - ?n" ?n] n by simp
  then have "drop (32 - ?n) ((0 # be_bytes 32 (unat z))[32 - ?n := x]) = x # be_bytes ?n (unat z)" for x
    using n by (subst upd) simp_all
  moreover have "spec_str (min_bytes (unat z)) = (0x80 + word_of_nat ?n) # be_bytes ?n (unat z)"
    using n by (simp add: spec_str_long spec_head_def min_bytes_def)
  ultimately show ?thesis using False
    by (simp add: enc_writeUint256_def uint256.BitLen[OF assms] Let_def)
qed

subsection \<open>Assembling\<close>

lemma copy_pieces_skip:
  "(\<forall>h \<in> set rest. pos + length s \<le> offset h) \<Longrightarrow>
   copy_pieces pos (s @ r) rest = s @ copy_pieces (pos + length s) r rest"
  by (cases rest) (auto simp: Let_def)

lemma ext_append_str: "ext w (append_str b w) b"
  unfolding ext_def append_str_def
  by (rule exI[of _ b], rule exI[of _ "[]"], rule exI[of _ 0]) (simp add: copy_pieces_skip)

lemma ext_refl: "ext w w []"
  unfolding ext_def by (rule exI[of _ "[]"], rule exI[of _ "[]"], rule exI[of _ 0]) simp

lemma ext_trans:
  assumes "ext a b v" "ext b c w"
  shows "ext a c (v @ w)"
proof -
  obtain s hs n where 1: "str b = str a @ s" "lheads b = lheads a @ hs" "lhsize b = lhsize a + n"
    "length v = length s + n" "\<forall>h \<in> set hs. length (str a) \<le> offset h"
    "\<And>r rest. \<forall>h \<in> set rest. length (str a) + length s \<le> offset h \<Longrightarrow>
       copy_pieces (length (str a)) (s @ r) (hs @ rest) =
       v @ copy_pieces (length (str a) + length s) r rest"
    using assms(1) unfolding ext_def by blast
  obtain t ks m where 2: "str c = str b @ t" "lheads c = lheads b @ ks" "lhsize c = lhsize b + m"
    "length w = length t + m" "\<forall>h \<in> set ks. length (str b) \<le> offset h"
    "\<And>r rest. \<forall>h \<in> set rest. length (str b) + length t \<le> offset h \<Longrightarrow>
       copy_pieces (length (str b)) (t @ r) (ks @ rest) =
       w @ copy_pieces (length (str b) + length t) r rest"
    using assms(2) unfolding ext_def by blast
  have "copy_pieces (length (str a)) (s @ t @ r) (hs @ ks @ rest) =
      v @ w @ copy_pieces (length (str a) + (length s + length t)) r rest"
    if "\<forall>h \<in> set rest. length (str a) + (length s + length t) \<le> offset h" for r rest
  proof -
    have "\<forall>h \<in> set (ks @ rest). length (str a) + length s \<le> offset h" using that 1(1) 2(5) by fastforce
    then show ?thesis using 1(6)[of "ks @ rest" "t @ r"] 2(6)[of rest r] that 1(1) by (simp add: add.assoc)
  qed
  moreover have "\<forall>h \<in> set ks. length (str a) \<le> offset h" using 1(1) 2(5) by fastforce
  ultimately show ?thesis using 1 2 unfolding ext_def
    by (intro exI[of _ "s @ t"] exI[of _ "hs @ ks"] exI[of _ "n + m"]) auto
qed

lemma ext_list:
  assumes "ext (snd (enc_list a)) b w" "length w < 2 ^ 63"
  shows "ext a (enc_listEnd (fst (enc_list a)) b) (spec_lst w)"
proof -
  let ?p = "length (str a)"
  obtain s hs n where 1: "str b = str a @ s"
    "lheads b = lheads a @ \<lparr>offset = ?p, lsize = lhsize a\<rparr> # hs" "lhsize b = lhsize a + n"
    "length w = length s + n" "\<forall>h \<in> set hs. ?p \<le> offset h"
    "\<And>r rest. \<forall>h \<in> set rest. ?p + length s \<le> offset h \<Longrightarrow>
       copy_pieces ?p (s @ r) (hs @ rest) = w @ copy_pieces (?p + length s) r rest"
    using assms(1) unfolding ext_def by (auto simp: enc_list_def)
  define h where "h = \<lparr>offset = ?p, lsize = length w\<rparr>"
  let ?m = "length (spec_head 0xC0 0xF7 (length w))"
  have e: "head_encode h = spec_head 0xC0 0xF7 (length w)"
    using assms(2) by (simp add: h_def head_encode_def puthead_eq)
  have sz: "enc_size b - ?p - lhsize a = length w" using 1 by (simp add: enc_size_def)
  have "headsize (word_of_nat (length w)) = ?m" by (rule headsize_eq[OF assms(2)])
  then have b': "enc_listEnd (length (lheads a)) b =
      b\<lparr>lheads := lheads a @ h # hs, lhsize := lhsize b + ?m\<rparr>"
    using 1(2) sz assms(2) by (auto simp: enc_listEnd_def Let_def h_def headsize_def u64_less_numeral unat_of_nat)
  have "copy_pieces ?p (s @ r) (h # hs @ rest) =
      spec_lst w @ copy_pieces (?p + length s) r rest"
    if "\<forall>h \<in> set rest. ?p + length s \<le> offset h" for r rest
    using 1(6)[OF that] e by (simp add: h_def[symmetric] spec_lst_def)
       (simp add: h_def)
  then show ?thesis using 1 unfolding ext_def enc_list_def b' fst_conv
    by (intro exI[of _ s] exI[of _ "h # hs"] exI[of _ "n + ?m"]) (auto simp: h_def spec_lst_def)
qed

lemma makeBytes_ext: "ext empty_encBuffer b w \<Longrightarrow> makeBytes b = w"
proof -
  assume "ext empty_encBuffer b w"
  then obtain s hs n where b: "str b = s" "lheads b = hs" "lhsize b = n" "length w = length s + n"
    and c: "\<forall>r rest. (\<forall>h \<in> set rest. length s \<le> offset h) \<longrightarrow>
      copy_pieces 0 (s @ r) (hs @ rest) = w @ copy_pieces (length s) r rest"
    unfolding ext_def by (auto simp: empty_encBuffer_def)
  have "copy_pieces 0 s hs = w" using c[rule_format, of "[]" "[]"] by simp
  with b show ?thesis by (simp add: makeBytes_def copyTo_def enc_size_def)
qed

lemma length_spec_lst: "length c \<le> length (spec_lst c)"
  by (simp add: spec_lst_def)

lemma spec_small [simp]: "spec_str [] = [0x80]" "spec_lst [] = [0xC0]" "spec_str [1] = [1]"
  by (simp_all add: spec_str_def spec_lst_def spec_head_def)

lemma leaf_bytes:
  assumes "length (spec_str b) < 2 ^ 63"
  shows "enc_encode U (VBytes b) w = Inr (append_str (spec_str b) w)"
    and "enc_encode U (VString b) w = Inr (append_str (spec_str b) w)"
    and "enc_encode U (VByteArray b) w = Inr (append_str (spec_str b) w)"
proof -
  have l: "length b < 2 ^ 63" using assms length_spec_str[of b] by simp
  then have h: "encodeStringHeader (length b) w = append_str (spec_head 0x80 0xB7 (length b)) w"
    by (simp add: encodeStringHeader_eq)
  show "enc_encode U (VBytes b) w = Inr (append_str (spec_str b) w)"
    using l by (simp add: writeBytes_eq)
  show "enc_encode U (VString b) w = Inr (append_str (spec_str b) w)"
    using h by (cases b) (auto simp: spec_str_def small_byte_iff)
  consider "b = []" | y where "b = [y]" | "2 \<le> length b" by (cases b; cases "tl b"; force)
  then show "enc_encode U (VByteArray b) w = Inr (append_str (spec_str b) w)"
    using h by cases (auto simp: spec_str_def small_byte_iff spec_head_def)
qed

lemma leaf_bool: "enc_encode U (VBool b) w = Inr (append_str (spec_str (if b then [1] else [])) w)"
  by (simp add: enc_writeBool_def)

lemma ext_value:
  shows "uint256 U \<Longrightarrow> length (value_spec v) < 2 ^ 63 \<Longrightarrow> \<not> has_negative v \<Longrightarrow>
      \<exists>w'. enc_encode U v w = Inr w' \<and> ext w w' (value_spec v)"
    and "uint256 U \<Longrightarrow> length (concat (map value_spec vs)) < 2 ^ 63 \<Longrightarrow> \<not> list_ex has_negative vs \<Longrightarrow>
      \<exists>w'. enc_encodes U vs w = Inr w' \<and> ext w w' (concat (map value_spec vs))"
proof (induction U v w and U vs w rule: enc_encode_enc_encodes.induct)
  case (10 U vs w)
  show ?case
  proof (cases "vs = []")
    case False
    have l: "length (concat (map value_spec vs)) < 2 ^ 63"
      using 10(3) length_spec_lst[of "concat (map value_spec vs)"] by simp
    then obtain w' where "enc_encodes U vs (snd (enc_list w)) = Inr w'"
      "ext (snd (enc_list w)) w' (concat (map value_spec vs))"
      using 10(1)[OF False _ refl 10(2)] 10(4) by (auto simp: enc_list_def)
    with False l show ?thesis using ext_list by (auto simp: case_prod_beta)
  qed (simp add: ext_append_str)
next
  case (12 U vs w)
  have l: "length (concat (map value_spec vs)) < 2 ^ 63"
    using 12(3) length_spec_lst[of "concat (map value_spec vs)"] by simp
  then obtain w' where "enc_encodes U vs (snd (enc_list w)) = Inr w'"
    "ext (snd (enc_list w)) w' (concat (map value_spec vs))"
    using 12(1)[OF _ refl 12(2)] 12(4) by (auto simp: enc_list_def)
  with l show ?case using ext_list by (auto simp: case_prod_beta)
next
  case (15 U v vs w)
  then obtain w1 where 1: "enc_encode U v w = Inr w1" "ext w w1 (value_spec v)" by auto
  then obtain w2 where "enc_encodes U vs w1 = Inr w2" "ext w1 w2 (concat (map value_spec vs))"
    using 15 by auto
  with 1 show ?case using ext_trans by auto
next
  case (7 U s w)
  then show ?case using leaf_bytes(2)[of s U w] by (auto simp: ext_append_str simp del: enc_encode.simps)
next
  case (8 U b w)
  then show ?case using leaf_bytes(1)[of b U w] by (auto simp: ext_append_str simp del: enc_encode.simps)
next
  case (9 U b w)
  then show ?case using leaf_bytes(3)[of b U w] by (auto simp: ext_append_str simp del: enc_encode.simps)
qed (auto simp: writeBigInt_eq writeUint256_eq writeUint64_eq enc_writeBool_def ext_append_str ext_refl)

lemma enc_error:
  shows "enc_encode U v w = Inl e \<Longrightarrow> e = ErrNegativeBigInt"
    and "enc_encodes U vs w = Inl e \<Longrightarrow> e = ErrNegativeBigInt"
proof (induction U v w and U vs w rule: enc_encode_enc_encodes.induct)
  case (10 U vs w)
  then show ?case by (cases "enc_encodes U vs (snd (enc_list w))")
      (auto simp: case_prod_beta enc_list_def split: if_splits)
next
  case (12 U vs w)
  then show ?case by (cases "enc_encodes U vs (snd (enc_list w))")
      (auto simp: case_prod_beta enc_list_def split: if_splits)
qed (auto split: if_splits sum.splits)

lemma enc_negative:
  shows "has_negative v \<Longrightarrow> enc_encode U v w = Inl ErrNegativeBigInt"
    and "list_ex has_negative vs \<Longrightarrow> enc_encodes U vs w = Inl ErrNegativeBigInt"
proof (induction U v w and U vs w rule: enc_encode_enc_encodes.induct)
  case (15 U v vs w)
  then show ?case using enc_error(1) by (cases "enc_encode U v w") auto
qed (auto simp: enc_list_def)

lemma EncodeToBytes_eq:
  assumes "uint256 U" "length (value_spec v) < 2 ^ 63"
  shows "EncodeToBytes U v = (if has_negative v then Inl ErrNegativeBigInt else Inr (value_spec v))"
proof -
  have e: "enc_reset empty_encBuffer = empty_encBuffer" by (simp add: enc_reset_def empty_encBuffer_def)
  show ?thesis
    using ext_value(1)[OF assms, of empty_encBuffer] enc_negative(1)
    by (auto simp: EncodeToBytes_def e makeBytes_ext)
qed
end
