(* ===== verification/StateDB.thy ===== *)
theory StateDB
  imports AccessList RlpEncode
begin

text \<open>
  The world state: \<open>src/core/state/statedb.go\<close>, \<open>state_object.go\<close> and \<open>journal.go\<close>, with the account
  type of \<open>src/core/types/state_account.go\<close> and the log type of \<open>src/core/types/log.go\<close>.

  A \<open>StateDB\<close> caches account objects that it loads on demand from the account trie or a snapshot,
  and records every change in a journal so that it can be undone. Here a state object is a record
  kept in \<open>s_stateObjects\<close>; a method that changes the object its receiver points to returns the new
  record, and its caller stores it back. Methods that only read may fill a cache, so they return the
  state as well. A dereferenced nil pointer and a call of \<open>panic\<close> give \<open>None\<close>.

  The database, the tries, the snapshot and the hash function are reached through interfaces; they
  are function-valued fields of the state. No trie prefetcher is running. The counters gathered for
  metrics are left out. Writing the state back to the tries (\<open>IntermediateRoot\<close>, \<open>Commit\<close>) is not
  modelled.
\<close>

subsection \<open>Accounts, objects and the interfaces to storage\<close>

record StateAccount =
  Nonce :: u64
  Balance :: int
  Root :: hash
  CodeHash :: bytes

record SlimAccount =
  slim_Nonce :: u64
  slim_Balance :: int
  slim_Root :: bytes
  slim_CodeHash :: bytes

record Log =
  log_Address :: address
  log_Topics :: "hash list"
  log_Data :: bytes
  log_BlockNumber :: u64
  log_TxHash :: hash
  log_TxIndex :: u64
  log_BlockHash :: hash
  log_Index :: u64

type_synonym db_error = string
type_synonym Storage = "hash \<Rightarrow> hash option"
type_synonym storage_trie = "address \<Rightarrow> bytes \<Rightarrow> db_error + bytes" \<comment> \<open>\<open>Trie.GetStorage\<close>\<close>

datatype state_error = DbError db_error | RlpError rlp_error

record Database =
  OpenStorageTrie :: "hash \<Rightarrow> address \<Rightarrow> hash \<Rightarrow> db_error + storage_trie"
  ContractCode :: "address \<Rightarrow> hash \<Rightarrow> bytes \<times> db_error option"
  ContractCodeSize :: "address \<Rightarrow> hash \<Rightarrow> nat \<times> db_error option"

record Snapshot =
  snap_Account :: "hash \<Rightarrow> db_error + SlimAccount option"
  snap_Storage :: "hash \<Rightarrow> hash \<Rightarrow> db_error + bytes"

record stateObject =
  so_address :: address
  so_addrHash :: hash
  so_origin :: "StateAccount option"
  so_data :: StateAccount
  so_trie :: "storage_trie option"
  so_code :: bytes \<comment> \<open>empty when no code was loaded or set\<close>
  so_originStorage :: Storage
  so_pendingStorage :: Storage
  so_dirtyStorage :: Storage
  so_dirtyCode :: bool
  so_deleted :: bool
  so_created :: bool

datatype journalEntry =
    createObjectChange address
  | resetObjectChange (reset_account: address) (reset_prev: stateObject) (reset_prevdestruct: bool)
      (reset_prevAccount: "bytes option") (reset_prevStorage: "(hash \<Rightarrow> bytes option) option")
      (reset_prevAccountOrigin: "bytes option option") \<comment> \<open>whether it exists, and its value\<close>
      (reset_prevStorageOrigin: "(hash \<Rightarrow> bytes option) option")
  | balanceChange address int
  | nonceChange address u64
  | storageChange address hash hash
  | codeChange address bytes bytes \<comment> \<open>previous code and hash\<close>
  | refundChange u64
  | addLogChange hash
  | addPreimageChange hash
  | touchChange address
  | accessListAddAccountChange address
  | accessListAddSlotChange address hash

record journal =
  entries :: "journalEntry list"
  dirties :: "(address \<times> int) list" \<comment> \<open>a map, in the order in which a loop visits it\<close>

record revision =
  rev_id :: int
  journalIndex :: nat

record statedb =
  s_db :: Database
  s_GetAccount :: "address \<Rightarrow> db_error + StateAccount option" \<comment> \<open>\<open>trie.GetAccount\<close>\<close>
  s_hasher :: "bytes \<Rightarrow> hash"
  s_snap :: "Snapshot option"
  s_originalRoot :: hash
  s_accounts :: "hash \<Rightarrow> bytes option"
  s_storages :: "hash \<Rightarrow> (hash \<Rightarrow> bytes option) option"
  s_accountsOrigin :: "address \<Rightarrow> bytes option option" \<comment> \<open>\<open>Some None\<close>: present with value nil\<close>
  s_storagesOrigin :: "address \<Rightarrow> (hash \<Rightarrow> bytes option) option"
  s_stateObjects :: "address \<Rightarrow> stateObject option"
  s_stateObjectsPending :: "address set"
  s_stateObjectsDirty :: "address set"
  s_stateObjectsDestruct :: "address \<Rightarrow> StateAccount option option"
  s_dbErr :: "state_error option"
  s_refund :: u64
  s_thash :: hash
  s_txIndex :: int
  s_logs :: "hash \<Rightarrow> Log list option"
  s_logSize :: u64
  s_preimages :: "hash \<Rightarrow> bytes option"
  s_accessList :: accessList
  s_journal :: journal
  s_validRevisions :: "revision list"
  s_nextRevisionId :: int

definition EmptyRootHash :: hash where
  "EmptyRootHash = 0x56e81f171bcc55a6ff8345e692c0f86e5b48e01b996cadc001622fb5e363b421"

definition EmptyCodeHash :: "(bytes \<Rightarrow> hash) \<Rightarrow> hash" where
  "EmptyCodeHash hasher = hasher []"

definition NewEmptyStateAccount :: "(bytes \<Rightarrow> hash) \<Rightarrow> StateAccount" where
  "NewEmptyStateAccount hasher =
     \<lparr>Nonce = 0, Balance = 0, Root = EmptyRootHash, CodeHash = hash_bytes (EmptyCodeHash hasher)\<rparr>"

text \<open>\<open>New\<close>, once the account trie of the root is open.\<close>

definition newJournal :: journal where
  "newJournal = \<lparr>entries = [], dirties = []\<rparr>"

definition New ::
  "hash \<Rightarrow> Database \<Rightarrow> (address \<Rightarrow> db_error + StateAccount option) \<Rightarrow> (bytes \<Rightarrow> hash) \<Rightarrow>
   Snapshot option \<Rightarrow> statedb" where
  "New root db tr hasher sn =
     \<lparr>s_db = db, s_GetAccount = tr, s_hasher = hasher, s_snap = sn, s_originalRoot = root,
      s_accounts = Map.empty, s_storages = Map.empty, s_accountsOrigin = Map.empty,
      s_storagesOrigin = Map.empty, s_stateObjects = Map.empty, s_stateObjectsPending = {},
      s_stateObjectsDirty = {}, s_stateObjectsDestruct = Map.empty, s_dbErr = None, s_refund = 0,
      s_thash = 0, s_txIndex = 0, s_logs = Map.empty, s_logSize = 0, s_preimages = Map.empty,
      s_accessList = newAccessList, s_journal = newJournal, s_validRevisions = [],
      s_nextRevisionId = 0\<rparr>"

definition setError :: "state_error \<Rightarrow> statedb \<Rightarrow> statedb" where
  "setError err s = (if s_dbErr s = None then s\<lparr>s_dbErr := Some err\<rparr> else s)"

subsection \<open>The journal\<close>

fun dirtied :: "journalEntry \<Rightarrow> address option" where
  "dirtied (createObjectChange a) = Some a"
| "dirtied (resetObjectChange a prev prevdestruct acc st ao sto) = Some a"
| "dirtied (balanceChange a prev) = Some a"
| "dirtied (nonceChange a prev) = Some a"
| "dirtied (storageChange a key prevalue) = Some a"
| "dirtied (codeChange a prevcode prevhash) = Some a"
| "dirtied (refundChange prev) = None"
| "dirtied (addLogChange txhash) = None"
| "dirtied (addPreimageChange h) = None"
| "dirtied (touchChange a) = Some a"
| "dirtied (accessListAddAccountChange a) = None"
| "dirtied (accessListAddSlotChange a sl) = None"

definition dirty_count :: "journal \<Rightarrow> address \<Rightarrow> int" where
  "dirty_count j a = (case map_of (dirties j) a of None \<Rightarrow> 0 | Some n \<Rightarrow> n)"

definition journal_append :: "journalEntry \<Rightarrow> journal \<Rightarrow> journal" where
  "journal_append entry j =
     (let j1 = j\<lparr>entries := entries j @ [entry]\<rparr> in
      case dirtied entry of
        None \<Rightarrow> j1
      | Some a \<Rightarrow> j1\<lparr>dirties := AList.update a (dirty_count j a + 1) (dirties j)\<rparr>)"

definition j_append :: "journalEntry \<Rightarrow> statedb \<Rightarrow> statedb" where
  "j_append entry s = s\<lparr>s_journal := journal_append entry (s_journal s)\<rparr>"

subsection \<open>Loading objects\<close>

definition newObject ::
  "(bytes \<Rightarrow> hash) \<Rightarrow> address \<Rightarrow> StateAccount option \<Rightarrow> stateObject" where
  "newObject hasher a acct =
     \<lparr>so_address = a, so_addrHash = hasher (address_bytes a), so_origin = acct,
      so_data = (case acct of None \<Rightarrow> NewEmptyStateAccount hasher | Some d \<Rightarrow> d),
      so_trie = None, so_code = [], so_originStorage = Map.empty, so_pendingStorage = Map.empty,
      so_dirtyStorage = Map.empty, so_dirtyCode = False, so_deleted = False, so_created = False\<rparr>"

definition so_empty :: "(bytes \<Rightarrow> hash) \<Rightarrow> stateObject \<Rightarrow> bool" where
  "so_empty hasher o' \<longleftrightarrow>
     Nonce (so_data o') = 0 \<and> Balance (so_data o') = 0 \<and>
     CodeHash (so_data o') = hash_bytes (EmptyCodeHash hasher)"

definition setStateObject :: "stateObject \<Rightarrow> statedb \<Rightarrow> statedb" where
  "setStateObject o' s = s\<lparr>s_stateObjects := (s_stateObjects s)(so_address o' \<mapsto> o')\<rparr>"

text \<open>A snapshot stores the empty root and the empty code hash as empty slices.\<close>

definition account_of_slim :: "(bytes \<Rightarrow> hash) \<Rightarrow> SlimAccount \<Rightarrow> StateAccount" where
  "account_of_slim hasher acc =
     (let d = \<lparr>Nonce = slim_Nonce acc, Balance = slim_Balance acc, Root = BytesToHash (slim_Root acc),
               CodeHash = slim_CodeHash acc\<rparr>;
          d1 = (if length (CodeHash d) = 0 then d\<lparr>CodeHash := hash_bytes (EmptyCodeHash hasher)\<rparr> else d)
      in if Root d1 = 0 then d1\<lparr>Root := EmptyRootHash\<rparr> else d1)"

definition load_trie :: "address \<Rightarrow> statedb \<Rightarrow> StateAccount option \<times> statedb" where
  "load_trie a s =
     (case s_GetAccount s a of
        Inl err \<Rightarrow> (None, setError (DbError err) s)
      | Inr data \<Rightarrow> (data, s))"

definition load_account :: "address \<Rightarrow> statedb \<Rightarrow> StateAccount option \<times> statedb" where
  "load_account a s =
     (case s_snap s of
        None \<Rightarrow> load_trie a s
      | Some sn \<Rightarrow>
          (case snap_Account sn (s_hasher s (address_bytes a)) of
             Inl err \<Rightarrow> load_trie a s
           | Inr None \<Rightarrow> (None, s)
           | Inr (Some acc) \<Rightarrow> (Some (account_of_slim (s_hasher s) acc), s)))"

definition getDeletedStateObject :: "address \<Rightarrow> statedb \<Rightarrow> stateObject option \<times> statedb" where
  "getDeletedStateObject a s =
     (case s_stateObjects s a of
        Some o' \<Rightarrow> (Some o', s)
      | None \<Rightarrow>
          (case load_account a s of
             (None, s1) \<Rightarrow> (None, s1)
           | (Some data, s1) \<Rightarrow>
               let o' = newObject (s_hasher s1) a (Some data) in (Some o', setStateObject o' s1)))"

definition getStateObject :: "address \<Rightarrow> statedb \<Rightarrow> stateObject option \<times> statedb" where
  "getStateObject a s =
     (case getDeletedStateObject a s of
        (Some o', s1) \<Rightarrow> (if \<not> so_deleted o' then Some o' else None, s1)
      | (None, s1) \<Rightarrow> (None, s1))"

definition createObject :: "address \<Rightarrow> statedb \<Rightarrow> (stateObject \<times> stateObject option) \<times> statedb" where
  "createObject a s =
     (let (prev, s1) = getDeletedStateObject a s;
          newobj = newObject (s_hasher s1) a None;
          s2 = (case prev of
                  None \<Rightarrow> j_append (createObjectChange a) s1
                | Some p \<Rightarrow>
                    let pa = so_address p; ph = so_addrHash p;
                        prevdestruct = s_stateObjectsDestruct s1 pa \<noteq> None;
                        t1 = (if \<not> prevdestruct
                              then s1\<lparr>s_stateObjectsDestruct := (s_stateObjectsDestruct s1)(pa \<mapsto> so_origin p)\<rparr>
                              else s1);
                        t2 = j_append (resetObjectChange a p prevdestruct (s_accounts t1 ph)
                               (s_storages t1 ph) (s_accountsOrigin t1 pa) (s_storagesOrigin t1 pa)) t1
                    in t2\<lparr>s_accounts := (s_accounts t2)(ph := None),
                          s_storages := (s_storages t2)(ph := None),
                          s_accountsOrigin := (s_accountsOrigin t2)(pa := None),
                          s_storagesOrigin := (s_storagesOrigin t2)(pa := None)\<rparr>);
          newobj1 = newobj\<lparr>so_created := True\<rparr>;
          s3 = setStateObject newobj1 s2
      in case prev of
           Some p \<Rightarrow> if \<not> so_deleted p then ((newobj1, Some p), s3) else ((newobj1, None), s3)
         | None \<Rightarrow> ((newobj1, None), s3))"

definition GetOrNewStateObject :: "address \<Rightarrow> statedb \<Rightarrow> stateObject \<times> statedb" where
  "GetOrNewStateObject a s =
     (case getStateObject a s of
        (Some o', s1) \<Rightarrow> (o', s1)
      | (None, s1) \<Rightarrow> let ((o', _), s2) = createObject a s1 in (o', s2))"

subsection \<open>Methods of state objects\<close>

definition so_touch :: "stateObject \<Rightarrow> statedb \<Rightarrow> statedb" where
  "so_touch o' s = j_append (touchChange (so_address o')) s"

definition so_getTrie :: "stateObject \<Rightarrow> statedb \<Rightarrow> (db_error + storage_trie) \<times> stateObject" where
  "so_getTrie o' s =
     (case so_trie o' of
        Some tr \<Rightarrow> (Inr tr, o')
      | None \<Rightarrow>
          (case OpenStorageTrie (s_db s) (s_originalRoot s) (so_address o') (Root (so_data o')) of
             Inl err \<Rightarrow> (Inl err, o')
           | Inr tr \<Rightarrow> (Inr tr, o'\<lparr>so_trie := Some tr\<rparr>)))"

text \<open>The read that bypasses the caches: from the snapshot, and from the trie if that fails.\<close>

definition read_trie :: "hash \<Rightarrow> stateObject \<Rightarrow> statedb \<Rightarrow> hash option \<times> stateObject \<times> statedb" where
  "read_trie key o' s =
     (case so_getTrie o' s of
        (Inl err, o1) \<Rightarrow> (None, o1, setError (DbError err) s)
      | (Inr tr, o1) \<Rightarrow>
          (case tr (so_address o') (hash_bytes key) of
             Inl err \<Rightarrow> (None, o1, setError (DbError err) s)
           | Inr val \<Rightarrow> (Some (BytesToHash val), o1, s)))"

definition read_storage :: "hash \<Rightarrow> stateObject \<Rightarrow> statedb \<Rightarrow> hash option \<times> stateObject \<times> statedb" where
  "read_storage key o' s =
     (case s_snap s of
        None \<Rightarrow> read_trie key o' s
      | Some sn \<Rightarrow>
          (case snap_Storage sn (so_addrHash o') (s_hasher s (hash_bytes key)) of
             Inl err \<Rightarrow> read_trie key o' s
           | Inr enc \<Rightarrow>
               if length enc > 0 then
                 case Split enc of
                   Inl err \<Rightarrow> (Some (BytesToHash []), o', setError (RlpError err) s)
                 | Inr (k, content, rest) \<Rightarrow> (Some (BytesToHash content), o', s)
               else (Some 0, o', s)))"

definition so_GetCommittedState ::
  "hash \<Rightarrow> stateObject \<Rightarrow> statedb \<Rightarrow> hash \<times> stateObject \<times> statedb" where
  "so_GetCommittedState key o' s =
     (case so_pendingStorage o' key of
        Some value \<Rightarrow> (value, o', s)
      | None \<Rightarrow>
          (case so_originStorage o' key of
             Some value \<Rightarrow> (value, o', s)
           | None \<Rightarrow>
               if s_stateObjectsDestruct s (so_address o') \<noteq> None then (0, o', s)
               else
                 case read_storage key o' s of
                   (None, o1, s1) \<Rightarrow> (0, o1, s1)
                 | (Some value, o1, s1) \<Rightarrow>
                     (value, o1\<lparr>so_originStorage := (so_originStorage o1)(key \<mapsto> value)\<rparr>, s1)))"

definition so_GetState :: "hash \<Rightarrow> stateObject \<Rightarrow> statedb \<Rightarrow> hash \<times> stateObject \<times> statedb" where
  "so_GetState key o' s =
     (case so_dirtyStorage o' key of
        Some value \<Rightarrow> (value, o', s)
      | None \<Rightarrow> so_GetCommittedState key o' s)"

definition so_setState :: "hash \<Rightarrow> hash \<Rightarrow> stateObject \<Rightarrow> stateObject" where
  "so_setState key value o' = o'\<lparr>so_dirtyStorage := (so_dirtyStorage o')(key \<mapsto> value)\<rparr>"

definition so_SetState :: "hash \<Rightarrow> hash \<Rightarrow> stateObject \<Rightarrow> statedb \<Rightarrow> stateObject \<times> statedb" where
  "so_SetState key value o' s =
     (let (prev, o1, s1) = so_GetState key o' s in
      if prev = value then (o1, s1)
      else (so_setState key value o1, j_append (storageChange (so_address o1) key prev) s1))"

definition so_finalise :: "stateObject \<Rightarrow> stateObject" where
  "so_finalise o' =
     o'\<lparr>so_pendingStorage := so_pendingStorage o' ++ so_dirtyStorage o',
        so_dirtyStorage := Map.empty\<rparr>"

definition so_setBalance :: "int \<Rightarrow> stateObject \<Rightarrow> stateObject" where
  "so_setBalance amount o' = o'\<lparr>so_data := (so_data o')\<lparr>Balance := amount\<rparr>\<rparr>"

definition so_SetBalance :: "int \<Rightarrow> stateObject \<Rightarrow> statedb \<Rightarrow> stateObject \<times> statedb" where
  "so_SetBalance amount o' s =
     (so_setBalance amount o', j_append (balanceChange (so_address o') (Balance (so_data o'))) s)"

definition so_AddBalance :: "int \<Rightarrow> stateObject \<Rightarrow> statedb \<Rightarrow> stateObject \<times> statedb" where
  "so_AddBalance amount o' s =
     (if amount = 0 then (o', if so_empty (s_hasher s) o' then so_touch o' s else s)
      else so_SetBalance (Balance (so_data o') + amount) o' s)"

definition so_SubBalance :: "int \<Rightarrow> stateObject \<Rightarrow> statedb \<Rightarrow> stateObject \<times> statedb" where
  "so_SubBalance amount o' s =
     (if amount = 0 then (o', s) else so_SetBalance (Balance (so_data o') - amount) o' s)"

definition so_Code :: "stateObject \<Rightarrow> statedb \<Rightarrow> bytes \<times> stateObject \<times> statedb" where
  "so_Code o' s =
     (if so_code o' \<noteq> [] then (so_code o', o', s)
      else if CodeHash (so_data o') = hash_bytes (EmptyCodeHash (s_hasher s)) then ([], o', s)
      else
        let (code, err) = ContractCode (s_db s) (so_address o') (BytesToHash (CodeHash (so_data o')));
            s1 = (case err of None \<Rightarrow> s | Some e \<Rightarrow> setError (DbError e) s)
        in (code, o'\<lparr>so_code := code\<rparr>, s1))"

definition so_CodeSize :: "stateObject \<Rightarrow> statedb \<Rightarrow> nat \<times> statedb" where
  "so_CodeSize o' s =
     (if so_code o' \<noteq> [] then (length (so_code o'), s)
      else if CodeHash (so_data o') = hash_bytes (EmptyCodeHash (s_hasher s)) then (0, s)
      else
        let (size', err) =
              ContractCodeSize (s_db s) (so_address o') (BytesToHash (CodeHash (so_data o')))
        in (size', case err of None \<Rightarrow> s | Some e \<Rightarrow> setError (DbError e) s))"

definition so_setCode :: "hash \<Rightarrow> bytes \<Rightarrow> stateObject \<Rightarrow> stateObject" where
  "so_setCode codeHash code o' =
     o'\<lparr>so_code := code, so_data := (so_data o')\<lparr>CodeHash := hash_bytes codeHash\<rparr>,
        so_dirtyCode := True\<rparr>"

definition so_SetCode :: "hash \<Rightarrow> bytes \<Rightarrow> stateObject \<Rightarrow> statedb \<Rightarrow> stateObject \<times> statedb" where
  "so_SetCode codeHash code o' s =
     (let (prevcode, o1, s1) = so_Code o' s in
      (so_setCode codeHash code o1,
       j_append (codeChange (so_address o1) prevcode (CodeHash (so_data o1))) s1))"

definition so_setNonce :: "u64 \<Rightarrow> stateObject \<Rightarrow> stateObject" where
  "so_setNonce nonce o' = o'\<lparr>so_data := (so_data o')\<lparr>Nonce := nonce\<rparr>\<rparr>"

definition so_SetNonce :: "u64 \<Rightarrow> stateObject \<Rightarrow> statedb \<Rightarrow> stateObject \<times> statedb" where
  "so_SetNonce nonce o' s =
     (so_setNonce nonce o', j_append (nonceChange (so_address o') (Nonce (so_data o'))) s)"

definition so_deepCopy :: "stateObject \<Rightarrow> stateObject" where
  "so_deepCopy o' = o'\<lparr>so_created := False\<rparr>"

subsection \<open>Reading the state\<close>

definition Exist :: "address \<Rightarrow> statedb \<Rightarrow> bool \<times> statedb" where
  "Exist a s = (let (o', s1) = getStateObject a s in (o' \<noteq> None, s1))"

definition Empty :: "address \<Rightarrow> statedb \<Rightarrow> bool \<times> statedb" where
  "Empty a s =
     (let (so, s1) = getStateObject a s in
      (case so of None \<Rightarrow> True | Some o' \<Rightarrow> so_empty (s_hasher s1) o', s1))"

definition GetBalance :: "address \<Rightarrow> statedb \<Rightarrow> int \<times> statedb" where
  "GetBalance a s =
     (let (so, s1) = getStateObject a s in
      (case so of Some o' \<Rightarrow> Balance (so_data o') | None \<Rightarrow> 0, s1))"

definition GetNonce :: "address \<Rightarrow> statedb \<Rightarrow> u64 \<times> statedb" where
  "GetNonce a s =
     (let (so, s1) = getStateObject a s in
      (case so of Some o' \<Rightarrow> Nonce (so_data o') | None \<Rightarrow> 0, s1))"

definition GetStorageRoot :: "address \<Rightarrow> statedb \<Rightarrow> hash \<times> statedb" where
  "GetStorageRoot a s =
     (let (so, s1) = getStateObject a s in
      (case so of Some o' \<Rightarrow> Root (so_data o') | None \<Rightarrow> 0, s1))"

definition GetCode :: "address \<Rightarrow> statedb \<Rightarrow> bytes \<times> statedb" where
  "GetCode a s =
     (case getStateObject a s of
        (Some o', s1) \<Rightarrow> let (code, o1, s2) = so_Code o' s1 in (code, setStateObject o1 s2)
      | (None, s1) \<Rightarrow> ([], s1))"

definition GetCodeSize :: "address \<Rightarrow> statedb \<Rightarrow> nat \<times> statedb" where
  "GetCodeSize a s =
     (case getStateObject a s of
        (Some o', s1) \<Rightarrow> so_CodeSize o' s1
      | (None, s1) \<Rightarrow> (0, s1))"

definition GetCodeHash :: "address \<Rightarrow> statedb \<Rightarrow> hash \<times> statedb" where
  "GetCodeHash a s =
     (case getStateObject a s of
        (Some o', s1) \<Rightarrow> (BytesToHash (CodeHash (so_data o')), s1)
      | (None, s1) \<Rightarrow> (0, s1))"

definition GetState :: "address \<Rightarrow> hash \<Rightarrow> statedb \<Rightarrow> hash \<times> statedb" where
  "GetState a key s =
     (case getStateObject a s of
        (Some o', s1) \<Rightarrow> let (v, o1, s2) = so_GetState key o' s1 in (v, setStateObject o1 s2)
      | (None, s1) \<Rightarrow> (0, s1))"

definition GetCommittedState :: "address \<Rightarrow> hash \<Rightarrow> statedb \<Rightarrow> hash \<times> statedb" where
  "GetCommittedState a key s =
     (case getStateObject a s of
        (Some o', s1) \<Rightarrow> let (v, o1, s2) = so_GetCommittedState key o' s1 in (v, setStateObject o1 s2)
      | (None, s1) \<Rightarrow> (0, s1))"

definition GetRefund :: "statedb \<Rightarrow> u64" where
  "GetRefund s = s_refund s"

definition GetLogs :: "hash \<Rightarrow> u64 \<Rightarrow> hash \<Rightarrow> statedb \<Rightarrow> Log list \<times> statedb" where
  "GetLogs h blockNumber blockHash s =
     (case s_logs s h of
        None \<Rightarrow> ([], s)
      | Some ls \<Rightarrow>
          let ls1 = map (\<lambda>l. l\<lparr>log_BlockNumber := blockNumber, log_BlockHash := blockHash\<rparr>) ls
          in (ls1, s\<lparr>s_logs := (s_logs s)(h \<mapsto> ls1)\<rparr>))"

subsection \<open>Changing the state\<close>

definition with_object :: "(stateObject \<Rightarrow> statedb \<Rightarrow> stateObject \<times> statedb) \<Rightarrow> address \<Rightarrow> statedb \<Rightarrow> statedb" where
  "with_object f a s =
     (let (o', s1) = GetOrNewStateObject a s; (o1, s2) = f o' s1 in setStateObject o1 s2)"

definition AddBalance :: "address \<Rightarrow> int \<Rightarrow> statedb \<Rightarrow> statedb" where
  "AddBalance a amount s = with_object (so_AddBalance amount) a s"

definition SubBalance :: "address \<Rightarrow> int \<Rightarrow> statedb \<Rightarrow> statedb" where
  "SubBalance a amount s = with_object (so_SubBalance amount) a s"

definition SetBalance :: "address \<Rightarrow> int \<Rightarrow> statedb \<Rightarrow> statedb" where
  "SetBalance a amount s = with_object (so_SetBalance amount) a s"

definition SetNonce :: "address \<Rightarrow> u64 \<Rightarrow> statedb \<Rightarrow> statedb" where
  "SetNonce a nonce s = with_object (so_SetNonce nonce) a s"

definition SetCode :: "address \<Rightarrow> bytes \<Rightarrow> statedb \<Rightarrow> statedb" where
  "SetCode a code s = with_object (so_SetCode (s_hasher s code) code) a s"

definition SetState :: "address \<Rightarrow> hash \<Rightarrow> hash \<Rightarrow> statedb \<Rightarrow> statedb" where
  "SetState a key value s = with_object (so_SetState key value) a s"

definition CreateAccount :: "address \<Rightarrow> statedb \<Rightarrow> statedb" where
  "CreateAccount a s =
     (let ((newObj, prev), s1) = createObject a s in
      case prev of
        None \<Rightarrow> s1
      | Some p \<Rightarrow> setStateObject (so_setBalance (Balance (so_data p)) newObj) s1)"

definition AddLog :: "Log \<Rightarrow> statedb \<Rightarrow> statedb" where
  "AddLog l s =
     (let s1 = j_append (addLogChange (s_thash s)) s;
          l1 = l\<lparr>log_TxHash := s_thash s1, log_TxIndex := word_of_int (s_txIndex s1),
                 log_Index := s_logSize s1\<rparr>;
          old = (case s_logs s1 (s_thash s1) of None \<Rightarrow> [] | Some ls \<Rightarrow> ls)
      in s1\<lparr>s_logs := (s_logs s1)(s_thash s1 \<mapsto> old @ [l1]), s_logSize := s_logSize s1 + 1\<rparr>)"

definition AddPreimage :: "hash \<Rightarrow> bytes \<Rightarrow> statedb \<Rightarrow> statedb" where
  "AddPreimage h preimage s =
     (if s_preimages s h = None
      then let s1 = j_append (addPreimageChange h) s
           in s1\<lparr>s_preimages := (s_preimages s1)(h \<mapsto> preimage)\<rparr>
      else s)"

definition AddRefund :: "u64 \<Rightarrow> statedb \<Rightarrow> statedb" where
  "AddRefund gas s =
     (let s1 = j_append (refundChange (s_refund s)) s in s1\<lparr>s_refund := s_refund s1 + gas\<rparr>)"

definition SubRefund :: "u64 \<Rightarrow> statedb \<Rightarrow> statedb option" where
  "SubRefund gas s =
     (let s1 = j_append (refundChange (s_refund s)) s in
      if gas > s_refund s1 then None else Some (s1\<lparr>s_refund := s_refund s1 - gas\<rparr>))"

definition AddAddressToAccessList :: "address \<Rightarrow> statedb \<Rightarrow> statedb" where
  "AddAddressToAccessList a s =
     (let (added, al) = AddAddress a (s_accessList s);
          s1 = s\<lparr>s_accessList := al\<rparr>
      in if added then j_append (accessListAddAccountChange a) s1 else s1)"

definition AddSlotToAccessList :: "address \<Rightarrow> hash \<Rightarrow> statedb \<Rightarrow> statedb" where
  "AddSlotToAccessList a sl s =
     (let ((addrMod, slotMod), al) = AddSlot a sl (s_accessList s);
          s1 = s\<lparr>s_accessList := al\<rparr>;
          s2 = (if addrMod then j_append (accessListAddAccountChange a) s1 else s1)
      in if slotMod then j_append (accessListAddSlotChange a sl) s2 else s2)"

definition AddressInAccessList :: "address \<Rightarrow> statedb \<Rightarrow> bool" where
  "AddressInAccessList a s = ContainsAddress (s_accessList s) a"

definition SlotInAccessList :: "address \<Rightarrow> hash \<Rightarrow> statedb \<Rightarrow> bool \<times> bool" where
  "SlotInAccessList a sl s = Contains (s_accessList s) a sl"

definition Prepare ::
  "address \<Rightarrow> address \<Rightarrow> address option \<Rightarrow> address list \<Rightarrow> (address \<times> hash list) list \<Rightarrow> statedb \<Rightarrow> statedb" where
  "Prepare sender coinbase dst precompiles txlist s =
     (let add = (\<lambda>a al. snd (AddAddress a al));
          al0 = add sender newAccessList;
          al1 = (case dst of None \<Rightarrow> al0 | Some d \<Rightarrow> add d al0);
          al2 = fold add precompiles al1;
          al3 = fold (\<lambda>(a, keys) al. fold (\<lambda>key al. snd (AddSlot a key al)) keys (add a al)) txlist al2
      in s\<lparr>s_accessList := add coinbase al3\<rparr>)"

definition SetTxContext :: "hash \<Rightarrow> int \<Rightarrow> statedb \<Rightarrow> statedb" where
  "SetTxContext thash ti s = s\<lparr>s_thash := thash, s_txIndex := ti\<rparr>"

subsection \<open>Snapshots\<close>

text \<open>\<open>s.getStateObject(addr).f()\<close>: a nil object panics.\<close>

definition on_object :: "(stateObject \<Rightarrow> stateObject) \<Rightarrow> address \<Rightarrow> statedb \<Rightarrow> statedb option" where
  "on_object f a s =
     (case getStateObject a s of
        (Some o', s1) \<Rightarrow> Some (setStateObject (f o') s1)
      | (None, s1) \<Rightarrow> None)"

fun revert_entry :: "journalEntry \<Rightarrow> statedb \<Rightarrow> statedb option" where
  "revert_entry (createObjectChange a) s =
     Some (s\<lparr>s_stateObjects := (s_stateObjects s)(a := None),
             s_stateObjectsDirty := s_stateObjectsDirty s - {a}\<rparr>)"
| "revert_entry (resetObjectChange a prev prevdestruct acc st ao sto) s =
     (let pa = so_address prev; ph = so_addrHash prev;
          s1 = setStateObject prev s;
          s2 = (if \<not> prevdestruct
                then s1\<lparr>s_stateObjectsDestruct := (s_stateObjectsDestruct s1)(pa := None)\<rparr> else s1);
          s3 = (case acc of None \<Rightarrow> s2
                | Some x \<Rightarrow> s2\<lparr>s_accounts := (s_accounts s2)(ph \<mapsto> x)\<rparr>);
          s4 = (case st of None \<Rightarrow> s3
                | Some x \<Rightarrow> s3\<lparr>s_storages := (s_storages s3)(ph \<mapsto> x)\<rparr>);
          s5 = (case ao of None \<Rightarrow> s4
                | Some x \<Rightarrow> s4\<lparr>s_accountsOrigin := (s_accountsOrigin s4)(pa \<mapsto> x)\<rparr>)
      in Some (case sto of None \<Rightarrow> s5
               | Some x \<Rightarrow> s5\<lparr>s_storagesOrigin := (s_storagesOrigin s5)(pa \<mapsto> x)\<rparr>))"
| "revert_entry (touchChange a) s = Some s"
| "revert_entry (balanceChange a prev) s = on_object (so_setBalance prev) a s"
| "revert_entry (nonceChange a prev) s = on_object (so_setNonce prev) a s"
| "revert_entry (codeChange a prevcode prevhash) s =
     on_object (so_setCode (BytesToHash prevhash) prevcode) a s"
| "revert_entry (storageChange a key prevalue) s = on_object (so_setState key prevalue) a s"
| "revert_entry (refundChange prev) s = Some (s\<lparr>s_refund := prev\<rparr>)"
| "revert_entry (addLogChange txhash) s =
     (case s_logs s txhash of
        None \<Rightarrow> None
      | Some ls \<Rightarrow>
          if ls = [] then None
          else let s1 = (if length ls = 1 then s\<lparr>s_logs := (s_logs s)(txhash := None)\<rparr>
                         else s\<lparr>s_logs := (s_logs s)(txhash \<mapsto> butlast ls)\<rparr>)
               in Some (s1\<lparr>s_logSize := s_logSize s1 - 1\<rparr>))"
| "revert_entry (addPreimageChange h) s = Some (s\<lparr>s_preimages := (s_preimages s)(h := None)\<rparr>)"
| "revert_entry (accessListAddAccountChange a) s =
     Some (s\<lparr>s_accessList := DeleteAddress a (s_accessList s)\<rparr>)"
| "revert_entry (accessListAddSlotChange a sl) s =
     map_option (\<lambda>al. s\<lparr>s_accessList := al\<rparr>) (DeleteSlot a sl (s_accessList s))"

definition drop_dirty :: "journalEntry \<Rightarrow> statedb \<Rightarrow> statedb" where
  "drop_dirty e s =
     (case dirtied e of
        None \<Rightarrow> s
      | Some a \<Rightarrow>
          let j = s_journal s; n = dirty_count j a - 1 in
          s\<lparr>s_journal := j\<lparr>dirties := (if n = 0 then AList.delete a (dirties j)
                                       else AList.update a n (dirties j))\<rparr>\<rparr>)"

text \<open>The loop of \<open>journal.revert\<close> over the entries to undo, the last one first.\<close>

fun revert_loop :: "journalEntry list \<Rightarrow> statedb \<Rightarrow> statedb option" where
  "revert_loop [] s = Some s"
| "revert_loop (e # es) s =
     (case revert_entry e s of None \<Rightarrow> None | Some s1 \<Rightarrow> revert_loop es (drop_dirty e s1))"

definition journal_revert :: "nat \<Rightarrow> statedb \<Rightarrow> statedb option" where
  "journal_revert snapshot s =
     map_option (\<lambda>s1. s1\<lparr>s_journal := (s_journal s1)\<lparr>entries := take snapshot (entries (s_journal s1))\<rparr>\<rparr>)
       (revert_loop (rev (drop snapshot (entries (s_journal s)))) s)"

definition Snapshot :: "statedb \<Rightarrow> int \<times> statedb" where
  "Snapshot s =
     (s_nextRevisionId s,
      s\<lparr>s_nextRevisionId := s_nextRevisionId s + 1,
        s_validRevisions := s_validRevisions s @
          [\<lparr>rev_id = s_nextRevisionId s, journalIndex = length (entries (s_journal s))\<rparr>]\<rparr>)"

definition RevertToSnapshot :: "int \<Rightarrow> statedb \<Rightarrow> statedb option" where
  "RevertToSnapshot revid s =
     (let revs = s_validRevisions s;
          idx = sort_Search (length revs) (\<lambda>i. rev_id (revs ! i) \<ge> revid)
      in if idx = length revs \<or> rev_id (revs ! idx) \<noteq> revid then None
         else map_option (\<lambda>s1. s1\<lparr>s_validRevisions := take idx (s_validRevisions s1)\<rparr>)
                (journal_revert (journalIndex (revs ! idx)) s))"

subsection \<open>The end of a transaction\<close>

definition clearJournalAndRefund :: "statedb \<Rightarrow> statedb" where
  "clearJournalAndRefund s =
     (let s1 = (if length (entries (s_journal s)) > 0
                then s\<lparr>s_journal := newJournal, s_refund := 0\<rparr> else s)
      in s1\<lparr>s_validRevisions := []\<rparr>)"

definition finalise_addr :: "bool \<Rightarrow> address \<Rightarrow> statedb \<Rightarrow> statedb" where
  "finalise_addr deleteEmptyObjects a s =
     (case s_stateObjects s a of
        None \<Rightarrow> s
      | Some o' \<Rightarrow>
          let (o1, s1) =
                (if deleteEmptyObjects \<and> so_empty (s_hasher s) o' then
                   let pa = so_address o'; ph = so_addrHash o';
                       t = (if s_stateObjectsDestruct s pa = None
                            then s\<lparr>s_stateObjectsDestruct := (s_stateObjectsDestruct s)(pa \<mapsto> so_origin o')\<rparr>
                            else s)
                   in (o'\<lparr>so_deleted := True\<rparr>,
                       t\<lparr>s_accounts := (s_accounts t)(ph := None),
                         s_storages := (s_storages t)(ph := None),
                         s_accountsOrigin := (s_accountsOrigin t)(pa := None),
                         s_storagesOrigin := (s_storagesOrigin t)(pa := None)\<rparr>)
                 else (so_finalise o', s))
          in s1\<lparr>s_stateObjects := (s_stateObjects s1)(a \<mapsto> o1\<lparr>so_created := False\<rparr>),
                s_stateObjectsPending := insert a (s_stateObjectsPending s1),
                s_stateObjectsDirty := insert a (s_stateObjectsDirty s1)\<rparr>)"

definition Finalise :: "bool \<Rightarrow> statedb \<Rightarrow> statedb" where
  "Finalise deleteEmptyObjects s =
     clearJournalAndRefund
       (fold (finalise_addr deleteEmptyObjects) (map fst (dirties (s_journal s))) s)"

subsection \<open>Copies\<close>

text \<open>
  The loops of \<open>Copy\<close> visit the dirty, the pending and the dirty-since-commit objects. An address of
  the latter two without an object is a nil dereference.
\<close>

definition copySet :: "('k \<Rightarrow> 'v option) \<Rightarrow> ('k \<Rightarrow> 'v option)" where
  "copySet m = (\<lambda>k. case m k of None \<Rightarrow> None | Some v \<Rightarrow> Some v)"

definition copy2DSet ::
  "('k \<Rightarrow> (hash \<Rightarrow> bytes option) option) \<Rightarrow> ('k \<Rightarrow> (hash \<Rightarrow> bytes option) option)" where
  "copy2DSet m = (\<lambda>k. case m k of None \<Rightarrow> None | Some v \<Rightarrow> Some (copySet v))"

definition copy_marked :: "address set \<Rightarrow> statedb \<Rightarrow> statedb \<Rightarrow> statedb" where
  "copy_marked A s st =
     st\<lparr>s_stateObjects := (\<lambda>a. if a \<in> A \<and> s_stateObjects st a = None
                               then map_option so_deepCopy (s_stateObjects s a)
                               else s_stateObjects st a)\<rparr>"

definition Copy :: "statedb \<Rightarrow> statedb option" where
  "Copy s =
     (let d = {a \<in> fst ` set (dirties (s_journal s)). s_stateObjects s a \<noteq> None};
          st0 = (New (s_originalRoot s) (s_db s) (s_GetAccount s) (s_hasher s) (s_snap s))
                  \<lparr>s_refund := s_refund s, s_logSize := s_logSize s\<rparr>;
          st1 = (copy_marked d s st0)\<lparr>s_stateObjectsDirty := d, s_stateObjectsPending := d\<rparr>;
          st2 = (copy_marked (s_stateObjectsPending s) s st1)
                  \<lparr>s_stateObjectsPending := s_stateObjectsPending st1 \<union> s_stateObjectsPending s\<rparr>;
          st3 = (copy_marked (s_stateObjectsDirty s) s st2)
                  \<lparr>s_stateObjectsDirty := s_stateObjectsDirty st2 \<union> s_stateObjectsDirty s\<rparr>;
          st4 = st3\<lparr>s_stateObjectsDestruct := s_stateObjectsDestruct s\<rparr>;
          st5 = st4\<lparr>s_accounts := copySet (s_accounts s), s_storages := copy2DSet (s_storages s)\<rparr>;
          st6 = st5\<lparr>s_accountsOrigin := copySet (s_accountsOrigin st5),
                    s_storagesOrigin := copy2DSet (s_storagesOrigin st5)\<rparr>
      in if \<exists>a \<in> s_stateObjectsPending s \<union> s_stateObjectsDirty s. s_stateObjects s a = None then None
         else Some (st6\<lparr>s_logs := s_logs s, s_preimages := s_preimages s,
                        s_accessList := al_Copy (s_accessList s)\<rparr>))"

end
