(* ===== verification/VMCore.thy ===== *)
theory VMCore
  imports Params StateDB
begin

text \<open>
  The building blocks of the virtual machine in \<open>src/core/vm/\<close>: its errors (\<open>errors.go\<close>), the
  operand stack (\<open>stack.go\<close>), the memory (\<open>memory.go\<close>), and size computations (\<open>common.go\<close>).

  A stack is a list whose head is the top element. An operation that Go's runtime or an explicit
  \<open>panic\<close> would abort has the outcome \<open>Panic\<close> with a reason; \<open>NoFuel\<close> is the outcome of an
  execution that was cut off because its bound on the recursion was used up. Reslicing a Go slice
  beyond its length but within its capacity would not panic; here it does.
\<close>

subsection \<open>Outcomes and errors\<close>

datatype panic =
    PanicStack \<comment> \<open>an index outside of the operand stack\<close>
  | PanicMemory \<comment> \<open>an access outside of the memory\<close>
  | PanicSlice \<comment> \<open>slice bounds out of range\<close>
  | PanicNil \<comment> \<open>a nil pointer or a failed type assertion\<close>
  | PanicBitmap \<comment> \<open>a jump destination outside of the bitmap of its code\<close>
  | PanicRefund \<comment> \<open>the refund counter below zero\<close>
  | PanicAccessList \<comment> \<open>a contract that is not in the access list\<close>
  | PanicRevision \<comment> \<open>a revision that cannot be reverted to\<close>
  | PanicDivide \<comment> \<open>a division by zero\<close>
  | PanicGasPool \<comment> \<open>a gas pool above the range of its type\<close>
  | PanicBloom \<comment> \<open>too many bytes for a bloom filter\<close>

datatype 'a outcome = Ok 'a | Panic panic | NoFuel

definition of_option :: "panic \<Rightarrow> 'a option \<Rightarrow> 'a outcome" where
  "of_option p x = (case x of None \<Rightarrow> Panic p | Some y \<Rightarrow> Ok y)"

fun bind_outcome :: "'a outcome \<Rightarrow> ('a \<Rightarrow> 'b outcome) \<Rightarrow> 'b outcome" where
  "bind_outcome (Ok x) f = f x"
| "bind_outcome (Panic p) f = Panic p"
| "bind_outcome NoFuel f = NoFuel"

datatype vm_error =
    ErrOutOfGas
  | ErrCodeStoreOutOfGas
  | ErrDepth
  | ErrInsufficientBalance
  | ErrContractAddressCollision
  | ErrExecutionReverted
  | ErrMaxInitCodeSizeExceeded
  | ErrMaxCodeSizeExceeded
  | ErrInvalidJump
  | ErrWriteProtection
  | ErrReturnDataOutOfBounds
  | ErrGasUintOverflow
  | ErrInvalidCode
  | ErrNonceUintOverflow
  | errStopToken
  | ErrStackUnderflow nat nat \<comment> \<open>length, required\<close>
  | ErrStackOverflow nat nat \<comment> \<open>length, limit\<close>
  | ErrInvalidOpCode byte
  | ErrReentrancySentry
  | ErrPrecompile string

lemma bind_outcome_Ok: "bind_outcome x f = Ok y \<longleftrightarrow> (\<exists>z. x = Ok z \<and> f z = Ok y)"
  by (cases x) auto

lemma of_option_Ok: "of_option p x = Ok y \<longleftrightarrow> x = Some y"
  by (auto simp: of_option_def split: option.splits)

subsection \<open>The operand stack: \<open>stack.go\<close>, \<open>stack_table.go\<close>\<close>

type_synonym stack = "u256 list"

definition stack_push :: "u256 \<Rightarrow> stack \<Rightarrow> stack" where
  "stack_push d st = d # st"

fun stack_pop :: "stack \<Rightarrow> (u256 \<times> stack) option" where
  "stack_pop [] = None"
| "stack_pop (x # st) = Some (x, st)"

definition stack_Back :: "nat \<Rightarrow> stack \<Rightarrow> u256 option" where
  "stack_Back n st = (if n < length st then Some (st ! n) else None)"

definition stack_swap :: "nat \<Rightarrow> stack \<Rightarrow> stack option" where
  "stack_swap n st =
     (if 1 \<le> n \<and> n \<le> length st then Some (st[n - 1 := st ! 0, 0 := st ! (n - 1)]) else None)"

definition stack_dup :: "nat \<Rightarrow> stack \<Rightarrow> stack option" where
  "stack_dup n st = (if 1 \<le> n \<and> n \<le> length st then Some (stack_push (st ! (n - 1)) st) else None)"

definition minStack :: "nat \<Rightarrow> nat \<Rightarrow> nat" where
  "minStack pops push = pops"

definition maxStack :: "nat \<Rightarrow> nat \<Rightarrow> nat" where
  "maxStack pops push = unat StackLimit + pops - push"

definition minSwapStack :: "nat \<Rightarrow> nat" where
  "minSwapStack n = minStack n n"

definition maxSwapStack :: "nat \<Rightarrow> nat" where
  "maxSwapStack n = maxStack n n"

definition minDupStack :: "nat \<Rightarrow> nat" where
  "minDupStack n = minStack n (n + 1)"

definition maxDupStack :: "nat \<Rightarrow> nat" where
  "maxDupStack n = maxStack n (n + 1)"

lemmas stack_table_defs [vm_simps] =
  minStack_def maxStack_def minSwapStack_def maxSwapStack_def minDupStack_def maxDupStack_def

lemma stack_swap_length: "stack_swap n st = Some st' \<Longrightarrow> length st' = length st"
  by (auto simp: stack_swap_def split: if_splits)

lemma stack_dup_length: "stack_dup n st = Some st' \<Longrightarrow> length st' = Suc (length st)"
  by (auto simp: stack_dup_def stack_push_def split: if_splits)

subsection \<open>Memory: \<open>memory.go\<close>\<close>

record Memory =
  store :: bytes
  lastGasCost :: u64

definition NewMemory :: Memory where
  "NewMemory = \<lparr>store = [], lastGasCost = 0\<rparr>"

text \<open>Go's \<open>copy(dst[i:i+n], src)\<close>.\<close>

definition copy_at :: "nat \<Rightarrow> nat \<Rightarrow> bytes \<Rightarrow> bytes \<Rightarrow> bytes" where
  "copy_at i n src dst = take i dst @ take n src @ drop (i + min n (length src)) dst"

definition mem_len :: "Memory \<Rightarrow> u64" where
  "mem_len m = word_of_nat (length (store m))"

definition mem_Set :: "u64 \<Rightarrow> u64 \<Rightarrow> bytes \<Rightarrow> Memory \<Rightarrow> Memory option" where
  "mem_Set off sz val m =
     (if sz > 0 then
        if off + sz > mem_len m then None
        else if off > off + sz then None
        else Some (m\<lparr>store := copy_at (unat off) (unat sz) val (store m)\<rparr>)
      else Some m)"

definition mem_Set32 :: "uint256_lib \<Rightarrow> u64 \<Rightarrow> u256 \<Rightarrow> Memory \<Rightarrow> Memory option" where
  "mem_Set32 U off val m =
     (if off + 32 > mem_len m then None
      else if off > mem_len m then None
      else Some (m\<lparr>store := copy_at (unat off) (length (store m) - unat off)
                              (hash_bytes (u_Bytes32 U val)) (store m)\<rparr>))"

definition mem_Resize :: "u64 \<Rightarrow> Memory \<Rightarrow> Memory" where
  "mem_Resize sz m =
     (if mem_len m < sz
      then m\<lparr>store := store m @ replicate (unat (sz - mem_len m)) 0\<rparr> else m)"

definition mem_slice :: "int \<Rightarrow> int \<Rightarrow> Memory \<Rightarrow> bytes option" where
  "mem_slice off sz m =
     (if 0 \<le> off \<and> 0 \<le> sz \<and> off + sz \<le> int (length (store m))
      then Some (take (nat sz) (drop (nat off) (store m))) else None)"

definition mem_GetCopy :: "int \<Rightarrow> int \<Rightarrow> Memory \<Rightarrow> bytes option" where
  "mem_GetCopy off sz m =
     (if sz = 0 then Some []
      else if int (length (store m)) > off then mem_slice off sz m
      else Some [])"

definition mem_GetPtr :: "int \<Rightarrow> int \<Rightarrow> Memory \<Rightarrow> bytes option" where
  "mem_GetPtr off sz m =
     (if sz = 0 then Some []
      else if int (length (store m)) > off then mem_slice off sz m
      else Some [])"

definition mem_Copy :: "u64 \<Rightarrow> u64 \<Rightarrow> u64 \<Rightarrow> Memory \<Rightarrow> Memory option" where
  "mem_Copy dst src len m =
     (if len = 0 then Some m
      else if dst > mem_len m \<or> src > src + len \<or> src + len > mem_len m then None
      else Some (m\<lparr>store := copy_at (unat dst) (length (store m) - unat dst)
                     (take (unat len) (drop (unat src) (store m))) (store m)\<rparr>))"

subsection \<open>Size computations: \<open>common.go\<close>\<close>

definition calcMemSize64WithUint :: "uint256_lib \<Rightarrow> u256 \<Rightarrow> u64 \<Rightarrow> u64 \<times> bool" where
  "calcMemSize64WithUint U off length64 =
     (if length64 = 0 then (0, False)
      else let (offset64, overflow) = u_Uint64WithOverflow U off in
           if overflow then (0, True)
           else let val = offset64 + length64 in (val, val < offset64))"

definition calcMemSize64 :: "uint256_lib \<Rightarrow> u256 \<Rightarrow> u256 \<Rightarrow> u64 \<times> bool" where
  "calcMemSize64 U off l =
     (if \<not> u_IsUint64 U l then (0, True) else calcMemSize64WithUint U off (u_Uint64 U l))"

definition getData :: "bytes \<Rightarrow> u64 \<Rightarrow> u64 \<Rightarrow> bytes option" where
  "getData data start sz =
     (let len = word_of_nat (length data);
          start1 = (if start > len then len else start);
          end = min (start1 + sz) len
      in if end < start1 then None
         else Some (RightPadBytes (take (unat end - unat start1) (drop (unat start1) data)) (sint sz)))"

definition toWordSize :: "u64 \<Rightarrow> u64" where
  "toWordSize sz = (if sz > MaxUint64 - 31 then MaxUint64 div 32 + 1 else (sz + 31) div 32)"
end
