(* ===== verification/Analysis.thy ===== *)
theory Analysis
  imports Prelude
begin

text \<open>
  \<open>src/core/vm/analysis.go\<close>: the bitmap that separates the code of a contract from the data of its
  push instructions. It is computed sixteen, eight or fewer bits at a time; the theorem
  \<open>codeBitmap_spec\<close> says that it agrees with a walk over the code one instruction at a time.

  Positions are natural numbers: they exceed the length of the code by less than 33. An index outside
  of the bit vector gives \<open>None\<close>.
\<close>

type_synonym bitvec = bytes

definition PUSH1 :: byte where
  "PUSH1 = 0x60"

definition bits_or :: "nat \<Rightarrow> byte \<Rightarrow> bitvec \<Rightarrow> bitvec option" where
  "bits_or i b bits = (if i < length bits then Some (bits[i := bits ! i OR b]) else None)"

definition bits_set :: "nat \<Rightarrow> byte \<Rightarrow> bitvec \<Rightarrow> bitvec option" where
  "bits_set i b bits = (if i < length bits then Some (bits[i := b]) else None)"

definition set1 :: "nat \<Rightarrow> bitvec \<Rightarrow> bitvec option" where
  "set1 pos bits = bits_or (pos div 8) (push_bit (pos mod 8) 1) bits"

definition setN :: "u16 \<Rightarrow> nat \<Rightarrow> bitvec \<Rightarrow> bitvec option" where
  "setN flag pos bits =
     (let a = push_bit (pos mod 8) flag; b = ucast (drop_bit 8 a) in
      Option.bind (bits_or (pos div 8) (ucast a) bits)
        (\<lambda>bits1. if b \<noteq> 0 then bits_set (pos div 8 + 1) b bits1 else Some bits1))"

definition set8 :: "nat \<Rightarrow> bitvec \<Rightarrow> bitvec option" where
  "set8 pos bits =
     (let a = push_bit (pos mod 8) 0xFF in
      Option.bind (bits_or (pos div 8) a bits) (bits_set (pos div 8 + 1) (NOT a)))"

definition set16 :: "nat \<Rightarrow> bitvec \<Rightarrow> bitvec option" where
  "set16 pos bits =
     (let a = push_bit (pos mod 8) 0xFF in
      Option.bind (bits_or (pos div 8) a bits)
        (\<lambda>bits1. Option.bind (bits_set (pos div 8 + 1) 0xFF bits1) (bits_set (pos div 8 + 2) (NOT a))))"

definition codeSegment :: "bitvec \<Rightarrow> nat \<Rightarrow> bool option" where
  "codeSegment bits pos =
     (if pos div 8 < length bits then Some (drop_bit (pos mod 8) (bits ! (pos div 8)) AND 1 = 0)
      else None)"

function set16_loop :: "nat \<Rightarrow> nat \<Rightarrow> bitvec \<Rightarrow> (nat \<times> nat \<times> bitvec) option" where
  "set16_loop numbits pc bits =
     (if numbits \<ge> 16
      then Option.bind (set16 pc bits) (\<lambda>b. set16_loop (numbits - 16) (pc + 16) b)
      else Some (numbits, pc, bits))"
  by pat_completeness auto
termination
  by (relation "measure (\<lambda>(numbits, pc, bits). numbits)") auto

function set8_loop :: "nat \<Rightarrow> nat \<Rightarrow> bitvec \<Rightarrow> (nat \<times> nat \<times> bitvec) option" where
  "set8_loop numbits pc bits =
     (if numbits \<ge> 8
      then Option.bind (set8 pc bits) (\<lambda>b. set8_loop (numbits - 8) (pc + 8) b)
      else Some (numbits, pc, bits))"
  by pat_completeness auto
termination
  by (relation "measure (\<lambda>(numbits, pc, bits). numbits)") auto

definition set_rest :: "nat \<Rightarrow> nat \<Rightarrow> bitvec \<Rightarrow> (nat \<times> bitvec) option" where
  "set_rest numbits pc bits =
     (if numbits = 1 then map_option (Pair (pc + 1)) (set1 pc bits)
      else if numbits = 2 then map_option (Pair (pc + 2)) (setN 0b11 pc bits)
      else if numbits = 3 then map_option (Pair (pc + 3)) (setN 0b111 pc bits)
      else if numbits = 4 then map_option (Pair (pc + 4)) (setN 0b1111 pc bits)
      else if numbits = 5 then map_option (Pair (pc + 5)) (setN 0b11111 pc bits)
      else if numbits = 6 then map_option (Pair (pc + 6)) (setN 0b111111 pc bits)
      else if numbits = 7 then map_option (Pair (pc + 7)) (setN 0b1111111 pc bits)
      else Some (pc, bits))"

definition mark_push :: "byte \<Rightarrow> nat \<Rightarrow> bitvec \<Rightarrow> (nat \<times> bitvec) option" where
  "mark_push op pc bits =
     (let numbits = unat (op - PUSH1 + 1) in
      Option.bind
        (if numbits \<ge> 8
         then Option.bind (set16_loop numbits pc bits) (\<lambda>(n, p, b). set8_loop n p b)
         else Some (numbits, pc, bits))
        (\<lambda>(n, p, b). set_rest n p b))"

text \<open>The main loop. The position grows in every round, so \<open>Suc (length code)\<close> rounds are enough.\<close>

fun bitmap_loop :: "nat \<Rightarrow> bytes \<Rightarrow> nat \<Rightarrow> bitvec \<Rightarrow> bitvec option" where
  "bitmap_loop 0 code pc bits = None"
| "bitmap_loop (Suc n) code pc bits =
     (if pc < length code then
        let op = code ! pc; pc1 = pc + 1 in
        if sint op < sint PUSH1 then bitmap_loop n code pc1 bits
        else Option.bind (mark_push op pc1 bits) (\<lambda>(pc2, bits2). bitmap_loop n code pc2 bits2)
      else Some bits)"

definition codeBitmapInternal :: "bytes \<Rightarrow> bitvec \<Rightarrow> bitvec option" where
  "codeBitmapInternal code bits = bitmap_loop (Suc (length code)) code 0 bits"

definition codeBitmap :: "bytes \<Rightarrow> bitvec option" where
  "codeBitmap code = codeBitmapInternal code (replicate (length code div 8 + 1 + 4) 0)"

subsection \<open>A walk over the code\<close>

text \<open>The number of data bytes that follow an instruction, and which bytes of a code are data.\<close>

definition push_size :: "byte \<Rightarrow> nat" where
  "push_size op = (if 0x60 \<le> op \<and> op \<le> 0x7f then unat op - 0x5f else 0)"

function data_marks :: "bytes \<Rightarrow> bool list" where
  "data_marks [] = []"
| "data_marks (op # code) =
     False # replicate (min (push_size op) (length code)) True @ data_marks (drop (push_size op) code)"
  by pat_completeness auto
termination
  by (relation "measure length") auto

subsection \<open>Setting bits\<close>

definition bget :: "bitvec \<Rightarrow> nat \<Rightarrow> bool" where
  "bget bits p = bit (bits ! (p div 8)) (p mod 8)"

definition clear_from :: "nat \<Rightarrow> bitvec \<Rightarrow> bool" where
  "clear_from pos bits \<longleftrightarrow> (\<forall>p. pos \<le> p \<longrightarrow> p div 8 < length bits \<longrightarrow> \<not> bget bits p)"

text \<open>\<open>b\<close> is \<open>bits\<close> with the \<open>k\<close> bits from \<open>pos\<close> on set.\<close>

definition marked :: "nat \<Rightarrow> nat \<Rightarrow> bitvec \<Rightarrow> bitvec \<Rightarrow> bool" where
  "marked pos k bits b \<longleftrightarrow>
     length b = length bits \<and>
     (\<forall>p. p div 8 < length bits \<longrightarrow> bget b p = (bget bits p \<or> pos \<le> p \<and> p < pos + k))"

lemma codeSegment_bget: "p div 8 < length bits \<Longrightarrow> codeSegment bits p = Some (\<not> bget bits p)"
  by (simp add: codeSegment_def bget_def bit_iff_and_drop_bit_eq_1 and_one_eq mod_2_eq_odd)

lemma marked_clear: "clear_from pos bits \<Longrightarrow> marked pos k bits b \<Longrightarrow> clear_from (pos + k) b"
  by (auto simp: clear_from_def marked_def)

lemma marked_trans: "marked pos k bits b \<Longrightarrow> marked (pos + k) l b c \<Longrightarrow> marked pos (k + l) bits c"
  by (auto simp: marked_def)

lemma markedI:
  assumes "length b = length bits"
    and "\<And>i j. i < length bits \<Longrightarrow> j < 8 \<Longrightarrow>
      bit (b ! i) j = (bit (bits ! i) j \<or> pos \<le> 8 * i + j \<and> 8 * i + j < pos + k)"
  shows "marked pos k bits b"
  unfolding marked_def bget_def
proof (intro conjI allI impI)
  fix p assume "p div 8 < length bits"
  then show "bit (b ! (p div 8)) (p mod 8) =
      (bit (bits ! (p div 8)) (p mod 8) \<or> pos \<le> p \<and> p < pos + k)"
    using assms(2)[of "p div 8" "p mod 8"] by simp
qed (rule assms)

lemma clear_fromD:
  "clear_from pos bits \<Longrightarrow> i < length bits \<Longrightarrow> j < 8 \<Longrightarrow> pos \<le> 8 * i + j \<Longrightarrow> \<not> bit (bits ! i) j"
  unfolding clear_from_def bget_def by (drule spec[of _ "8 * i + j"]) simp

lemma split_pos:
  fixes pos :: nat
  obtains q r where "pos = 8 * q + r" "r < 8" "pos div 8 = q" "pos mod 8 = r"
  using that[of "pos div 8" "pos mod 8"] by simp

lemma set1_marked:
  assumes "pos div 8 < length bits"
  shows "\<exists>b. set1 pos bits = Some b \<and> marked pos 1 bits b"
proof -
  obtain q r where qr: "pos = 8 * q + r" "r < 8" "pos div 8 = q" "pos mod 8 = r" by (rule split_pos)
  have "marked pos 1 bits (bits[q := bits ! q OR push_bit r 1])"
    by (rule markedI) (use qr assms in \<open>auto simp: nth_list_update bit_simps\<close>)
  then show ?thesis using assms qr by (simp add: set1_def bits_or_def)
qed

lemma bit_0xFF: "bit (0xFF :: byte) j \<longleftrightarrow> j < 8"
proof -
  have "(0xFF :: byte) = - 1" by simp
  then show ?thesis by (simp only: bit_minus_1_iff possible_bit_word) simp
qed

lemma set8_marked:
  assumes "pos div 8 + 1 < length bits" "clear_from pos bits"
  shows "\<exists>b. set8 pos bits = Some b \<and> marked pos 8 bits b"
proof -
  obtain q r where qr: "pos = 8 * q + r" "r < 8" "pos div 8 = q" "pos mod 8 = r" by (rule split_pos)
  let ?a = "push_bit r 0xFF :: byte"
  have "marked pos 8 bits (bits[q := bits ! q OR ?a, q + 1 := NOT ?a])"
    by (rule markedI)
      (use qr assms clear_fromD[OF assms(2), of "q + 1"] in
        \<open>auto simp: nth_list_update bit_or_iff bit_not_iff bit_push_bit_iff bit_0xFF simp del: bit_numeral_word_iff\<close>)
  then show ?thesis using assms qr by (simp add: set8_def bits_or_def bits_set_def Let_def)
qed

lemma set16_marked:
  assumes "pos div 8 + 2 < length bits" "clear_from pos bits"
  shows "\<exists>b. set16 pos bits = Some b \<and> marked pos 16 bits b"
proof -
  obtain q r where qr: "pos = 8 * q + r" "r < 8" "pos div 8 = q" "pos mod 8 = r" by (rule split_pos)
  let ?a = "push_bit r 0xFF :: byte"
  have "marked pos 16 bits (bits[q := bits ! q OR ?a, q + 1 := 0xFF, q + 2 := NOT ?a])"
    by (rule markedI)
      (use qr assms clear_fromD[OF assms(2), of "q + 1"] clear_fromD[OF assms(2), of "q + 2"] in
        \<open>auto simp: nth_list_update bit_or_iff bit_not_iff bit_push_bit_iff bit_0xFF simp del: bit_numeral_word_iff\<close>)
  then show ?thesis using assms qr by (simp add: set16_def bits_or_def bits_set_def Let_def)
qed

lemma setN_marked:
  assumes room: "(pos + k) div 8 < length bits" and clear: "clear_from pos bits" and k: "k \<le> 8"
  shows "\<exists>b. setN (mask k) pos bits = Some b \<and> marked pos k bits b"
proof -
  obtain q r where qr: "pos = 8 * q + r" "r < 8" "pos div 8 = q" "pos mod 8 = r" by (rule split_pos)
  let ?a = "push_bit r (mask k) :: u16" and ?b = "ucast (drop_bit 8 (push_bit r (mask k) :: u16)) :: byte"
  have q: "q < length bits" and q1: "8 < r + k \<Longrightarrow> q + 1 < length bits"
    using room qr(1) by (auto simp: less_eq_div_iff_mult_less_eq Suc_le_eq[symmetric] intro: order.strict_trans1)
  have lo: "bit (ucast ?a :: byte) j \<longleftrightarrow> r \<le> j \<and> j < r + k" if "j < 8" for j
    using that qr k by (auto simp: bit_simps)
  have hi: "bit ?b j \<longleftrightarrow> j + 8 < r + k" if "j < 8" for j
    using that qr k by (auto simp: bit_simps)
  have z: "?b = 0 \<longleftrightarrow> r + k \<le> 8"
  proof
    show "?b = 0 \<Longrightarrow> r + k \<le> 8" using hi[of 0] by (simp only: bit_0_eq) simp
  qed (use hi in \<open>auto simp: bit_eq_iff\<close>)
  have "marked pos k bits (if ?b \<noteq> 0 then bits[q := bits ! q OR ucast ?a, q + 1 := ?b]
                           else bits[q := bits ! q OR ucast ?a])"
    by (rule markedI)
      (use qr q q1 k clear_fromD[OF clear, of "q + 1"] z lo hi in \<open>auto simp: nth_list_update bit_or_iff\<close>)
  then show ?thesis
    using q q1 qr z by (cases "?b = 0") (auto simp: setN_def bits_or_def bits_set_def Let_def)
qed

lemma set16_loop_marked:
  "(pc + n) div 8 < length bits \<Longrightarrow> clear_from pc bits \<Longrightarrow>
   \<exists>b k. set16_loop n pc bits = Some (n - k, pc + k, b) \<and> k \<le> n \<and> n - k < 16 \<and> marked pc k bits b"
proof (induction n pc bits rule: set16_loop.induct)
  case (1 n pc bits)
  show ?case
  proof (cases "n \<ge> 16")
    case True
    have "pc div 8 + 2 < length bits" using "1.prems"(1) True by linarith
    then obtain b where b: "set16 pc bits = Some b" "marked pc 16 bits b"
      using set16_marked "1.prems" by blast
    have "(pc + 16 + (n - 16)) div 8 < length b" using "1.prems"(1) True b(2) by (simp add: marked_def)
    then obtain c k where "set16_loop (n - 16) (pc + 16) b = Some (n - 16 - k, pc + 16 + k, c)"
      "k \<le> n - 16" "n - 16 - k < 16" "marked (pc + 16) k b c"
      using "1.IH"[OF True b(1)] marked_clear[OF "1.prems"(2) b(2)] by blast
    then show ?thesis
      using True b marked_trans[OF b(2)]
      by (intro exI[of _ c] exI[of _ "16 + k"]) (simp add: set16_loop.simps[of n])
  qed (use "1.prems" in \<open>auto simp: set16_loop.simps[of n] marked_def intro!: exI[of _ 0]\<close>)
qed

lemma set8_loop_marked:
  "(pc + n) div 8 < length bits \<Longrightarrow> clear_from pc bits \<Longrightarrow>
   \<exists>b k. set8_loop n pc bits = Some (n - k, pc + k, b) \<and> k \<le> n \<and> n - k < 8 \<and> marked pc k bits b"
proof (induction n pc bits rule: set8_loop.induct)
  case (1 n pc bits)
  show ?case
  proof (cases "n \<ge> 8")
    case True
    have "pc div 8 + 1 < length bits" using "1.prems"(1) True by linarith
    then obtain b where b: "set8 pc bits = Some b" "marked pc 8 bits b"
      using set8_marked "1.prems" by blast
    have "(pc + 8 + (n - 8)) div 8 < length b" using "1.prems"(1) True b(2) by (simp add: marked_def)
    then obtain c k where "set8_loop (n - 8) (pc + 8) b = Some (n - 8 - k, pc + 8 + k, c)"
      "k \<le> n - 8" "n - 8 - k < 8" "marked (pc + 8) k b c"
      using "1.IH"[OF True b(1)] marked_clear[OF "1.prems"(2) b(2)] by blast
    then show ?thesis
      using True b marked_trans[OF b(2)]
      by (intro exI[of _ c] exI[of _ "8 + k"]) (simp add: set8_loop.simps[of n])
  qed (use "1.prems" in \<open>auto simp: set8_loop.simps[of n] marked_def intro!: exI[of _ 0]\<close>)
qed

lemma mask_flags:
  "0b11 = (mask 2 :: u16)" "0b111 = (mask 3 :: u16)" "0b1111 = (mask 4 :: u16)" "0b11111 = (mask 5 :: u16)"
  "0b111111 = (mask 6 :: u16)" "0b1111111 = (mask 7 :: u16)"
  by (simp_all add: mask_eq_exp_minus_1)

lemma set_rest_marked:
  assumes "(pc + n) div 8 < length bits" "clear_from pc bits" "n < 8"
  shows "\<exists>b. set_rest n pc bits = Some (pc + n, b) \<and> marked pc n bits b"
proof -
  have "n = 0 \<or> n = 1 \<or> n = 2 \<or> n = 3 \<or> n = 4 \<or> n = 5 \<or> n = 6 \<or> n = 7" using assms(3) by linarith
  moreover have "pc div 8 < length bits" using assms(1) by (meson div_le_mono le_add1 le_less_trans)
  then have "\<exists>b. set1 pc bits = Some b \<and> marked pc 1 bits b" by (rule set1_marked)
  moreover have "\<exists>b. setN (mask n) pc bits = Some b \<and> marked pc n bits b"
    using assms by (intro setN_marked) auto
  ultimately show ?thesis by (auto simp only: set_rest_def mask_flags) (auto simp: marked_def)
qed

subsection \<open>The bitmap agrees with the walk\<close>

lemma sint_byte: "sint (w :: byte) = (uint w + 128) mod 256 - 128"
  using int_word_sint[of "uint w", where ?'a = 8] by simp

lemma not_push_iff: "sint op < sint PUSH1 \<longleftrightarrow> push_size op = 0"
proof -
  have u: "0 \<le> uint op" "uint op < 256" using uint_lt2p[of op] by simp_all
  have "sint op < 96 \<longleftrightarrow> uint op < 96 \<or> 128 \<le> uint op" 
  proof (cases "uint op < 128")
    case True
    then have "(uint op + 128) mod 256 = uint op + 128" using u by (intro mod_pos_pos_trivial) auto
    then show ?thesis using True by (simp add: sint_byte)
  next
    case False
    have "(uint op + 128) mod 256 = (uint op - 128 + 1 * 256) mod 256" by (simp add: add.commute)
    also have "\<dots> = uint op - 128" using u False by (subst mod_mult_self1) (intro mod_pos_pos_trivial, auto)
    finally show ?thesis using u False by (simp add: sint_byte)
  qed
  moreover have "(0x60 \<le> op) = (96 \<le> uint op)" "(op \<le> 0x7f) = (uint op \<le> 127)"
    by (simp_all add: word_le_def)
  moreover have "(0x60 \<le> op) = (96 \<le> unat op)" by (simp add: word_le_nat_alt)
  ultimately show ?thesis by (auto simp: push_size_def PUSH1_def sint_byte[of 96])
qed

lemma push_numbits: "push_size op \<noteq> 0 \<Longrightarrow> unat (op - PUSH1 + 1) = push_size op \<and> push_size op \<le> 32"
proof -
  assume "push_size op \<noteq> 0"
  then have op: "0x60 \<le> op" "op \<le> 0x7f" by (auto simp: push_size_def split: if_splits)
  then have u: "96 \<le> unat op" "unat op \<le> 127" by (simp_all add: word_le_nat_alt)
  have s: "unat (op - 0x60) = unat op - 96" using op(1) by (simp add: unat_sub)
  then have "unat (op - 0x60 + 1) = unat op - 95"
    using u by (subst unat_word_ariths(1)) simp
  then show ?thesis using op u by (simp add: push_size_def PUSH1_def)
qed

lemma mark_push_marked:
  assumes "push_size op \<noteq> 0" and room: "(pc + push_size op) div 8 < length bits" and clear: "clear_from pc bits"
  shows "\<exists>b. mark_push op pc bits = Some (pc + push_size op, b) \<and> marked pc (push_size op) bits b"
proof -
  let ?n = "push_size op"
  have n: "unat (op - PUSH1 + 1) = ?n" using push_numbits assms(1) by blast
  have "\<exists>b k. (if ?n \<ge> 8 then Option.bind (set16_loop ?n pc bits) (\<lambda>(n, p, b). set8_loop n p b)
               else Some (?n, pc, bits)) = Some (?n - k, pc + k, b) \<and> k \<le> ?n \<and> ?n - k < 8 \<and> marked pc k bits b"
  proof (cases "?n \<ge> 8")
    case True
    obtain b k where b: "set16_loop ?n pc bits = Some (?n - k, pc + k, b)" "k \<le> ?n" "marked pc k bits b"
      using set16_loop_marked[OF room clear] by blast
    have "(pc + k + (?n - k)) div 8 < length b" using room b(2,3) by (simp add: marked_def)
    then obtain c l where "set8_loop (?n - k) (pc + k) b = Some (?n - k - l, pc + k + l, c)" "l \<le> ?n - k"
      "?n - k - l < 8" "marked (pc + k) l b c"
      using set8_loop_marked marked_clear[OF clear b(3)] by blast
    then show ?thesis using True b marked_trans[OF b(3)]
      by (intro exI[of _ c] exI[of _ "k + l"]) (simp add: add.assoc)
  qed (auto simp: marked_def intro!: exI[of _ 0])
  then obtain b k where b: "(if ?n \<ge> 8 then Option.bind (set16_loop ?n pc bits) (\<lambda>(n, p, b). set8_loop n p b)
               else Some (?n, pc, bits)) = Some (?n - k, pc + k, b)" "k \<le> ?n" "?n - k < 8" "marked pc k bits b"
    by blast
  have "(pc + k + (?n - k)) div 8 < length b" using room b(2,4) by (simp add: marked_def)
  then obtain c where c: "set_rest (?n - k) (pc + k) b = Some (pc + ?n, c)" "marked (pc + k) (?n - k) b c"
    using set_rest_marked[OF _ marked_clear[OF clear b(4)] b(3)] b(2) by auto
  have "marked pc ?n bits c" using marked_trans[OF b(4) c(2)] b(2) by simp
  then show ?thesis using b(1) c(1) unfolding mark_push_def n Let_def by (cases "?n \<ge> 8") simp_all
qed

lemma length_data_marks [simp]: "length (data_marks code) = length code"
  by (induction code rule: data_marks.induct) auto

lemma data_marks_drop:
  assumes "pc < length code" "p < length code" "pc < p"
  shows "data_marks (drop pc code) ! (p - pc) =
    (p < Suc pc + push_size (code ! pc) \<or> data_marks (drop (Suc pc + push_size (code ! pc)) code) !
       (p - (Suc pc + push_size (code ! pc))) \<and> Suc pc + push_size (code ! pc) \<le> p)"
proof -
  have "drop pc code = code ! pc # drop (Suc pc) code" using assms by (simp add: Cons_nth_drop_Suc)
  then show ?thesis using assms
    by (auto simp: nth_append nth_Cons' add.commute)
qed

lemma data_marks_head: "pc < length code \<Longrightarrow> \<not> data_marks (drop pc code) ! 0"
  by (simp add: Cons_nth_drop_Suc[symmetric])

lemma bitmap_loop_marks:
  assumes "length code - pc < n" "length bits = length code div 8 + 5" "clear_from pc bits"
  shows "\<exists>b. bitmap_loop n code pc bits = Some b \<and> length b = length bits \<and>
    (\<forall>p < length code. bget b p = (if p < pc then bget bits p else data_marks (drop pc code) ! (p - pc)))"
  using assms
proof (induction n arbitrary: pc bits)
  case (Suc n)
  show ?case
  proof (cases "pc < length code")
    case True
    define k where "k = push_size (code ! pc)"
    define b where "b = (if k = 0 then bits else snd (the (mark_push (code ! pc) (pc + 1) bits)))"
    have clear1: "clear_from (pc + 1) bits" using Suc.prems(3) by (simp add: clear_from_def)
    have "k \<noteq> 0 \<Longrightarrow> k \<le> 32" using push_numbits[of "code ! pc"] by (simp add: k_def)
    then have room: "(pc + 1 + k) div 8 < length bits" using True Suc.prems(2) by linarith
    have m: "marked (pc + 1) k bits b" and step: "bitmap_loop (Suc n) code pc bits = bitmap_loop n code (pc + 1 + k) b"
      using True mark_push_marked[OF _ room[unfolded k_def] clear1]
      by (auto simp: b_def k_def not_push_iff Let_def marked_def)
    have len: "length b = length bits" using m by (simp add: marked_def)
    obtain c where c: "bitmap_loop n code (pc + 1 + k) b = Some c" "length c = length b"
      "\<forall>p < length code. bget c p = (if p < pc + 1 + k then bget b p
         else data_marks (drop (pc + 1 + k) code) ! (p - (pc + 1 + k)))"
      using Suc.IH[OF _ _ marked_clear[OF clear1 m]] Suc.prems(1,2) True len by fastforce
    have "bget c p = (if p < pc then bget bits p else data_marks (drop pc code) ! (p - pc))"
      if p: "p < length code" for p
    proof -
      have "p div 8 < length bits" using p Suc.prems(2) by (simp add: div_le_mono le_imp_less_Suc less_imp_le_nat trans_less_add1)
      then have "bget b p = (bget bits p \<or> pc + 1 \<le> p \<and> p < pc + 1 + k)" "pc \<le> p \<Longrightarrow> \<not> bget bits p"
        using m Suc.prems(3) by (auto simp: marked_def clear_from_def)
      then show ?thesis
        using c(3) p True data_marks_drop[OF True p] data_marks_head[OF True]
        by (cases "p = pc") (auto simp: k_def[symmetric])
    qed
    then show ?thesis using c step len by auto
  qed (use Suc.prems in auto)
qed simp

lemma codeBitmap_marks:
  "\<exists>b. codeBitmap code = Some b \<and> length b = length code div 8 + 5 \<and>
    (\<forall>p < length code. codeSegment b p = Some (\<not> data_marks code ! p))"
proof -
  let ?z = "replicate (length code div 8 + 1 + 4) 0 :: bitvec"
  have "clear_from 0 ?z" by (simp add: clear_from_def bget_def)
  then obtain b where b: "bitmap_loop (Suc (length code)) code 0 ?z = Some b" "length b = length ?z"
    "\<forall>p < length code. bget b p = data_marks code ! p"
    using bitmap_loop_marks[of code 0 "Suc (length code)" ?z] by auto
  have "codeSegment b p = Some (\<not> data_marks code ! p)" if "p < length code" for p
  proof -
    have "p div 8 < length b" using that b(2) by (simp add: div_le_mono le_imp_less_Suc less_imp_le_nat trans_less_add1)
    then show ?thesis using b(3) that by (simp add: codeSegment_bget)
  qed
  then show ?thesis using b by (simp add: codeBitmap_def codeBitmapInternal_def)
qed

end
