(* ===== verification/VMContract.thy ===== *)
theory VMContract
  imports VMCore Analysis
begin

text \<open>
  The state of the virtual machine (\<open>QRVM\<close> and \<open>QRVMInterpreter\<close> of \<open>src/core/vm/\<close>) and contracts
  (\<open>contract.go\<close>).

  What does not change during an execution is collected in a record \<open>vm_env\<close>: the block and the
  transaction, the configuration, and the code that is not part of the repository (256-bit integers,
  hash functions). The flag \<open>abort\<close> may be set by another thread at any moment; \<open>e_abort i\<close> is what
  the \<open>i\<close>-th load of it returns. The fields of the machine that an execution changes are passed along.

  The map \<open>jumpdests\<close> is shared, by reference, between the contracts of a call tree, and a contract
  that is called from outside of a contract gets a fresh one; it is a field of the machine here. The
  field \<open>caller\<close> of a contract is read only by \<open>AsDelegate\<close>, which is given the caller instead. No
  tracer is set, and there are no optional instructions to activate (\<open>activators\<close> is empty).
\<close>

record BlockContext =
  ctx_GetHash :: "u64 \<Rightarrow> hash"
  ctx_Coinbase :: address
  ctx_GasLimit :: u64
  ctx_BlockNumber :: int
  ctx_Time :: u64
  ctx_BaseFee :: "int option"
  ctx_Random :: "hash option"

record TxContext =
  tx_Origin :: address
  tx_GasPrice :: int

record depositdata =
  PublicKey :: bytes
  WithdrawalCredentials :: bytes
  Amount :: u64
  Signature :: bytes

record vm_env =
  e_Context :: BlockContext
  e_TxContext :: TxContext
  e_ChainID :: int
  e_NoBaseFee :: bool
  e_EnablePreimageRecording :: bool
  e_abort :: "nat \<Rightarrow> bool"
  e_U :: uint256_lib
  e_Keccak256 :: "bytes \<Rightarrow> hash"
  e_Sum256 :: "bytes \<Rightarrow> hash" \<comment> \<open>SHA-256\<close>
  e_ssz :: "depositdata \<Rightarrow> hash" \<comment> \<open>the hasher of the external package \<open>fastssz\<close>\<close>

record QRVM =
  m_StateDB :: statedb
  m_depth :: nat
  m_readOnly :: bool
  m_returnData :: bytes
  m_callGasTemp :: u64
  m_jumpdests :: "hash \<Rightarrow> bitvec option"
  m_loads :: nat \<comment> \<open>how often \<open>abort\<close> was loaded\<close>

record Contract =
  c_CallerAddress :: address
  c_self :: address
  c_analysis :: "bitvec option"
  c_Code :: bytes
  c_CodeHash :: hash
  c_CodeAddr :: "address option"
  c_Input :: bytes
  c_Gas :: u64
  c_value :: int

datatype ContractRef = AccountRef address | ContractOf Contract

fun ref_Address :: "ContractRef \<Rightarrow> address" where
  "ref_Address (AccountRef a) = a"
| "ref_Address (ContractOf c) = c_self c"

definition NewContract :: "ContractRef \<Rightarrow> address \<Rightarrow> int \<Rightarrow> u64 \<Rightarrow> QRVM \<Rightarrow> Contract \<times> QRVM" where
  "NewContract caller object val gas m =
     (\<lparr>c_CallerAddress = ref_Address caller, c_self = object, c_analysis = None, c_Code = [],
       c_CodeHash = 0, c_CodeAddr = None, c_Input = [], c_Gas = gas, c_value = val\<rparr>,
      case caller of ContractOf p \<Rightarrow> m | AccountRef a \<Rightarrow> m\<lparr>m_jumpdests := Map.empty\<rparr>)"

text \<open>The type assertion on the caller panics for anything but a contract.\<close>

fun AsDelegate :: "ContractRef \<Rightarrow> Contract \<Rightarrow> Contract outcome" where
  "AsDelegate (AccountRef a) c = Panic PanicNil"
| "AsDelegate (ContractOf p) c = Ok (c\<lparr>c_CallerAddress := c_CallerAddress p, c_value := c_value p\<rparr>)"

definition STOP :: byte where
  "STOP = 0x00"

definition JUMPDEST :: byte where
  "JUMPDEST = 0x5b"

definition GetOp :: "u64 \<Rightarrow> Contract \<Rightarrow> byte" where
  "GetOp n c = (if n < word_of_nat (length (c_Code c)) then c_Code c ! unat n else STOP)"

definition UseGas :: "u64 \<Rightarrow> Contract \<Rightarrow> bool \<times> Contract" where
  "UseGas gas c = (if c_Gas c < gas then (False, c) else (True, c\<lparr>c_Gas := c_Gas c - gas\<rparr>))"

definition SetCallCode :: "address \<Rightarrow> hash \<Rightarrow> bytes \<Rightarrow> Contract \<Rightarrow> Contract" where
  "SetCallCode a h code c = c\<lparr>c_Code := code, c_CodeHash := h, c_CodeAddr := Some a\<rparr>"

text \<open>Init code has a hash only when \<open>Create2\<close> has computed it for the address.\<close>

record codeAndHash =
  ch_code :: bytes
  ch_hash :: hash

definition ch_Hash :: "vm_env \<Rightarrow> codeAndHash \<Rightarrow> hash \<times> codeAndHash" where
  "ch_Hash E c =
     (let c1 = (if ch_hash c = 0 then c\<lparr>ch_hash := e_Keccak256 E (ch_code c)\<rparr> else c) in (ch_hash c1, c1))"

definition SetCodeOptionalHash :: "address \<Rightarrow> codeAndHash \<Rightarrow> Contract \<Rightarrow> Contract" where
  "SetCodeOptionalHash a ch c =
     c\<lparr>c_Code := ch_code ch, c_CodeHash := ch_hash ch, c_CodeAddr := Some a\<rparr>"

definition code_segment :: "bitvec \<Rightarrow> u64 \<Rightarrow> bool outcome" where
  "code_segment bits udest = of_option PanicBitmap (codeSegment bits (unat udest))"

definition isCode :: "u64 \<Rightarrow> Contract \<Rightarrow> QRVM \<Rightarrow> (bool \<times> Contract \<times> QRVM) outcome" where
  "isCode udest c m =
     (case c_analysis c of
        Some bits \<Rightarrow> bind_outcome (code_segment bits udest) (\<lambda>b. Ok (b, c, m))
      | None \<Rightarrow>
          if c_CodeHash c \<noteq> 0 then
            bind_outcome
              (case m_jumpdests m (c_CodeHash c) of
                 Some bits \<Rightarrow> Ok (bits, m)
               | None \<Rightarrow>
                   bind_outcome (of_option PanicBitmap (codeBitmap (c_Code c)))
                     (\<lambda>bits. Ok (bits, m\<lparr>m_jumpdests := (m_jumpdests m)(c_CodeHash c \<mapsto> bits)\<rparr>)))
              (\<lambda>(bits, m1). bind_outcome (code_segment bits udest)
                 (\<lambda>b. Ok (b, c\<lparr>c_analysis := Some bits\<rparr>, m1)))
          else
            bind_outcome (of_option PanicBitmap (codeBitmap (c_Code c)))
              (\<lambda>bits. bind_outcome (code_segment bits udest)
                 (\<lambda>b. Ok (b, c\<lparr>c_analysis := Some bits\<rparr>, m))))"

definition validJumpdest ::
  "uint256_lib \<Rightarrow> u256 \<Rightarrow> Contract \<Rightarrow> QRVM \<Rightarrow> (bool \<times> Contract \<times> QRVM) outcome" where
  "validJumpdest U dest c m =
     (let (udest, overflow) = u_Uint64WithOverflow U dest in
      if overflow \<or> udest \<ge> word_of_nat (length (c_Code c)) then Ok (False, c, m)
      else if c_Code c ! unat udest \<noteq> JUMPDEST then Ok (False, c, m)
      else isCode udest c m)"

end
