(* ===== verification/Precompiles.thy ===== *)
theory Precompiles
  imports VMContract
begin

text \<open>
  \<open>src/core/vm/contracts.go\<close>: the precompiled contracts. SHA-256 and the hasher of \<open>fastssz\<close> are
  fields of the environment; \<open>*big.Int\<close> values are integers.
\<close>

datatype PrecompiledContract = depositroot | sha256hash | dataCopy | bigModExp

definition precompile :: "address \<Rightarrow> PrecompiledContract option" where
  "precompile addr =
     map_of [(1, depositroot), (2, sha256hash), (4, dataCopy), (5, bigModExp)] addr"

definition ActivePrecompiles :: "address list" where
  "ActivePrecompiles = [1, 2, 4, 5]"

definition get_data :: "bytes \<Rightarrow> u64 \<Rightarrow> u64 \<Rightarrow> bytes outcome" where
  "get_data data start sz = of_option PanicSlice (getData data start sz)"

definition get_big :: "bytes \<Rightarrow> u64 \<Rightarrow> u64 \<Rightarrow> int outcome" where
  "get_big data start sz = bind_outcome (get_data data start sz) (\<lambda>b. Ok (int (bytes_to_nat b)))"

subsection \<open>The deposit root\<close>

definition HashTreeRoot :: "vm_env \<Rightarrow> depositdata \<Rightarrow> vm_error + hash" where
  "HashTreeRoot E d =
     (if length (PublicKey d) \<noteq> 2592 then Inl (ErrPrecompile ''--.Pubkey'')
      else if length (WithdrawalCredentials d) \<noteq> 32 then Inl (ErrPrecompile ''--.WithdrawalCredentials'')
      else if length (Signature d) \<noteq> 4627 then Inl (ErrPrecompile ''--.Signature'')
      else Inr (e_ssz E d))"

definition depositroot_Run :: "vm_env \<Rightarrow> bytes \<Rightarrow> (vm_error + bytes) outcome" where
  "depositroot_Run E input =
     bind_outcome (get_data input 0 2592) (\<lambda>pkBytes.
     bind_outcome (get_data input 2592 32) (\<lambda>credsBytes.
     bind_outcome (get_data input 2624 8) (\<lambda>amountBytes.
     bind_outcome (get_data input 2632 4627) (\<lambda>sigBytes.
       if length amountBytes < 8 then Ok (Inl (ErrPrecompile ''EOF''))
       else
         let amountUint = word_of_nat (bytes_to_nat (rev (take 8 amountBytes)));
             data = \<lparr>PublicKey = pkBytes, WithdrawalCredentials = credsBytes, Amount = amountUint,
                     Signature = sigBytes\<rparr>
         in Ok (map_sum id hash_bytes (HashTreeRoot E data))))))"

subsection \<open>Modular exponentiation\<close>

definition modexp_RequiredGas :: "bytes \<Rightarrow> u64 outcome" where
  "modexp_RequiredGas input =
     bind_outcome (get_big input 0 32) (\<lambda>baseLen.
     bind_outcome (get_big input 32 32) (\<lambda>expLen.
     bind_outcome (get_big input 64 32) (\<lambda>modLen.
       let input = (if length input > 96 then drop 96 input else []) in
       bind_outcome
         (if int (length input) \<le> baseLen then Ok 0
          else if expLen > 32 then get_big input (word_of_int baseLen) 32
          else get_big input (word_of_int baseLen) (word_of_int expLen))
         (\<lambda>expHead.
           let n = bitlen (nat expHead);
               msb = (if n > 0 then n - 1 else 0);
               adjExpLen = (if expLen > 32 then 8 * (expLen - 32) else 0);
               adjExpLen = adjExpLen + int msb;
               gas = max modLen baseLen;
               gas = (gas + 7) div 8;
               gas = gas * gas;
               gas = gas * max adjExpLen 1;
               gas = gas div 3
           in if bitlen (nat gas) > 64 then Ok MaxUint64
              else if (word_of_int gas :: u64) < 200 then Ok 200
              else Ok (word_of_int gas)))))"

definition modexp_Run :: "bytes \<Rightarrow> (vm_error + bytes) outcome" where
  "modexp_Run input =
     bind_outcome (get_big input 0 32) (\<lambda>b.
     bind_outcome (get_big input 32 32) (\<lambda>e.
     bind_outcome (get_big input 64 32) (\<lambda>m.
       let baseLen = word_of_int b; expLen = word_of_int e; modLen = word_of_int m;
           input = (if length input > 96 then drop 96 input else [])
       in
       if baseLen = 0 \<and> modLen = 0 then Ok (Inr [])
       else
         bind_outcome (get_big input 0 baseLen) (\<lambda>base.
         bind_outcome (get_big input baseLen expLen) (\<lambda>exp.
         bind_outcome (get_big input (baseLen + expLen) modLen) (\<lambda>mod'.
           if bitlen (nat mod') = 0 then Ok (Inr (LeftPadBytes [] (sint modLen)))
           else
             let v = (if bitlen (nat base) = 1 then base mod mod' else base ^ nat exp mod mod')
             in Ok (Inr (LeftPadBytes (min_bytes (nat v)) (sint modLen)))))))))"

subsection \<open>Running a precompiled contract\<close>

definition words_of :: "bytes \<Rightarrow> u64" where
  "words_of input = word_of_nat (length input + 31) div 32"

fun RequiredGas :: "PrecompiledContract \<Rightarrow> bytes \<Rightarrow> u64 outcome" where
  "RequiredGas depositroot input = Ok ((2 * Sha256PerWordGas + Sha256BaseGas) * 238)"
| "RequiredGas sha256hash input = Ok (words_of input * Sha256PerWordGas + Sha256BaseGas)"
| "RequiredGas dataCopy input = Ok (words_of input * IdentityPerWordGas + IdentityBaseGas)"
| "RequiredGas bigModExp input = modexp_RequiredGas input"

fun precompile_Run :: "vm_env \<Rightarrow> PrecompiledContract \<Rightarrow> bytes \<Rightarrow> (vm_error + bytes) outcome" where
  "precompile_Run E depositroot input = depositroot_Run E input"
| "precompile_Run E sha256hash input = Ok (Inr (hash_bytes (e_Sum256 E input)))"
| "precompile_Run E dataCopy input = Ok (Inr input)"
| "precompile_Run E bigModExp input = modexp_Run input"

definition RunPrecompiledContract ::
  "vm_env \<Rightarrow> PrecompiledContract \<Rightarrow> bytes \<Rightarrow> u64 \<Rightarrow> (bytes \<times> u64 \<times> vm_error option) outcome" where
  "RunPrecompiledContract E p input suppliedGas =
     bind_outcome (RequiredGas p input) (\<lambda>gasCost.
       if suppliedGas < gasCost then Ok ([], 0, Some ErrOutOfGas)
       else
         bind_outcome (precompile_Run E p input) (\<lambda>r.
           case r of
             Inl err \<Rightarrow> Ok ([], suppliedGas - gasCost, Some err)
           | Inr output \<Rightarrow> Ok (output, suppliedGas - gasCost, None)))"

end
