(* ===== verification/VMCalls.thy ===== *)
theory VMCalls
  imports Precompiles
begin

text \<open>
  \<open>src/core/vm/qrvm.go\<close>: calling and creating contracts, with the transfer functions of
  \<open>src/core/qrvm.go\<close> and the contract addresses of \<open>src/crypto/crypto.go\<close>.

  The interpreter calls these functions and is called by them. They take the interpreter as an
  argument \<open>run\<close>, and the theory of the interpreter closes the recursion on the depth of calls.
\<close>

type_synonym runner =
  "Contract \<Rightarrow> bytes \<Rightarrow> bool \<Rightarrow> QRVM \<Rightarrow> (bytes \<times> vm_error option \<times> Contract \<times> QRVM) outcome"

definition CanTransfer :: "address \<Rightarrow> int \<Rightarrow> statedb \<Rightarrow> bool \<times> statedb" where
  "CanTransfer a amount s = (let (balance, s1) = GetBalance a s in (balance \<ge> amount, s1))"

definition Transfer :: "address \<Rightarrow> address \<Rightarrow> int \<Rightarrow> statedb \<Rightarrow> statedb" where
  "Transfer sender recipient amount s = AddBalance recipient amount (SubBalance sender amount s)"

definition CreateAddress :: "vm_env \<Rightarrow> address \<Rightarrow> u64 \<Rightarrow> address" where
  "CreateAddress E b nonce =
     (let data = (case EncodeToBytes (e_U E) (VSlice [VByteArray (address_bytes b), VUint nonce]) of
                    Inl err \<Rightarrow> [] | Inr d \<Rightarrow> d)
      in BytesToAddress (drop 12 (hash_bytes (e_Keccak256 E data))))"

definition CreateAddress2 :: "vm_env \<Rightarrow> address \<Rightarrow> hash \<Rightarrow> bytes \<Rightarrow> address" where
  "CreateAddress2 E b salt inithash =
     BytesToAddress (drop 12 (hash_bytes
       (e_Keccak256 E ([0xff] @ address_bytes b @ hash_bytes salt @ inithash))))"

text \<open>The end of a call: an error reverts the state and, unless it is a revert, takes the gas.\<close>

definition finish_call ::
  "int \<Rightarrow> bytes \<times> u64 \<times> vm_error option \<times> QRVM \<Rightarrow> (bytes \<times> u64 \<times> vm_error option \<times> QRVM) outcome" where
  "finish_call snapshot = (\<lambda>(ret, gas, err, m).
     if err \<noteq> None then
       bind_outcome (of_option PanicRevision (RevertToSnapshot snapshot (m_StateDB m)))
         (\<lambda>s. Ok (ret, if err \<noteq> Some ErrExecutionReverted then 0 else gas, err, m\<lparr>m_StateDB := s\<rparr>))
     else Ok (ret, gas, err, m))"

definition run_precompile ::
  "vm_env \<Rightarrow> PrecompiledContract \<Rightarrow> bytes \<Rightarrow> u64 \<Rightarrow> QRVM \<Rightarrow> (bytes \<times> u64 \<times> vm_error option \<times> QRVM) outcome" where
  "run_precompile E p input gas m =
     bind_outcome (RunPrecompiledContract E p input gas) (\<lambda>(ret, gas, err). Ok (ret, gas, err, m))"

definition run_contract ::
  "runner \<Rightarrow> Contract \<Rightarrow> bytes \<Rightarrow> bool \<Rightarrow> QRVM \<Rightarrow> (bytes \<times> u64 \<times> vm_error option \<times> QRVM) outcome" where
  "run_contract run contract input readOnly m =
     bind_outcome (run contract input readOnly m) (\<lambda>(ret, err, c, m1). Ok (ret, c_Gas c, err, m1))"

definition Call ::
  "vm_env \<Rightarrow> runner \<Rightarrow> ContractRef \<Rightarrow> address \<Rightarrow> bytes \<Rightarrow> u64 \<Rightarrow> int \<Rightarrow> QRVM \<Rightarrow>
   (bytes \<times> u64 \<times> vm_error option \<times> QRVM) outcome" where
  "Call E run caller addr input gas val m =
     (if m_depth m > unat CallCreateDepth then Ok ([], gas, Some ErrDepth, m)
      else
        let (can, s0) = (if val \<noteq> 0 then CanTransfer (ref_Address caller) val (m_StateDB m)
                         else (True, m_StateDB m))
        in
        if val \<noteq> 0 \<and> \<not> can then Ok ([], gas, Some ErrInsufficientBalance, m\<lparr>m_StateDB := s0\<rparr>)
        else
          let (snapshot, s1) = Snapshot s0; p = precompile addr; (exist, s2) = Exist addr s1 in
          if \<not> exist \<and> p = None \<and> val = 0 then Ok ([], gas, None, m\<lparr>m_StateDB := s2\<rparr>)
          else
            let s3 = (if \<not> exist then CreateAccount addr s2 else s2);
                s4 = Transfer (ref_Address caller) addr val s3
            in
            bind_outcome
              (case p of
                 Some p \<Rightarrow> run_precompile E p input gas (m\<lparr>m_StateDB := s4\<rparr>)
               | None \<Rightarrow>
                   let (code, s5) = GetCode addr s4 in
                   if length code = 0 then Ok ([], gas, None, m\<lparr>m_StateDB := s5\<rparr>)
                   else
                     let (contract, m1) = NewContract caller addr val gas (m\<lparr>m_StateDB := s5\<rparr>);
                         (h, s6) = GetCodeHash addr s5
                     in run_contract run (SetCallCode addr h code contract) input False
                          (m1\<lparr>m_StateDB := s6\<rparr>))
              (finish_call snapshot))"

definition DelegateCall ::
  "vm_env \<Rightarrow> runner \<Rightarrow> ContractRef \<Rightarrow> address \<Rightarrow> bytes \<Rightarrow> u64 \<Rightarrow> QRVM \<Rightarrow>
   (bytes \<times> u64 \<times> vm_error option \<times> QRVM) outcome" where
  "DelegateCall E run caller addr input gas m =
     (if m_depth m > unat CallCreateDepth then Ok ([], gas, Some ErrDepth, m)
      else
        let (snapshot, s1) = Snapshot (m_StateDB m) in
        bind_outcome
          (case precompile addr of
             Some p \<Rightarrow> run_precompile E p input gas (m\<lparr>m_StateDB := s1\<rparr>)
           | None \<Rightarrow>
               let (contract, m1) = NewContract caller (ref_Address caller) 0 gas (m\<lparr>m_StateDB := s1\<rparr>) in
               bind_outcome (AsDelegate caller contract) (\<lambda>contract.
                 let (h, s2) = GetCodeHash addr s1; (code, s3) = GetCode addr s2
                 in run_contract run (SetCallCode addr h code contract) input False (m1\<lparr>m_StateDB := s3\<rparr>)))
          (finish_call snapshot))"

definition StaticCall ::
  "vm_env \<Rightarrow> runner \<Rightarrow> ContractRef \<Rightarrow> address \<Rightarrow> bytes \<Rightarrow> u64 \<Rightarrow> QRVM \<Rightarrow>
   (bytes \<times> u64 \<times> vm_error option \<times> QRVM) outcome" where
  "StaticCall E run caller addr input gas m =
     (if m_depth m > unat CallCreateDepth then Ok ([], gas, Some ErrDepth, m)
      else
        let (snapshot, s1) = Snapshot (m_StateDB m); s2 = AddBalance addr 0 s1 in
        bind_outcome
          (case precompile addr of
             Some p \<Rightarrow> run_precompile E p input gas (m\<lparr>m_StateDB := s2\<rparr>)
           | None \<Rightarrow>
               let (contract, m1) = NewContract caller addr 0 gas (m\<lparr>m_StateDB := s2\<rparr>);
                   (h, s3) = GetCodeHash addr s2; (code, s4) = GetCode addr s3
               in run_contract run (SetCallCode addr h code contract) input True (m1\<lparr>m_StateDB := s4\<rparr>))
          (finish_call snapshot))"

subsection \<open>Creating contracts\<close>

text \<open>What \<open>create\<close> does with the outcome of the init code.\<close>

definition deploy :: "address \<Rightarrow> bytes \<times> vm_error option \<times> Contract \<times> QRVM \<Rightarrow>
    bytes \<times> vm_error option \<times> Contract \<times> QRVM" where
  "deploy address = (\<lambda>(ret, err, contract, m).
     let err = (if err = None \<and> length ret > MaxCodeSize then Some ErrMaxCodeSizeExceeded else err);
         err = (if err = None \<and> length ret \<ge> 1 \<and> ret ! 0 = 0xEF then Some ErrInvalidCode else err)
     in
     if err = None then
       let createDataGas = word_of_nat (length ret) * CreateDataGas; (ok, c) = UseGas createDataGas contract in
       if ok then (ret, None, c, m\<lparr>m_StateDB := SetCode address ret (m_StateDB m)\<rparr>)
       else (ret, Some ErrCodeStoreOutOfGas, c, m)
     else (ret, err, contract, m))"

definition finish_create :: "int \<Rightarrow> address \<Rightarrow> bytes \<times> vm_error option \<times> Contract \<times> QRVM \<Rightarrow>
    (bytes \<times> address \<times> u64 \<times> vm_error option \<times> QRVM) outcome" where
  "finish_create snapshot address = (\<lambda>(ret, err, contract, m).
     if err \<noteq> None \<and> err \<noteq> Some ErrCodeStoreOutOfGas then
       bind_outcome (of_option PanicRevision (RevertToSnapshot snapshot (m_StateDB m)))
         (\<lambda>s. let c = (if err \<noteq> Some ErrExecutionReverted then snd (UseGas (c_Gas contract) contract)
                       else contract)
              in Ok (ret, address, c_Gas c, err, m\<lparr>m_StateDB := s\<rparr>))
     else Ok (ret, address, c_Gas contract, err, m))"

definition create ::
  "vm_env \<Rightarrow> runner \<Rightarrow> ContractRef \<Rightarrow> codeAndHash \<Rightarrow> u64 \<Rightarrow> int \<Rightarrow> address \<Rightarrow> QRVM \<Rightarrow>
   (bytes \<times> address \<times> u64 \<times> vm_error option \<times> QRVM) outcome" where
  "create E run caller ch gas val address m =
     (if m_depth m > unat CallCreateDepth then Ok ([], 0, gas, Some ErrDepth, m)
      else
        let self = ref_Address caller; (can, s0) = CanTransfer self val (m_StateDB m) in
        if \<not> can then Ok ([], 0, gas, Some ErrInsufficientBalance, m\<lparr>m_StateDB := s0\<rparr>)
        else
          let (nonce, s1) = GetNonce self s0 in
          if nonce + 1 < nonce then Ok ([], 0, gas, Some ErrNonceUintOverflow, m\<lparr>m_StateDB := s1\<rparr>)
          else
            let s2 = SetNonce self (nonce + 1) s1;
                s3 = AddAddressToAccessList address s2;
                (contractHash, s4) = GetCodeHash address s3;
                (n, s5) = GetNonce address s4
            in
            if n \<noteq> 0 \<or> (contractHash \<noteq> 0 \<and> contractHash \<noteq> EmptyCodeHash (e_Keccak256 E))
            then Ok ([], 0, 0, Some ErrContractAddressCollision, m\<lparr>m_StateDB := s5\<rparr>)
            else
              let (snapshot, s6) = Snapshot s5;
                  s7 = Transfer self address val (SetNonce address 1 (CreateAccount address s6));
                  (contract, m1) = NewContract caller address val gas (m\<lparr>m_StateDB := s7\<rparr>)
              in
              bind_outcome (run (SetCodeOptionalHash address ch contract) [] False m1)
                (\<lambda>r. finish_create snapshot address (deploy address r)))"

definition Create ::
  "vm_env \<Rightarrow> runner \<Rightarrow> ContractRef \<Rightarrow> bytes \<Rightarrow> u64 \<Rightarrow> int \<Rightarrow> QRVM \<Rightarrow>
   (bytes \<times> address \<times> u64 \<times> vm_error option \<times> QRVM) outcome" where
  "Create E run caller code gas val m =
     (let (nonce, s1) = GetNonce (ref_Address caller) (m_StateDB m);
          contractAddr = CreateAddress E (ref_Address caller) nonce
      in create E run caller \<lparr>ch_code = code, ch_hash = 0\<rparr> gas val contractAddr (m\<lparr>m_StateDB := s1\<rparr>))"

definition Create2 ::
  "vm_env \<Rightarrow> runner \<Rightarrow> ContractRef \<Rightarrow> bytes \<Rightarrow> u64 \<Rightarrow> int \<Rightarrow> u256 \<Rightarrow> QRVM \<Rightarrow>
   (bytes \<times> address \<times> u64 \<times> vm_error option \<times> QRVM) outcome" where
  "Create2 E run caller code gas endowment salt m =
     (let (h, ch) = ch_Hash E \<lparr>ch_code = code, ch_hash = 0\<rparr>;
          contractAddr = CreateAddress2 E (ref_Address caller) (u_Bytes32 (e_U E) salt) (hash_bytes h)
      in create E run caller ch gas endowment contractAddr m)"

end
