(* ===== verification/VMGas.thy ===== *)
theory VMGas
  imports VMContract
begin

text \<open>
  What instructions cost: \<open>src/core/vm/gas.go\<close>, \<open>memory_table.go\<close> (the memory an instruction needs),
  \<open>gas_table.go\<close> and \<open>operations_acl.go\<close> (the part of the price that depends on the operands, the
  memory and the state).

  A gas function may change the memory's record of what was paid, the state and, for a short while,
  the gas of the contract. Those that only look at the stack and the memory are lifted.
\<close>

fun bind_sum :: "'e + 'a \<Rightarrow> ('a \<Rightarrow> 'e + 'b) \<Rightarrow> 'e + 'b" where
  "bind_sum (Inl e) f = Inl e"
| "bind_sum (Inr x) f = f x"

definition with_back :: "nat \<Rightarrow> stack \<Rightarrow> (u256 \<Rightarrow> 'a outcome) \<Rightarrow> 'a outcome" where
  "with_back n st f = bind_outcome (of_option PanicStack (stack_Back n st)) f"

text \<open>\<open>math.SafeAdd\<close> and \<open>math.SafeMul\<close> with the error that follows an overflow.\<close>

definition add_gas :: "u64 \<Rightarrow> u64 \<Rightarrow> vm_error + u64" where
  "add_gas x y = (let (gas, overflow) = SafeAdd x y in if overflow then Inl ErrGasUintOverflow else Inr gas)"

definition mul_gas :: "u64 \<Rightarrow> u64 \<Rightarrow> vm_error + u64" where
  "mul_gas x y = (let (gas, overflow) = SafeMul x y in if overflow then Inl ErrGasUintOverflow else Inr gas)"

definition callGas :: "uint256_lib \<Rightarrow> u64 \<Rightarrow> u64 \<Rightarrow> u256 \<Rightarrow> u64" where
  "callGas U availableGas base callCost =
     (let availableGas = availableGas - base;
          gas = availableGas - availableGas div 64
      in if \<not> u_IsUint64 U callCost \<or> gas < u_Uint64 U callCost then gas else u_Uint64 U callCost)"

subsection \<open>The memory an instruction needs: \<open>memory_table.go\<close>\<close>

type_synonym memorySizeFunc = "uint256_lib \<Rightarrow> stack \<Rightarrow> (u64 \<times> bool) outcome"

definition mem_size_at :: "nat \<Rightarrow> nat \<Rightarrow> memorySizeFunc" where
  "mem_size_at i j U st = with_back i st (\<lambda>off. with_back j st (\<lambda>l. Ok (calcMemSize64 U off l)))"

definition mem_size_const :: "nat \<Rightarrow> u64 \<Rightarrow> memorySizeFunc" where
  "mem_size_const i len U st = with_back i st (\<lambda>off. Ok (calcMemSize64WithUint U off len))"

definition mem_size_max :: "memorySizeFunc \<Rightarrow> memorySizeFunc \<Rightarrow> memorySizeFunc" where
  "mem_size_max f g U st =
     bind_outcome (f U st) (\<lambda>(x, overflow).
       if overflow then Ok (0, True)
       else bind_outcome (g U st) (\<lambda>(y, overflow).
         if overflow then Ok (0, True) else if x > y then Ok (x, False) else Ok (y, False)))"

definition memoryKeccak256 :: memorySizeFunc where
  "memoryKeccak256 = mem_size_at 0 1"

definition memoryCallDataCopy :: memorySizeFunc where
  "memoryCallDataCopy = mem_size_at 0 2"

definition memoryReturnDataCopy :: memorySizeFunc where
  "memoryReturnDataCopy = mem_size_at 0 2"

definition memoryCodeCopy :: memorySizeFunc where
  "memoryCodeCopy = mem_size_at 0 2"

definition memoryExtCodeCopy :: memorySizeFunc where
  "memoryExtCodeCopy = mem_size_at 1 3"

definition memoryMLoad :: memorySizeFunc where
  "memoryMLoad = mem_size_const 0 32"

definition memoryMStore8 :: memorySizeFunc where
  "memoryMStore8 = mem_size_const 0 1"

definition memoryMStore :: memorySizeFunc where
  "memoryMStore = mem_size_const 0 32"

definition memoryCreate :: memorySizeFunc where
  "memoryCreate = mem_size_at 1 2"

definition memoryCreate2 :: memorySizeFunc where
  "memoryCreate2 = mem_size_at 1 2"

definition memoryCall :: memorySizeFunc where
  "memoryCall = mem_size_max (mem_size_at 5 6) (mem_size_at 3 4)"

definition memoryDelegateCall :: memorySizeFunc where
  "memoryDelegateCall = mem_size_max (mem_size_at 4 5) (mem_size_at 2 3)"

definition memoryStaticCall :: memorySizeFunc where
  "memoryStaticCall = mem_size_max (mem_size_at 4 5) (mem_size_at 2 3)"

definition memoryReturn :: memorySizeFunc where
  "memoryReturn = mem_size_at 0 1"

definition memoryRevert :: memorySizeFunc where
  "memoryRevert = mem_size_at 0 1"

definition memoryLog :: memorySizeFunc where
  "memoryLog = mem_size_at 0 1"

lemmas memory_table_defs =
  memoryKeccak256_def memoryCallDataCopy_def memoryReturnDataCopy_def memoryCodeCopy_def
  memoryExtCodeCopy_def memoryMLoad_def memoryMStore8_def memoryMStore_def memoryCreate_def
  memoryCreate2_def memoryCall_def memoryDelegateCall_def memoryStaticCall_def memoryReturn_def
  memoryRevert_def memoryLog_def

subsection \<open>\<open>gas_table.go\<close>\<close>

definition memoryGasCost :: "Memory \<Rightarrow> u64 \<Rightarrow> (vm_error + u64) \<times> Memory" where
  "memoryGasCost mem newMemSize =
     (if newMemSize = 0 then (Inr 0, mem)
      else if newMemSize > 0x1FFFFFFFE0 then (Inl ErrGasUintOverflow, mem)
      else
        let newMemSizeWords = toWordSize newMemSize; newMemSize = newMemSizeWords * 32 in
        if newMemSize > mem_len mem then
          let square = newMemSizeWords * newMemSizeWords;
              linCoef = newMemSizeWords * MemoryGas;
              quadCoef = square div QuadCoeffDiv;
              newTotalFee = linCoef + quadCoef;
              fee = newTotalFee - lastGasCost mem
          in (Inr fee, mem\<lparr>lastGasCost := newTotalFee\<rparr>)
        else (Inr 0, mem))"

type_synonym memGasFunc = "uint256_lib \<Rightarrow> stack \<Rightarrow> Memory \<Rightarrow> u64 \<Rightarrow> ((vm_error + u64) \<times> Memory) outcome"
type_synonym gasFunc =
  "vm_env \<Rightarrow> QRVM \<Rightarrow> Contract \<Rightarrow> stack \<Rightarrow> Memory \<Rightarrow> u64 \<Rightarrow> ((vm_error + u64) \<times> QRVM \<times> Contract \<times> Memory) outcome"

definition lift_gas :: "memGasFunc \<Rightarrow> gasFunc" where
  "lift_gas f E m c st mem memorySize =
     bind_outcome (f (e_U E) st mem memorySize) (\<lambda>(r, mem1). Ok (r, m, c, mem1))"

text \<open>Memory first, then a price that depends on one operand.\<close>

definition memory_and :: "nat \<Rightarrow> (u64 \<times> bool \<Rightarrow> u64 \<Rightarrow> vm_error + u64) \<Rightarrow> memGasFunc" where
  "memory_and stackpos f U st mem memorySize =
     (case memoryGasCost mem memorySize of
        (Inl err, mem1) \<Rightarrow> Ok (Inl err, mem1)
      | (Inr gas, mem1) \<Rightarrow>
          with_back stackpos st (\<lambda>x. Ok (f (u_Uint64WithOverflow U x) gas, mem1)))"

definition memoryCopierGas :: "nat \<Rightarrow> memGasFunc" where
  "memoryCopierGas stackpos =
     memory_and stackpos (\<lambda>(words, overflow) gas.
       if overflow then Inl ErrGasUintOverflow
       else bind_sum (mul_gas (toWordSize words) CopyGas) (\<lambda>words. add_gas gas words))"

definition gasCallDataCopy :: memGasFunc where
  "gasCallDataCopy = memoryCopierGas 2"

definition gasCodeCopy :: memGasFunc where
  "gasCodeCopy = memoryCopierGas 2"

definition gasExtCodeCopy :: memGasFunc where
  "gasExtCodeCopy = memoryCopierGas 3"

definition gasReturnDataCopy :: memGasFunc where
  "gasReturnDataCopy = memoryCopierGas 2"

definition makeGasLog :: "u64 \<Rightarrow> memGasFunc" where
  "makeGasLog n U st mem memorySize =
     with_back 1 st (\<lambda>x.
       let (requestedSize, overflow) = u_Uint64WithOverflow U x in
       if overflow then Ok (Inl ErrGasUintOverflow, mem)
       else
         case memoryGasCost mem memorySize of
           (Inl err, mem1) \<Rightarrow> Ok (Inl err, mem1)
         | (Inr gas, mem1) \<Rightarrow>
             Ok (bind_sum (add_gas gas LogGas) (\<lambda>gas.
                 bind_sum (add_gas gas (n * LogTopicGas)) (\<lambda>gas.
                 bind_sum (mul_gas requestedSize LogDataGas) (\<lambda>memorySizeGas.
                 add_gas gas memorySizeGas))), mem1))"

definition gasKeccak256 :: memGasFunc where
  "gasKeccak256 =
     memory_and 1 (\<lambda>(wordGas, overflow) gas.
       if overflow then Inl ErrGasUintOverflow
       else bind_sum (mul_gas (toWordSize wordGas) Keccak256WordGas) (\<lambda>wordGas. add_gas gas wordGas))"

definition pureMemoryGascost :: memGasFunc where
  "pureMemoryGascost U st mem memorySize = Ok (memoryGasCost mem memorySize)"

definition gasCreateEip3860 :: memGasFunc where
  "gasCreateEip3860 =
     memory_and 2 (\<lambda>(sz, overflow) gas.
       if overflow \<or> sz > word_of_nat MaxInitCodeSize then Inl ErrGasUintOverflow
       else add_gas gas (InitCodeWordGas * ((sz + 31) div 32)))"

definition gasCreate2Eip3860 :: memGasFunc where
  "gasCreate2Eip3860 =
     memory_and 2 (\<lambda>(sz, overflow) gas.
       if overflow \<or> sz > word_of_nat MaxInitCodeSize then Inl ErrGasUintOverflow
       else add_gas gas ((InitCodeWordGas + Keccak256WordGas) * ((sz + 31) div 32)))"

definition gasExpEIP158 :: memGasFunc where
  "gasExpEIP158 U st mem memorySize =
     with_back 1 st (\<lambda>x.
       let expByteLen = word_of_nat ((u_BitLen U x + 7) div 8); gas = expByteLen * ExpByteEIP158
       in Ok (add_gas gas ExpGas, mem))"

text \<open>The end of the three call functions: the gas to pass on, and the whole price.\<close>

definition forward_gas :: "u64 \<Rightarrow> gasFunc" where
  "forward_gas gas E m c st mem memorySize =
     with_back 0 st (\<lambda>x.
       let m1 = m\<lparr>m_callGasTemp := callGas (e_U E) (c_Gas c) gas x\<rparr>
       in Ok (add_gas gas (m_callGasTemp m1), m1, c, mem))"

definition gasCall :: gasFunc where
  "gasCall E m c st mem memorySize =
     with_back 2 st (\<lambda>val. with_back 1 st (\<lambda>a.
       let transfersValue = (\<not> u_IsZero (e_U E) val);
           address = u_Bytes20 (e_U E) a;
           (empty, s1) = (if transfersValue then Empty address (m_StateDB m) else (False, m_StateDB m));
           gas = (if transfersValue \<and> empty then CallNewAccountGas else 0);
           gas = (if transfersValue then gas + CallValueTransferGas else gas);
           m1 = m\<lparr>m_StateDB := s1\<rparr>
       in case memoryGasCost mem memorySize of
            (Inl err, mem1) \<Rightarrow> Ok (Inl err, m1, c, mem1)
          | (Inr memoryGas, mem1) \<Rightarrow>
              (case add_gas gas memoryGas of
                 Inl err \<Rightarrow> Ok (Inl err, m1, c, mem1)
               | Inr gas \<Rightarrow> forward_gas gas E m1 c st mem1 memorySize)))"

definition gasDelegateCall :: gasFunc where
  "gasDelegateCall E m c st mem memorySize =
     (case memoryGasCost mem memorySize of
        (Inl err, mem1) \<Rightarrow> Ok (Inl err, m, c, mem1)
      | (Inr gas, mem1) \<Rightarrow> forward_gas gas E m c st mem1 memorySize)"

definition gasStaticCall :: gasFunc where
  "gasStaticCall E m c st mem memorySize =
     (case memoryGasCost mem memorySize of
        (Inl err, mem1) \<Rightarrow> Ok (Inl err, m, c, mem1)
      | (Inr gas, mem1) \<Rightarrow> forward_gas gas E m c st mem1 memorySize)"

subsection \<open>\<open>operations_acl.go\<close>\<close>

definition makeGasSStoreFunc :: "u64 \<Rightarrow> gasFunc" where
  "makeGasSStoreFunc clearingRefund E m c st mem memorySize =
     (if c_Gas c \<le> SstoreSentryGasEIP2200 then Ok (Inl ErrReentrancySentry, m, c, mem)
      else with_back 1 st (\<lambda>y. with_back 0 st (\<lambda>x.
        let U = e_U E; self = c_self c; slot = u_Bytes32 U x;
            (current, s1) = GetState self slot (m_StateDB m);
            (addrPresent, slotPresent) = SlotInAccessList self slot s1;
            (cost, s2) = (if \<not> slotPresent then (ColdSloadCostEIP2929, AddSlotToAccessList self slot s1)
                          else (0, s1));
            val = u_Bytes32 U y;
            result = (\<lambda>gas s. Ok (Inr gas, m\<lparr>m_StateDB := s\<rparr>, c, mem))
        in
        if \<not> slotPresent \<and> \<not> addrPresent then Panic PanicAccessList
        else if current = val then result (cost + WarmStorageReadCostEIP2929) s2
        else
          let (original, s3) = GetCommittedState self (u_Bytes32 U x) s2 in
          if original = current then
            if original = 0 then result (cost + SstoreSetGasEIP2200) s3
            else result (cost + (SstoreResetGasEIP2200 - ColdSloadCostEIP2929))
                   (if val = 0 then AddRefund clearingRefund s3 else s3)
          else
            bind_outcome
              (if original \<noteq> 0 then
                 if current = 0 then of_option PanicRefund (SubRefund clearingRefund s3)
                 else if val = 0 then Ok (AddRefund clearingRefund s3) else Ok s3
               else Ok s3)
              (\<lambda>s4. result (cost + WarmStorageReadCostEIP2929)
                 (if original = val then
                    if original = 0
                    then AddRefund (SstoreSetGasEIP2200 - WarmStorageReadCostEIP2929) s4
                    else AddRefund ((SstoreResetGasEIP2200 - ColdSloadCostEIP2929)
                                      - WarmStorageReadCostEIP2929) s4
                  else s4)))))"

definition gasSStoreEIP3529 :: gasFunc where
  "gasSStoreEIP3529 = makeGasSStoreFunc SstoreClearsScheduleRefundEIP3529"

definition gasSLoadEIP2929 :: gasFunc where
  "gasSLoadEIP2929 E m c st mem memorySize =
     with_back 0 st (\<lambda>loc.
       let slot = u_Bytes32 (e_U E) loc; (addrPresent, slotPresent) = SlotInAccessList (c_self c) slot (m_StateDB m)
       in if \<not> slotPresent
          then Ok (Inr ColdSloadCostEIP2929,
                   m\<lparr>m_StateDB := AddSlotToAccessList (c_self c) slot (m_StateDB m)\<rparr>, c, mem)
          else Ok (Inr WarmStorageReadCostEIP2929, m, c, mem))"

definition gasExtCodeCopyEIP2929 :: gasFunc where
  "gasExtCodeCopyEIP2929 E m c st mem memorySize =
     bind_outcome (gasExtCodeCopy (e_U E) st mem memorySize) (\<lambda>(r, mem1).
       case r of
         Inl err \<Rightarrow> Ok (Inl err, m, c, mem1)
       | Inr gas \<Rightarrow>
           with_back 0 st (\<lambda>a.
             let addr = u_Bytes20 (e_U E) a in
             if \<not> AddressInAccessList addr (m_StateDB m)
             then Ok (add_gas gas (ColdAccountAccessCostEIP2929 - WarmStorageReadCostEIP2929),
                      m\<lparr>m_StateDB := AddAddressToAccessList addr (m_StateDB m)\<rparr>, c, mem1)
             else Ok (Inr gas, m, c, mem1)))"

definition gasEip2929AccountCheck :: gasFunc where
  "gasEip2929AccountCheck E m c st mem memorySize =
     with_back 0 st (\<lambda>a.
       let addr = u_Bytes20 (e_U E) a in
       if \<not> AddressInAccessList addr (m_StateDB m)
       then Ok (Inr (ColdAccountAccessCostEIP2929 - WarmStorageReadCostEIP2929),
                m\<lparr>m_StateDB := AddAddressToAccessList addr (m_StateDB m)\<rparr>, c, mem)
       else Ok (Inr 0, m, c, mem))"

definition makeCallVariantGasCallEIP2929 :: "gasFunc \<Rightarrow> gasFunc" where
  "makeCallVariantGasCallEIP2929 oldCalculator E m c st mem memorySize =
     with_back 1 st (\<lambda>a.
       let addr = u_Bytes20 (e_U E) a;
           warmAccess = AddressInAccessList addr (m_StateDB m);
           coldCost = ColdAccountAccessCostEIP2929 - WarmStorageReadCostEIP2929;
           m1 = (if \<not> warmAccess then m\<lparr>m_StateDB := AddAddressToAccessList addr (m_StateDB m)\<rparr> else m);
           (ok, c1) = (if \<not> warmAccess then UseGas coldCost c else (True, c))
       in
       if \<not> ok then Ok (Inl ErrOutOfGas, m1, c1, mem)
       else
         bind_outcome (oldCalculator E m1 c1 st mem memorySize) (\<lambda>(r, m2, c2, mem2).
           case r of
             Inl err \<Rightarrow> Ok (Inl err, m2, c2, mem2)
           | Inr gas \<Rightarrow>
               if warmAccess then Ok (Inr gas, m2, c2, mem2)
               else Ok (Inr (gas + coldCost), m2, c2\<lparr>c_Gas := c_Gas c2 + coldCost\<rparr>, mem2)))"

definition gasCallEIP2929 :: gasFunc where
  "gasCallEIP2929 = makeCallVariantGasCallEIP2929 gasCall"

definition gasDelegateCallEIP2929 :: gasFunc where
  "gasDelegateCallEIP2929 = makeCallVariantGasCallEIP2929 gasDelegateCall"

definition gasStaticCallEIP2929 :: gasFunc where
  "gasStaticCallEIP2929 = makeCallVariantGasCallEIP2929 gasStaticCall"

end
