(* ===== verification/Instructions.thy ===== *)
theory Instructions
  imports VMCalls VMGas
begin

text \<open>
  \<open>src/core/vm/instructions.go\<close> and the instructions of \<open>qips.go\<close>. An instruction gets the program
  counter, the machine and the scope of the contract (memory, stack, contract), and returns the
  result bytes, an error, and the new values of these. The combinators \<open>unop\<close>, \<open>binop\<close>, \<open>ternop\<close>
  and \<open>pushop\<close> hold the pattern of pops, peeks and pushes that most of them share.
\<close>

record ScopeContext =
  sc_Memory :: Memory
  sc_Stack :: stack
  sc_Contract :: Contract

type_synonym exec_result = "(bytes \<times> vm_error option \<times> u64 \<times> QRVM \<times> ScopeContext) outcome"
type_synonym executionFunc = "vm_env \<Rightarrow> runner \<Rightarrow> u64 \<Rightarrow> QRVM \<Rightarrow> ScopeContext \<Rightarrow> exec_result"

definition cont :: "u64 \<Rightarrow> QRVM \<Rightarrow> ScopeContext \<Rightarrow> exec_result" where
  "cont pc m sc = Ok ([], None, pc, m, sc)"

definition fail :: "vm_error \<Rightarrow> u64 \<Rightarrow> QRVM \<Rightarrow> ScopeContext \<Rightarrow> exec_result" where
  "fail err pc m sc = Ok ([], Some err, pc, m, sc)"

definition unop :: "(uint256_lib \<Rightarrow> u256 \<Rightarrow> u256) \<Rightarrow> executionFunc" where
  "unop f E run pc m sc =
     (case sc_Stack sc of
        x # st \<Rightarrow> cont pc m (sc\<lparr>sc_Stack := f (e_U E) x # st\<rparr>)
      | _ \<Rightarrow> Panic PanicStack)"

definition binop :: "(uint256_lib \<Rightarrow> u256 \<Rightarrow> u256 \<Rightarrow> u256) \<Rightarrow> executionFunc" where
  "binop f E run pc m sc =
     (case sc_Stack sc of
        x # y # st \<Rightarrow> cont pc m (sc\<lparr>sc_Stack := f (e_U E) x y # st\<rparr>)
      | _ \<Rightarrow> Panic PanicStack)"

definition ternop :: "(uint256_lib \<Rightarrow> u256 \<Rightarrow> u256 \<Rightarrow> u256 \<Rightarrow> u256) \<Rightarrow> executionFunc" where
  "ternop f E run pc m sc =
     (case sc_Stack sc of
        x # y # z # st \<Rightarrow> cont pc m (sc\<lparr>sc_Stack := f (e_U E) x y z # st\<rparr>)
      | _ \<Rightarrow> Panic PanicStack)"

definition pushop :: "(vm_env \<Rightarrow> u64 \<Rightarrow> QRVM \<Rightarrow> ScopeContext \<Rightarrow> u256) \<Rightarrow> executionFunc" where
  "pushop f E run pc m sc = cont pc m (sc\<lparr>sc_Stack := stack_push (f E pc m sc) (sc_Stack sc)\<rparr>)"

definition bool_word :: "bool \<Rightarrow> u256" where
  "bool_word b = (if b then 1 else 0)"

subsection \<open>Arithmetic, comparison and bitwise logic\<close>

definition opAdd :: executionFunc where "opAdd = binop u_Add"

definition opSub :: executionFunc where "opSub = binop u_Sub"

definition opMul :: executionFunc where "opMul = binop u_Mul"

definition opDiv :: executionFunc where "opDiv = binop u_Div"

definition opSdiv :: executionFunc where "opSdiv = binop u_SDiv"

definition opMod :: executionFunc where "opMod = binop u_Mod"

definition opSmod :: executionFunc where "opSmod = binop u_SMod"

definition opExp :: executionFunc where "opExp = binop u_Exp"

definition opSignExtend :: executionFunc where
  "opSignExtend = binop (\<lambda>U back num. u_ExtendSign U num back)"

definition opNot :: executionFunc where "opNot = unop u_Not"

definition opLt :: executionFunc where "opLt = binop (\<lambda>U x y. bool_word (u_Lt U x y))"

definition opGt :: executionFunc where "opGt = binop (\<lambda>U x y. bool_word (u_Gt U x y))"

definition opSlt :: executionFunc where "opSlt = binop (\<lambda>U x y. bool_word (u_Slt U x y))"

definition opSgt :: executionFunc where "opSgt = binop (\<lambda>U x y. bool_word (u_Sgt U x y))"

definition opEq :: executionFunc where "opEq = binop (\<lambda>U x y. bool_word (u_Eq U x y))"

definition opIszero :: executionFunc where "opIszero = unop (\<lambda>U x. bool_word (u_IsZero U x))"

definition opAnd :: executionFunc where "opAnd = binop u_And"

definition opOr :: executionFunc where "opOr = binop u_Or"

definition opXor :: executionFunc where "opXor = binop u_Xor"

definition opByte :: executionFunc where "opByte = binop (\<lambda>U th val. u_Byte U val th)"

definition opAddmod :: executionFunc where
  "opAddmod = ternop (\<lambda>U x y z. if u_IsZero U z then 0 else u_AddMod U x y z)"

definition opMulmod :: executionFunc where "opMulmod = ternop u_MulMod"

definition opSHL :: executionFunc where
  "opSHL = binop (\<lambda>U shift val.
     if u_LtUint64 U shift 256 then u_Lsh U val (unat (u_Uint64 U shift)) else 0)"

definition opSHR :: executionFunc where
  "opSHR = binop (\<lambda>U shift val.
     if u_LtUint64 U shift 256 then u_Rsh U val (unat (u_Uint64 U shift)) else 0)"

definition opSAR :: executionFunc where
  "opSAR = binop (\<lambda>U shift val.
     if u_GtUint64 U shift 256 then if u_Sign U val \<ge> 0 then 0 else - 1
     else u_SRsh U val (unat (u_Uint64 U shift)))"

subsection \<open>Memory and hashing\<close>

text \<open>\<open>GetPtr(int64(off.Uint64()), int64(size.Uint64()))\<close>, and the same with \<open>GetCopy\<close>.\<close>

definition get_ptr :: "uint256_lib \<Rightarrow> u256 \<Rightarrow> u256 \<Rightarrow> Memory \<Rightarrow> bytes outcome" where
  "get_ptr U off sz mem = of_option PanicMemory (mem_GetPtr (sint (u_Uint64 U off)) (sint (u_Uint64 U sz)) mem)"

definition get_copy :: "uint256_lib \<Rightarrow> u256 \<Rightarrow> u256 \<Rightarrow> Memory \<Rightarrow> bytes outcome" where
  "get_copy U off sz mem = of_option PanicMemory (mem_GetCopy (sint (u_Uint64 U off)) (sint (u_Uint64 U sz)) mem)"

definition opKeccak256 :: executionFunc where
  "opKeccak256 E run pc m sc =
     (case sc_Stack sc of
        off # sz # st \<Rightarrow>
          bind_outcome (get_ptr (e_U E) off sz (sc_Memory sc)) (\<lambda>data.
            let h = e_Keccak256 E data;
                m1 = (if e_EnablePreimageRecording E
                      then m\<lparr>m_StateDB := AddPreimage h data (m_StateDB m)\<rparr> else m)
            in cont pc m1 (sc\<lparr>sc_Stack := u_SetBytes (e_U E) (hash_bytes h) # st\<rparr>))
      | _ \<Rightarrow> Panic PanicStack)"

definition opMload :: executionFunc where
  "opMload E run pc m sc =
     (case sc_Stack sc of
        v # st \<Rightarrow>
          bind_outcome (of_option PanicMemory (mem_GetPtr (sint (u_Uint64 (e_U E) v)) 32 (sc_Memory sc)))
            (\<lambda>data. cont pc m (sc\<lparr>sc_Stack := u_SetBytes (e_U E) data # st\<rparr>))
      | _ \<Rightarrow> Panic PanicStack)"

definition opMstore :: executionFunc where
  "opMstore E run pc m sc =
     (case sc_Stack sc of
        mStart # val # st \<Rightarrow>
          bind_outcome
            (of_option PanicMemory (mem_Set32 (e_U E) (u_Uint64 (e_U E) mStart) val (sc_Memory sc)))
            (\<lambda>mem. cont pc m (sc\<lparr>sc_Stack := st, sc_Memory := mem\<rparr>))
      | _ \<Rightarrow> Panic PanicStack)"

definition opMstore8 :: executionFunc where
  "opMstore8 E run pc m sc =
     (case sc_Stack sc of
        off # val # st \<Rightarrow>
          let i = unat (u_Uint64 (e_U E) off); mem = sc_Memory sc in
          if i < length (store mem)
          then cont pc m (sc\<lparr>sc_Stack := st,
                 sc_Memory := mem\<lparr>store := (store mem)[i := ucast (u_Uint64 (e_U E) val)]\<rparr>\<rparr>)
          else Panic PanicMemory
      | _ \<Rightarrow> Panic PanicStack)"

subsection \<open>The environment of the contract\<close>

definition opAddress :: executionFunc where
  "opAddress = pushop (\<lambda>E pc m sc. u_SetBytes (e_U E) (address_bytes (c_self (sc_Contract sc))))"

definition opBalance :: executionFunc where
  "opBalance E run pc m sc =
     (case sc_Stack sc of
        slot # st \<Rightarrow>
          let (balance, s1) = GetBalance (u_Bytes20 (e_U E) slot) (m_StateDB m)
          in cont pc (m\<lparr>m_StateDB := s1\<rparr>) (sc\<lparr>sc_Stack := u_FromBig (e_U E) balance # st\<rparr>)
      | _ \<Rightarrow> Panic PanicStack)"

definition opOrigin :: executionFunc where
  "opOrigin = pushop (\<lambda>E pc m sc. u_SetBytes (e_U E) (address_bytes (tx_Origin (e_TxContext E))))"

definition opCaller :: executionFunc where
  "opCaller = pushop (\<lambda>E pc m sc. u_SetBytes (e_U E) (address_bytes (c_CallerAddress (sc_Contract sc))))"

definition opCallValue :: executionFunc where
  "opCallValue = pushop (\<lambda>E pc m sc. u_FromBig (e_U E) (c_value (sc_Contract sc)))"

definition opCallDataLoad :: executionFunc where
  "opCallDataLoad E run pc m sc =
     (case sc_Stack sc of
        x # st \<Rightarrow>
          let (off, overflow) = u_Uint64WithOverflow (e_U E) x in
          if \<not> overflow then
            bind_outcome (get_data (c_Input (sc_Contract sc)) off 32)
              (\<lambda>data. cont pc m (sc\<lparr>sc_Stack := u_SetBytes (e_U E) data # st\<rparr>))
          else cont pc m (sc\<lparr>sc_Stack := 0 # st\<rparr>)
      | _ \<Rightarrow> Panic PanicStack)"

definition opCallDataSize :: executionFunc where
  "opCallDataSize = pushop (\<lambda>E pc m sc. u_SetUint64 (e_U E) (word_of_nat (length (c_Input (sc_Contract sc)))))"

text \<open>The common part of the instructions that copy a range of bytes to memory.\<close>

definition copy_data :: "uint256_lib \<Rightarrow> bytes \<Rightarrow> u256 \<Rightarrow> u256 \<Rightarrow> u256 \<Rightarrow> Memory \<Rightarrow> Memory outcome" where
  "copy_data U data memOffset dataOffset len mem =
     (let (off, overflow) = u_Uint64WithOverflow U dataOffset;
          dataOffset64 = (if overflow then MaxUint64 else off)
      in bind_outcome (get_data data dataOffset64 (u_Uint64 U len))
           (\<lambda>d. of_option PanicMemory (mem_Set (u_Uint64 U memOffset) (u_Uint64 U len) d mem)))"

definition opCallDataCopy :: executionFunc where
  "opCallDataCopy E run pc m sc =
     (case sc_Stack sc of
        memOffset # dataOffset # len # st \<Rightarrow>
          bind_outcome (copy_data (e_U E) (c_Input (sc_Contract sc)) memOffset dataOffset len (sc_Memory sc))
            (\<lambda>mem. cont pc m (sc\<lparr>sc_Stack := st, sc_Memory := mem\<rparr>))
      | _ \<Rightarrow> Panic PanicStack)"

definition opReturnDataSize :: executionFunc where
  "opReturnDataSize = pushop (\<lambda>E pc m sc. u_SetUint64 (e_U E) (word_of_nat (length (m_returnData m))))"

definition opReturnDataCopy :: executionFunc where
  "opReturnDataCopy E run pc m sc =
     (case sc_Stack sc of
        memOffset # dataOffset # len # st \<Rightarrow>
          let U = e_U E; sc1 = sc\<lparr>sc_Stack := st\<rparr>; (offset64, overflow) = u_Uint64WithOverflow U dataOffset in
          if overflow then fail ErrReturnDataOutOfBounds pc m sc1
          else
            let (end64, overflow) = u_Uint64WithOverflow U (u_Add U dataOffset len) in
            if overflow \<or> word_of_nat (length (m_returnData m)) < end64
            then fail ErrReturnDataOutOfBounds pc m sc1
            else if offset64 > end64 then Panic PanicSlice
            else
              bind_outcome
                (of_option PanicMemory (mem_Set (u_Uint64 U memOffset) (u_Uint64 U len)
                  (take (unat end64 - unat offset64) (drop (unat offset64) (m_returnData m))) (sc_Memory sc)))
                (\<lambda>mem. cont pc m (sc1\<lparr>sc_Memory := mem\<rparr>))
      | _ \<Rightarrow> Panic PanicStack)"

definition opExtCodeSize :: executionFunc where
  "opExtCodeSize E run pc m sc =
     (case sc_Stack sc of
        slot # st \<Rightarrow>
          let (n, s1) = GetCodeSize (u_Bytes20 (e_U E) slot) (m_StateDB m)
          in cont pc (m\<lparr>m_StateDB := s1\<rparr>) (sc\<lparr>sc_Stack := u_SetUint64 (e_U E) (word_of_nat n) # st\<rparr>)
      | _ \<Rightarrow> Panic PanicStack)"

definition opCodeSize :: executionFunc where
  "opCodeSize = pushop (\<lambda>E pc m sc. u_SetUint64 (e_U E) (word_of_nat (length (c_Code (sc_Contract sc)))))"

definition opCodeCopy :: executionFunc where
  "opCodeCopy E run pc m sc =
     (case sc_Stack sc of
        memOffset # codeOffset # len # st \<Rightarrow>
          bind_outcome (copy_data (e_U E) (c_Code (sc_Contract sc)) memOffset codeOffset len (sc_Memory sc))
            (\<lambda>mem. cont pc m (sc\<lparr>sc_Stack := st, sc_Memory := mem\<rparr>))
      | _ \<Rightarrow> Panic PanicStack)"

definition opExtCodeCopy :: executionFunc where
  "opExtCodeCopy E run pc m sc =
     (case sc_Stack sc of
        a # memOffset # codeOffset # len # st \<Rightarrow>
          let (code, s1) = GetCode (u_Bytes20 (e_U E) a) (m_StateDB m) in
          bind_outcome (copy_data (e_U E) code memOffset codeOffset len (sc_Memory sc))
            (\<lambda>mem. cont pc (m\<lparr>m_StateDB := s1\<rparr>) (sc\<lparr>sc_Stack := st, sc_Memory := mem\<rparr>))
      | _ \<Rightarrow> Panic PanicStack)"

definition opExtCodeHash :: executionFunc where
  "opExtCodeHash E run pc m sc =
     (case sc_Stack sc of
        slot # st \<Rightarrow>
          let address = u_Bytes20 (e_U E) slot; (empty, s1) = Empty address (m_StateDB m) in
          if empty then cont pc (m\<lparr>m_StateDB := s1\<rparr>) (sc\<lparr>sc_Stack := 0 # st\<rparr>)
          else
            let (h, s2) = GetCodeHash address s1
            in cont pc (m\<lparr>m_StateDB := s2\<rparr>) (sc\<lparr>sc_Stack := u_SetBytes (e_U E) (hash_bytes h) # st\<rparr>)
      | _ \<Rightarrow> Panic PanicStack)"

subsection \<open>The block and the transaction\<close>

definition opGasprice :: executionFunc where
  "opGasprice = pushop (\<lambda>E pc m sc. u_FromBig (e_U E) (tx_GasPrice (e_TxContext E)))"

definition opBlockhash :: executionFunc where
  "opBlockhash E run pc m sc =
     (case sc_Stack sc of
        num # st \<Rightarrow>
          let (num64, overflow) = u_Uint64WithOverflow (e_U E) num in
          if overflow then cont pc m (sc\<lparr>sc_Stack := 0 # st\<rparr>)
          else
            let upper = word_of_int (ctx_BlockNumber (e_Context E));
                lower = (if upper < 257 then 0 else upper - 256)
            in if num64 \<ge> lower \<and> num64 < upper
               then cont pc m (sc\<lparr>sc_Stack :=
                      u_SetBytes (e_U E) (hash_bytes (ctx_GetHash (e_Context E) num64)) # st\<rparr>)
               else cont pc m (sc\<lparr>sc_Stack := 0 # st\<rparr>)
      | _ \<Rightarrow> Panic PanicStack)"

definition opCoinbase :: executionFunc where
  "opCoinbase = pushop (\<lambda>E pc m sc. u_SetBytes (e_U E) (address_bytes (ctx_Coinbase (e_Context E))))"

definition opTimestamp :: executionFunc where
  "opTimestamp = pushop (\<lambda>E pc m sc. u_SetUint64 (e_U E) (ctx_Time (e_Context E)))"

definition opNumber :: executionFunc where
  "opNumber = pushop (\<lambda>E pc m sc. u_FromBig (e_U E) (ctx_BlockNumber (e_Context E)))"

definition opRandom :: executionFunc where
  "opRandom E run pc m sc =
     (case ctx_Random (e_Context E) of
        None \<Rightarrow> Panic PanicNil
      | Some r \<Rightarrow> pushop (\<lambda>E pc m sc. u_SetBytes (e_U E) (hash_bytes r)) E run pc m sc)"

definition opGasLimit :: executionFunc where
  "opGasLimit = pushop (\<lambda>E pc m sc. u_SetUint64 (e_U E) (ctx_GasLimit (e_Context E)))"

definition opSelfBalance :: executionFunc where
  "opSelfBalance E run pc m sc =
     (let (balance, s1) = GetBalance (c_self (sc_Contract sc)) (m_StateDB m)
      in pushop (\<lambda>E pc m sc. u_FromBig (e_U E) balance) E run pc (m\<lparr>m_StateDB := s1\<rparr>) sc)"

definition opChainID :: executionFunc where
  "opChainID = pushop (\<lambda>E pc m sc. u_FromBig (e_U E) (e_ChainID E))"

text \<open>\<open>uint256.FromBig\<close> returns nil for nil, and the push dereferences it.\<close>

definition opBaseFee :: executionFunc where
  "opBaseFee E run pc m sc =
     (case ctx_BaseFee (e_Context E) of
        None \<Rightarrow> Panic PanicNil
      | Some baseFee \<Rightarrow> pushop (\<lambda>E pc m sc. u_FromBig (e_U E) baseFee) E run pc m sc)"

subsection \<open>Stack, storage and flow of control\<close>

definition opPush0 :: executionFunc where
  "opPush0 = pushop (\<lambda>E pc m sc. 0)"

definition opPop :: executionFunc where
  "opPop E run pc m sc =
     (case sc_Stack sc of x # st \<Rightarrow> cont pc m (sc\<lparr>sc_Stack := st\<rparr>) | _ \<Rightarrow> Panic PanicStack)"

definition opSload :: executionFunc where
  "opSload E run pc m sc =
     (case sc_Stack sc of
        loc # st \<Rightarrow>
          let (val, s1) = GetState (c_self (sc_Contract sc)) (u_Bytes32 (e_U E) loc) (m_StateDB m)
          in cont pc (m\<lparr>m_StateDB := s1\<rparr>) (sc\<lparr>sc_Stack := u_SetBytes (e_U E) (hash_bytes val) # st\<rparr>)
      | _ \<Rightarrow> Panic PanicStack)"

definition opSstore :: executionFunc where
  "opSstore E run pc m sc =
     (if m_readOnly m then fail ErrWriteProtection pc m sc
      else
        case sc_Stack sc of
          loc # val # st \<Rightarrow>
            cont pc (m\<lparr>m_StateDB := SetState (c_self (sc_Contract sc)) (u_Bytes32 (e_U E) loc)
                       (u_Bytes32 (e_U E) val) (m_StateDB m)\<rparr>) (sc\<lparr>sc_Stack := st\<rparr>)
        | _ \<Rightarrow> Panic PanicStack)"

definition load_abort :: "vm_env \<Rightarrow> QRVM \<Rightarrow> bool \<times> QRVM" where
  "load_abort E m = (e_abort E (m_loads m), m\<lparr>m_loads := Suc (m_loads m)\<rparr>)"

definition jump_to :: "u256 \<Rightarrow> vm_env \<Rightarrow> u64 \<Rightarrow> QRVM \<Rightarrow> ScopeContext \<Rightarrow> exec_result" where
  "jump_to pos E pc m sc =
     bind_outcome (validJumpdest (e_U E) pos (sc_Contract sc) m) (\<lambda>(valid, c, m1).
       let sc1 = sc\<lparr>sc_Contract := c\<rparr> in
       if \<not> valid then fail ErrInvalidJump pc m1 sc1
       else cont (u_Uint64 (e_U E) pos - 1) m1 sc1)"

definition opJump :: executionFunc where
  "opJump E run pc m sc =
     (let (aborted, m1) = load_abort E m in
      if aborted then fail errStopToken pc m1 sc
      else
        case sc_Stack sc of
          pos # st \<Rightarrow> jump_to pos E pc m1 (sc\<lparr>sc_Stack := st\<rparr>)
        | _ \<Rightarrow> Panic PanicStack)"

definition opJumpi :: executionFunc where
  "opJumpi E run pc m sc =
     (let (aborted, m1) = load_abort E m in
      if aborted then fail errStopToken pc m1 sc
      else
        case sc_Stack sc of
          pos # cond # st \<Rightarrow>
            if \<not> u_IsZero (e_U E) cond then jump_to pos E pc m1 (sc\<lparr>sc_Stack := st\<rparr>)
            else cont pc m1 (sc\<lparr>sc_Stack := st\<rparr>)
        | _ \<Rightarrow> Panic PanicStack)"

definition opJumpdest :: executionFunc where
  "opJumpdest E run pc m sc = cont pc m sc"

definition opPc :: executionFunc where
  "opPc = pushop (\<lambda>E pc m sc. u_SetUint64 (e_U E) pc)"

definition opMsize :: executionFunc where
  "opMsize = pushop (\<lambda>E pc m sc. u_SetUint64 (e_U E) (mem_len (sc_Memory sc)))"

definition opGas :: executionFunc where
  "opGas = pushop (\<lambda>E pc m sc. u_SetUint64 (e_U E) (c_Gas (sc_Contract sc)))"

definition opReturn :: executionFunc where
  "opReturn E run pc m sc =
     (case sc_Stack sc of
        off # sz # st \<Rightarrow>
          bind_outcome (get_ptr (e_U E) off sz (sc_Memory sc))
            (\<lambda>ret. Ok (ret, Some errStopToken, pc, m, sc\<lparr>sc_Stack := st\<rparr>))
      | _ \<Rightarrow> Panic PanicStack)"

definition opRevert :: executionFunc where
  "opRevert E run pc m sc =
     (case sc_Stack sc of
        off # sz # st \<Rightarrow>
          bind_outcome (get_ptr (e_U E) off sz (sc_Memory sc))
            (\<lambda>ret. Ok (ret, Some ErrExecutionReverted, pc, m\<lparr>m_returnData := ret\<rparr>, sc\<lparr>sc_Stack := st\<rparr>))
      | _ \<Rightarrow> Panic PanicStack)"

definition opUndefined :: executionFunc where
  "opUndefined E run pc m sc =
     (let code = c_Code (sc_Contract sc) in
      if unat pc < length code then fail (ErrInvalidOpCode (code ! unat pc)) pc m sc else Panic PanicSlice)"

definition opStop :: executionFunc where
  "opStop E run pc m sc = fail errStopToken pc m sc"

definition makeLog :: "nat \<Rightarrow> executionFunc" where
  "makeLog n E run pc m sc =
     (if m_readOnly m then fail ErrWriteProtection pc m sc
      else
        case sc_Stack sc of
          mStart # mSize # st \<Rightarrow>
            if length st < n then Panic PanicStack
            else
              bind_outcome (get_copy (e_U E) mStart mSize (sc_Memory sc)) (\<lambda>d.
                let l = \<lparr>log_Address = c_self (sc_Contract sc),
                         log_Topics = map (u_Bytes32 (e_U E)) (take n st), log_Data = d,
                         log_BlockNumber = word_of_int (ctx_BlockNumber (e_Context E)), log_TxHash = 0,
                         log_TxIndex = 0, log_BlockHash = 0, log_Index = 0\<rparr>
                in cont pc (m\<lparr>m_StateDB := AddLog l (m_StateDB m)\<rparr>) (sc\<lparr>sc_Stack := drop n st\<rparr>))
        | _ \<Rightarrow> Panic PanicStack)"

definition opPush1 :: executionFunc where
  "opPush1 E run pc m sc =
     (let code = c_Code (sc_Contract sc); pc = pc + 1;
          integer = (if pc < word_of_nat (length code) then u_SetUint64 (e_U E) (ucast (code ! unat pc)) else 0)
      in cont pc m (sc\<lparr>sc_Stack := stack_push integer (sc_Stack sc)\<rparr>))"

definition makePush :: "u64 \<Rightarrow> nat \<Rightarrow> executionFunc" where
  "makePush sz pushByteSize E run pc m sc =
     (let code = c_Code (sc_Contract sc); codeLen = int (length code);
          startMin = min (sint (pc + 1)) codeLen;
          endMin = min (startMin + int pushByteSize) codeLen
      in if startMin < 0 then Panic PanicSlice
         else
           let integer = u_SetBytes (e_U E)
                 (RightPadBytes (take (nat endMin - nat startMin) (drop (nat startMin) code)) (int pushByteSize))
           in cont (pc + sz) m (sc\<lparr>sc_Stack := stack_push integer (sc_Stack sc)\<rparr>))"

definition makeDup :: "nat \<Rightarrow> executionFunc" where
  "makeDup n E run pc m sc =
     bind_outcome (of_option PanicStack (stack_dup n (sc_Stack sc)))
       (\<lambda>st. cont pc m (sc\<lparr>sc_Stack := st\<rparr>))"

definition makeSwap :: "nat \<Rightarrow> executionFunc" where
  "makeSwap n E run pc m sc =
     bind_outcome (of_option PanicStack (stack_swap (n + 1) (sc_Stack sc)))
       (\<lambda>st. cont pc m (sc\<lparr>sc_Stack := st\<rparr>))"

subsection \<open>Creating and calling contracts\<close>

text \<open>What the two creating instructions do with the result; they differ only in the address.\<close>

definition after_create :: "u64 \<Rightarrow> stack \<Rightarrow> Contract \<Rightarrow> ScopeContext \<Rightarrow> vm_env \<Rightarrow>
    bytes \<times> address \<times> u64 \<times> vm_error option \<times> QRVM \<Rightarrow> exec_result" where
  "after_create pc st c sc E = (\<lambda>(res, addr, returnGas, suberr, m).
     let stackvalue = (if suberr \<noteq> None then 0 else u_SetBytes (e_U E) (address_bytes addr));
         sc1 = sc\<lparr>sc_Stack := stack_push stackvalue st, sc_Contract := c\<lparr>c_Gas := c_Gas c + returnGas\<rparr>\<rparr>
     in if suberr = Some ErrExecutionReverted
        then Ok (res, None, pc, m\<lparr>m_returnData := res\<rparr>, sc1)
        else Ok ([], None, pc, m\<lparr>m_returnData := []\<rparr>, sc1))"

definition opCreate :: executionFunc where
  "opCreate E run pc m sc =
     (if m_readOnly m then fail ErrWriteProtection pc m sc
      else
        case sc_Stack sc of
          val # off # sz # st \<Rightarrow>
            bind_outcome (get_copy (e_U E) off sz (sc_Memory sc)) (\<lambda>input.
              let c = sc_Contract sc;
                  gas = c_Gas c - c_Gas c div 64;
                  c1 = snd (UseGas gas c);
                  bigVal = (if \<not> u_IsZero (e_U E) val then u_ToBig (e_U E) val else 0)
              in bind_outcome (Create E run (ContractOf c1) input gas bigVal m)
                   (after_create pc st c1 sc E))
        | _ \<Rightarrow> Panic PanicStack)"

definition opCreate2 :: executionFunc where
  "opCreate2 E run pc m sc =
     (if m_readOnly m then fail ErrWriteProtection pc m sc
      else
        case sc_Stack sc of
          endowment # off # sz # salt # st \<Rightarrow>
            bind_outcome (get_copy (e_U E) off sz (sc_Memory sc)) (\<lambda>input.
              let c = sc_Contract sc;
                  gas = c_Gas c - c_Gas c div 64;
                  c1 = snd (UseGas gas c);
                  bigEndowment = (if \<not> u_IsZero (e_U E) endowment then u_ToBig (e_U E) endowment else 0)
              in bind_outcome (Create2 E run (ContractOf c1) input gas bigEndowment salt m)
                   (after_create pc st c1 sc E))
        | _ \<Rightarrow> Panic PanicStack)"

definition after_call :: "u64 \<Rightarrow> stack \<Rightarrow> u256 \<Rightarrow> u256 \<Rightarrow> ScopeContext \<Rightarrow> vm_env \<Rightarrow>
    bytes \<times> u64 \<times> vm_error option \<times> QRVM \<Rightarrow> exec_result" where
  "after_call pc st retOffset retSize sc E = (\<lambda>(ret, returnGas, err, m).
     let temp = bool_word (err = None); c = sc_Contract sc in
     bind_outcome
       (if err = None \<or> err = Some ErrExecutionReverted
        then of_option PanicMemory
               (mem_Set (u_Uint64 (e_U E) retOffset) (u_Uint64 (e_U E) retSize) ret (sc_Memory sc))
        else Ok (sc_Memory sc))
       (\<lambda>mem. Ok (ret, None, pc, m\<lparr>m_returnData := ret\<rparr>,
          sc\<lparr>sc_Stack := stack_push temp st, sc_Memory := mem,
             sc_Contract := c\<lparr>c_Gas := c_Gas c + returnGas\<rparr>\<rparr>)))"

definition opCall :: executionFunc where
  "opCall E run pc m sc =
     (case sc_Stack sc of
        temp # addr # val # inOffset # inSize # retOffset # retSize # st \<Rightarrow>
          bind_outcome (get_ptr (e_U E) inOffset inSize (sc_Memory sc)) (\<lambda>args.
            if m_readOnly m \<and> \<not> u_IsZero (e_U E) val then fail ErrWriteProtection pc m (sc\<lparr>sc_Stack := st\<rparr>)
            else
              let transfers = \<not> u_IsZero (e_U E) val;
                  gas = (if transfers then m_callGasTemp m + CallStipend else m_callGasTemp m);
                  bigVal = (if transfers then u_ToBig (e_U E) val else 0)
              in bind_outcome
                   (Call E run (ContractOf (sc_Contract sc)) (u_Bytes20 (e_U E) addr) args gas bigVal m)
                   (after_call pc st retOffset retSize sc E))
      | _ \<Rightarrow> Panic PanicStack)"

definition opDelegateCall :: executionFunc where
  "opDelegateCall E run pc m sc =
     (case sc_Stack sc of
        temp # addr # inOffset # inSize # retOffset # retSize # st \<Rightarrow>
          bind_outcome (get_ptr (e_U E) inOffset inSize (sc_Memory sc)) (\<lambda>args.
            bind_outcome
              (DelegateCall E run (ContractOf (sc_Contract sc)) (u_Bytes20 (e_U E) addr) args (m_callGasTemp m) m)
              (after_call pc st retOffset retSize sc E))
      | _ \<Rightarrow> Panic PanicStack)"

definition opStaticCall :: executionFunc where
  "opStaticCall E run pc m sc =
     (case sc_Stack sc of
        temp # addr # inOffset # inSize # retOffset # retSize # st \<Rightarrow>
          bind_outcome (get_ptr (e_U E) inOffset inSize (sc_Memory sc)) (\<lambda>args.
            bind_outcome
              (StaticCall E run (ContractOf (sc_Contract sc)) (u_Bytes20 (e_U E) addr) args (m_callGasTemp m) m)
              (after_call pc st retOffset retSize sc E))
      | _ \<Rightarrow> Panic PanicStack)"

lemmas pure_op_defs =
  opAdd_def opSub_def opMul_def opDiv_def opSdiv_def opMod_def opSmod_def opExp_def opSignExtend_def
  opNot_def opLt_def opGt_def opSlt_def opSgt_def opEq_def opIszero_def opAnd_def opOr_def opXor_def
  opByte_def opAddmod_def opMulmod_def opSHL_def opSHR_def opSAR_def opAddress_def opOrigin_def
  opCaller_def opCallValue_def opCallDataSize_def opReturnDataSize_def opCodeSize_def opGasprice_def
  opCoinbase_def opTimestamp_def opNumber_def opGasLimit_def opChainID_def opPush0_def opPc_def
  opMsize_def opGas_def

lemmas gas_variant_defs = gasCallEIP2929_def gasDelegateCallEIP2929_def gasStaticCallEIP2929_def

end
