(* ===== verification/JumpTable.thy ===== *)
theory JumpTable
  imports Instructions
begin

text \<open>
  \<open>src/core/vm/jump_table.go\<close>: what each opcode executes, costs and requires of the stack. The
  entries are given as association lists, in the order of the source.
\<close>

record operation =
  op_execute :: executionFunc
  op_constantGas :: u64
  op_dynamicGas :: "gasFunc option"
  op_minStack :: nat
  op_maxStack :: nat
  op_memorySize :: "memorySizeFunc option"

text \<open>Entries with a constant price, with a price computed at run time, and with memory.\<close>

definition simple_op :: "executionFunc \<Rightarrow> u64 \<Rightarrow> nat \<Rightarrow> nat \<Rightarrow> operation" where
  "simple_op f gas pops push =
     \<lparr>op_execute = f, op_constantGas = gas, op_dynamicGas = None, op_minStack = minStack pops push,
      op_maxStack = maxStack pops push, op_memorySize = None\<rparr>"

definition dyn_op :: "executionFunc \<Rightarrow> u64 \<Rightarrow> gasFunc \<Rightarrow> nat \<Rightarrow> nat \<Rightarrow> operation" where
  "dyn_op f gas dyn pops push =
     \<lparr>op_execute = f, op_constantGas = gas, op_dynamicGas = Some dyn, op_minStack = minStack pops push,
      op_maxStack = maxStack pops push, op_memorySize = None\<rparr>"

definition mem_op :: "executionFunc \<Rightarrow> u64 \<Rightarrow> gasFunc \<Rightarrow> nat \<Rightarrow> nat \<Rightarrow> memorySizeFunc \<Rightarrow> operation" where
  "mem_op f gas dyn pops push ms =
     \<lparr>op_execute = f, op_constantGas = gas, op_dynamicGas = Some dyn, op_minStack = minStack pops push,
      op_maxStack = maxStack pops push, op_memorySize = Some ms\<rparr>"

definition table_arithmetic :: "(byte \<times> operation) list" where
  "table_arithmetic = [
     (0x00, simple_op opStop 0 0 0),
     (0x01, simple_op opAdd GasFastestStep 2 1),
     (0x02, simple_op opMul GasFastStep 2 1),
     (0x03, simple_op opSub GasFastestStep 2 1),
     (0x04, simple_op opDiv GasFastStep 2 1),
     (0x05, simple_op opSdiv GasFastStep 2 1),
     (0x06, simple_op opMod GasFastStep 2 1),
     (0x07, simple_op opSmod GasFastStep 2 1),
     (0x08, simple_op opAddmod GasMidStep 3 1),
     (0x09, simple_op opMulmod GasMidStep 3 1),
     (0x0a, dyn_op opExp 0 (lift_gas gasExpEIP158) 2 1),
     (0x0b, simple_op opSignExtend GasFastStep 2 1),
     (0x10, simple_op opLt GasFastestStep 2 1),
     (0x11, simple_op opGt GasFastestStep 2 1),
     (0x12, simple_op opSlt GasFastestStep 2 1),
     (0x13, simple_op opSgt GasFastestStep 2 1),
     (0x14, simple_op opEq GasFastestStep 2 1),
     (0x15, simple_op opIszero GasFastestStep 1 1),
     (0x16, simple_op opAnd GasFastestStep 2 1),
     (0x18, simple_op opXor GasFastestStep 2 1),
     (0x17, simple_op opOr GasFastestStep 2 1),
     (0x19, simple_op opNot GasFastestStep 1 1),
     (0x1a, simple_op opByte GasFastestStep 2 1)]"

definition table_environment :: "(byte \<times> operation) list" where
  "table_environment = [
     (0x20, mem_op opKeccak256 Keccak256Gas (lift_gas gasKeccak256) 2 1 memoryKeccak256),
     (0x30, simple_op opAddress GasQuickStep 0 1),
     (0x31, dyn_op opBalance WarmStorageReadCostEIP2929 gasEip2929AccountCheck 1 1),
     (0x32, simple_op opOrigin GasQuickStep 0 1),
     (0x33, simple_op opCaller GasQuickStep 0 1),
     (0x34, simple_op opCallValue GasQuickStep 0 1),
     (0x35, simple_op opCallDataLoad GasFastestStep 1 1),
     (0x36, simple_op opCallDataSize GasQuickStep 0 1),
     (0x37, mem_op opCallDataCopy GasFastestStep (lift_gas gasCallDataCopy) 3 0 memoryCallDataCopy),
     (0x38, simple_op opCodeSize GasQuickStep 0 1),
     (0x39, mem_op opCodeCopy GasFastestStep (lift_gas gasCodeCopy) 3 0 memoryCodeCopy),
     (0x3a, simple_op opGasprice GasQuickStep 0 1),
     (0x3b, dyn_op opExtCodeSize WarmStorageReadCostEIP2929 gasEip2929AccountCheck 1 1),
     (0x3c, mem_op opExtCodeCopy WarmStorageReadCostEIP2929 gasExtCodeCopyEIP2929 4 0 memoryExtCodeCopy),
     (0x40, simple_op opBlockhash GasExtStep 1 1),
     (0x41, simple_op opCoinbase GasQuickStep 0 1),
     (0x42, simple_op opTimestamp GasQuickStep 0 1),
     (0x43, simple_op opNumber GasQuickStep 0 1),
     (0x45, simple_op opGasLimit GasQuickStep 0 1)]"

definition table_flow :: "(byte \<times> operation) list" where
  "table_flow = [
     (0x50, simple_op opPop GasQuickStep 1 0),
     (0x51, mem_op opMload GasFastestStep (lift_gas pureMemoryGascost) 1 1 memoryMLoad),
     (0x52, mem_op opMstore GasFastestStep (lift_gas pureMemoryGascost) 2 0 memoryMStore),
     (0x53, mem_op opMstore8 GasFastestStep (lift_gas pureMemoryGascost) 2 0 memoryMStore8),
     (0x54, dyn_op opSload 0 gasSLoadEIP2929 1 1),
     (0x55, dyn_op opSstore 0 gasSStoreEIP3529 2 0),
     (0x56, simple_op opJump GasMidStep 1 0),
     (0x57, simple_op opJumpi GasSlowStep 2 0),
     (0x58, simple_op opPc GasQuickStep 0 1),
     (0x59, simple_op opMsize GasQuickStep 0 1),
     (0x5a, simple_op opGas GasQuickStep 0 1),
     (0x5b, simple_op opJumpdest JumpdestGas 0 0),
     (0x60, simple_op opPush1 GasFastestStep 0 1)]"

definition table_calls :: "(byte \<times> operation) list" where
  "table_calls = [
     (0xa0, mem_op (makeLog 0) 0 (lift_gas (makeGasLog 0)) 2 0 memoryLog),
     (0xa1, mem_op (makeLog 1) 0 (lift_gas (makeGasLog 1)) 3 0 memoryLog),
     (0xa2, mem_op (makeLog 2) 0 (lift_gas (makeGasLog 2)) 4 0 memoryLog),
     (0xa3, mem_op (makeLog 3) 0 (lift_gas (makeGasLog 3)) 5 0 memoryLog),
     (0xa4, mem_op (makeLog 4) 0 (lift_gas (makeGasLog 4)) 6 0 memoryLog),
     (0xf0, mem_op opCreate CreateGas (lift_gas gasCreateEip3860) 3 1 memoryCreate),
     (0xf1, mem_op opCall WarmStorageReadCostEIP2929 gasCallEIP2929 7 1 memoryCall),
     (0xf3, mem_op opReturn 0 (lift_gas pureMemoryGascost) 2 0 memoryReturn),
     (0xf4, mem_op opDelegateCall WarmStorageReadCostEIP2929 gasDelegateCallEIP2929 6 1 memoryDelegateCall),
     (0xfd, mem_op opRevert 0 (lift_gas pureMemoryGascost) 2 0 memoryRevert),
     (0x3e, mem_op opReturnDataCopy GasFastestStep (lift_gas gasReturnDataCopy) 3 0 memoryReturnDataCopy),
     (0x3d, simple_op opReturnDataSize GasQuickStep 0 1),
     (0xfa, mem_op opStaticCall WarmStorageReadCostEIP2929 gasStaticCallEIP2929 6 1 memoryStaticCall)]"

definition table_later :: "(byte \<times> operation) list" where
  "table_later = [
     (0x1b, simple_op opSHL GasFastestStep 2 1),
     (0x1c, simple_op opSHR GasFastestStep 2 1),
     (0x1d, simple_op opSAR GasFastestStep 2 1),
     (0x3f, dyn_op opExtCodeHash WarmStorageReadCostEIP2929 gasEip2929AccountCheck 1 1),
     (0xf5, mem_op opCreate2 Create2Gas (lift_gas gasCreate2Eip3860) 4 1 memoryCreate2),
     (0x46, simple_op opChainID GasQuickStep 0 1),
     (0x47, simple_op opSelfBalance GasFastStep 0 1),
     (0x48, simple_op opBaseFee GasQuickStep 0 1),
     (0x44, simple_op opRandom GasQuickStep 0 1),
     (0x5f, simple_op opPush0 GasQuickStep 0 1)]"


definition push_entry :: "nat \<Rightarrow> byte \<times> operation" where
  "push_entry n = (word_of_nat (0x5f + n), simple_op (makePush (word_of_nat n) n) GasFastestStep 0 1)"

definition table_push_low :: "(byte \<times> operation) list" where
  "table_push_low = map push_entry [2..<17]"

definition table_push_high :: "(byte \<times> operation) list" where
  "table_push_high = map push_entry [17..<33]"

definition table_dup :: "(byte \<times> operation) list" where
  "table_dup = map (\<lambda>n. (word_of_nat (0x7f + n),
     \<lparr>op_execute = makeDup n, op_constantGas = GasFastestStep, op_dynamicGas = None,
      op_minStack = minDupStack n, op_maxStack = maxDupStack n, op_memorySize = None\<rparr>)) [1..<17]"

definition table_swap :: "(byte \<times> operation) list" where
  "table_swap = map (\<lambda>n. (word_of_nat (0x8f + n),
     \<lparr>op_execute = makeSwap n, op_constantGas = GasFastestStep, op_dynamicGas = None,
      op_minStack = minSwapStack (n + 1), op_maxStack = maxSwapStack (n + 1), op_memorySize = None\<rparr>)) [1..<17]"

definition zond_table :: "(byte \<times> operation) list" where
  "zond_table = table_arithmetic @ table_environment @ table_flow @ table_push_low @ table_push_high @
     table_dup @ table_swap @ table_calls @ table_later"

definition undefined_op :: operation where
  "undefined_op =
     \<lparr>op_execute = opUndefined, op_constantGas = 0, op_dynamicGas = None, op_minStack = 0,
      op_maxStack = maxStack 0 0, op_memorySize = None\<rparr>"

definition newZondInstructionSet :: "byte \<Rightarrow> operation" where
  "newZondInstructionSet op = (case map_of zond_table op of Some o' \<Rightarrow> o' | None \<Rightarrow> undefined_op)"

text \<open>The check that \<open>validate\<close> makes when the table is built; it panics if it fails.\<close>

definition validate_op :: "operation \<Rightarrow> bool" where
  "validate_op o' \<longleftrightarrow> \<not> (op_memorySize o' \<noteq> None \<and> op_dynamicGas o' = None)"

definition HasCost :: "operation \<Rightarrow> bool" where
  "HasCost o' \<longleftrightarrow> op_dynamicGas o' \<noteq> None \<or> op_constantGas o' \<noteq> 0"

lemmas table_defs =
  table_arithmetic_def table_environment_def table_flow_def table_push_low_def table_push_high_def
  table_dup_def table_swap_def table_calls_def table_later_def

text \<open>A property of all entries of the table holds for every opcode.\<close>

lemma table_induct:
  "list_all (\<lambda>(b, o'). P o') zond_table \<Longrightarrow> P undefined_op \<Longrightarrow> P (newZondInstructionSet op)"
  unfolding newZondInstructionSet_def
  by (cases "map_of zond_table op") (auto dest!: map_of_SomeD simp: list_all_iff)

end
