(* ===== verification/Interpreter.thy ===== *)
theory Interpreter
  imports JumpTable
begin

text \<open>
  \<open>src/core/vm/interpreter.go\<close>: the main loop. \<open>step\<close> is one round of it: it either ends the run
  (with a result) or goes on (with a new program counter, machine and scope).

  \<open>Run\<close> recurs through the calling instructions; its first argument bounds the depth of calls. The
  loop is bounded by the gas of the contract plus one. \<open>NoFuel\<close> is the outcome when a bound is used
  up; the theory \<open>VMSafety\<close> shows that this cannot happen when the depth bound is what the machine's own
  limit on the call depth leaves.
\<close>

type_synonym run_result = "bytes \<times> vm_error option \<times> Contract \<times> QRVM"

text \<open>The size of the memory the operation needs, in bytes, rounded up to words.\<close>

definition needed_memory :: "vm_env \<Rightarrow> operation \<Rightarrow> stack \<Rightarrow> (vm_error + u64) outcome" where
  "needed_memory E o' st =
     (case op_memorySize o' of
        None \<Rightarrow> Ok (Inr 0)
      | Some f \<Rightarrow>
          bind_outcome (f (e_U E) st) (\<lambda>(memSize, overflow).
            if overflow then Ok (Inl ErrGasUintOverflow) else Ok (mul_gas (toWordSize memSize) 32)))"

definition charge_dynamic ::
  "vm_env \<Rightarrow> operation \<Rightarrow> QRVM \<Rightarrow> Contract \<Rightarrow> stack \<Rightarrow> Memory \<Rightarrow>
   ((vm_error \<times> QRVM \<times> Contract) + (QRVM \<times> Contract \<times> Memory)) outcome" where
  "charge_dynamic E o' m c st mem =
     (case op_dynamicGas o' of
        None \<Rightarrow> Ok (Inr (m, c, mem))
      | Some dyn \<Rightarrow>
          bind_outcome (needed_memory E o' st) (\<lambda>r.
            case r of
              Inl err \<Rightarrow> Ok (Inl (err, m, c))
            | Inr memorySize \<Rightarrow>
                bind_outcome (dyn E m c st mem memorySize) (\<lambda>(r, m1, c1, mem1).
                  case r of
                    Inl err \<Rightarrow> Ok (Inl (ErrOutOfGas, m1, c1))
                  | Inr dynamicCost \<Rightarrow>
                      let (ok, c2) = UseGas dynamicCost c1 in
                      if \<not> ok then Ok (Inl (ErrOutOfGas, m1, c2))
                      else Ok (Inr (m1, c2, if memorySize > 0 then mem_Resize memorySize mem1 else mem1)))))"

definition step ::
  "vm_env \<Rightarrow> runner \<Rightarrow> u64 \<Rightarrow> QRVM \<Rightarrow> ScopeContext \<Rightarrow> (run_result + (u64 \<times> QRVM \<times> ScopeContext)) outcome" where
  "step E run pc m sc =
     (let c = sc_Contract sc; o' = newZondInstructionSet (GetOp pc c); sLen = length (sc_Stack sc) in
      if sLen < op_minStack o' then Ok (Inl ([], Some (ErrStackUnderflow sLen (op_minStack o')), c, m))
      else if sLen > op_maxStack o' then Ok (Inl ([], Some (ErrStackOverflow sLen (op_maxStack o')), c, m))
      else
        let (ok, c1) = UseGas (op_constantGas o') c in
        if \<not> ok then Ok (Inl ([], Some ErrOutOfGas, c1, m))
        else
          bind_outcome (charge_dynamic E o' m c1 (sc_Stack sc) (sc_Memory sc)) (\<lambda>r.
            case r of
              Inl (err, m2, c2) \<Rightarrow> Ok (Inl ([], Some err, c2, m2))
            | Inr (m2, c2, mem2) \<Rightarrow>
                bind_outcome (op_execute o' E run pc m2 (sc\<lparr>sc_Contract := c2, sc_Memory := mem2\<rparr>))
                  (\<lambda>(res, err, pc', m', sc').
                     case err of
                       Some e \<Rightarrow> Ok (Inl (res, if e = errStopToken then None else Some e, sc_Contract sc', m'))
                     | None \<Rightarrow> Ok (Inr (pc' + 1, m', sc')))))"

primrec run_loop :: "nat \<Rightarrow> vm_env \<Rightarrow> runner \<Rightarrow> u64 \<Rightarrow> QRVM \<Rightarrow> ScopeContext \<Rightarrow> run_result outcome" where
  "run_loop 0 E run pc m sc = NoFuel"
| "run_loop (Suc n) E run pc m sc =
     bind_outcome (step E run pc m sc) (\<lambda>r.
       case r of
         Inl result \<Rightarrow> Ok result
       | Inr (pc, m, sc) \<Rightarrow> run_loop n E run pc m sc)"

definition enter :: "bool \<Rightarrow> QRVM \<Rightarrow> QRVM" where
  "enter readOnly m =
     m\<lparr>m_depth := m_depth m + 1, m_readOnly := (if readOnly \<and> \<not> m_readOnly m then True else m_readOnly m),
       m_returnData := []\<rparr>"

text \<open>The deferred functions; \<open>m0\<close> is the machine before \<open>enter\<close>.\<close>

definition leave :: "bool \<Rightarrow> QRVM \<Rightarrow> QRVM \<Rightarrow> QRVM" where
  "leave readOnly m0 m =
     m\<lparr>m_depth := m_depth m - 1, m_readOnly := (if readOnly \<and> \<not> m_readOnly m0 then False else m_readOnly m)\<rparr>"

primrec Run :: "nat \<Rightarrow> vm_env \<Rightarrow> runner" where
  "Run 0 E contract input readOnly m = NoFuel"
| "Run (Suc d) E contract input readOnly m =
     (let m1 = enter readOnly m in
      if length (c_Code contract) = 0 then Ok ([], None, contract, leave readOnly m m1)
      else
        bind_outcome
          (run_loop (Suc (unat (c_Gas contract))) E (Run d E) 0 m1
             \<lparr>sc_Memory = NewMemory, sc_Stack = [], sc_Contract = contract\<lparr>c_Input := input\<rparr>\<rparr>)
          (\<lambda>(ret, err, c, m2). Ok (ret, err, c, leave readOnly m m2)))"

text \<open>The machine's entry points, for calls from outside: the depth is zero there.\<close>

definition depth_bound :: nat where
  "depth_bound = unat CallCreateDepth + 1"

definition qrvm_Call ::
  "vm_env \<Rightarrow> address \<Rightarrow> address \<Rightarrow> bytes \<Rightarrow> u64 \<Rightarrow> int \<Rightarrow> QRVM \<Rightarrow>
   (bytes \<times> u64 \<times> vm_error option \<times> QRVM) outcome" where
  "qrvm_Call E caller addr input gas val m =
     Call E (Run depth_bound E) (AccountRef caller) addr input gas val m"

definition qrvm_Create ::
  "vm_env \<Rightarrow> address \<Rightarrow> bytes \<Rightarrow> u64 \<Rightarrow> int \<Rightarrow> QRVM \<Rightarrow>
   (bytes \<times> address \<times> u64 \<times> vm_error option \<times> QRVM) outcome" where
  "qrvm_Create E caller code gas val m =
     Create E (Run depth_bound E) (AccountRef caller) code gas val m"

end
