(* ===== verification/StateRevert.thy ===== *)
theory StateRevert
  imports StateDB
begin

text \<open>
  What a \<open>StateDB\<close> shows to its users, and that \<open>RevertToSnapshot\<close> restores it.

  \<open>view\<close> forgets the caches: an account that is not loaded is what loading it would give, a storage
  slot is what reading it would give. The observable changes of every operation are undone by
  \<open>undo\<close>, the effect of one journal entry on that view, and the loop of \<open>journal.revert\<close> refines it.
  \<open>extends\<close> is the relation between a state and one reached from it by operations, nested snapshots
  and reverts included: the entries added to the journal lead back to the view of the first state.
\<close>

record acct =
  a_origin :: "StateAccount option"
  a_data :: StateAccount
  a_code :: bytes
  a_committed :: "hash \<Rightarrow> hash"
  a_storage :: "hash \<Rightarrow> hash"
  a_addrHash :: hash
  a_deleted :: bool
  a_created :: bool

record world =
  w_acct :: "address \<Rightarrow> acct option"
  w_destruct :: "address \<Rightarrow> StateAccount option option"
  w_accounts :: "hash \<Rightarrow> bytes option"
  w_storages :: "hash \<Rightarrow> (hash \<Rightarrow> bytes option) option"
  w_accountsOrigin :: "address \<Rightarrow> bytes option option"
  w_storagesOrigin :: "address \<Rightarrow> (hash \<Rightarrow> bytes option) option"
  w_refund :: u64
  w_logs :: "hash \<Rightarrow> Log list option"
  w_logSize :: u64
  w_preimages :: "hash \<Rightarrow> bytes option"
  w_accessList :: accessList
  w_dirties :: "address \<Rightarrow> int option"

text \<open>The parts of a state that no operation on it changes.\<close>

record env =
  e_db :: Database
  e_GetAccount :: "address \<Rightarrow> db_error + StateAccount option"
  e_hasher :: "bytes \<Rightarrow> hash"
  e_snap :: "Snapshot option"
  e_originalRoot :: hash
  e_thash :: hash
  e_txIndex :: int

definition env_of :: "statedb \<Rightarrow> env" where
  "env_of s = \<lparr>e_db = s_db s, e_GetAccount = s_GetAccount s, e_hasher = s_hasher s, e_snap = s_snap s,
     e_originalRoot = s_originalRoot s, e_thash = s_thash s, e_txIndex = s_txIndex s\<rparr>"

definition load_view :: "address \<Rightarrow> env \<Rightarrow> StateAccount option" where
  "load_view a e =
     (let tr = (case e_GetAccount e a of Inl err \<Rightarrow> None | Inr data \<Rightarrow> data) in
      case e_snap e of
        None \<Rightarrow> tr
      | Some sn \<Rightarrow>
          (case snap_Account sn (e_hasher e (address_bytes a)) of
             Inl err \<Rightarrow> tr
           | Inr None \<Rightarrow> None
           | Inr (Some acc) \<Rightarrow> Some (account_of_slim (e_hasher e) acc)))"

definition trie_view :: "env \<Rightarrow> stateObject \<Rightarrow> hash \<Rightarrow> hash option" where
  "trie_view e o' key =
     (case (case so_trie o' of
              Some tr \<Rightarrow> Inr tr
            | None \<Rightarrow> OpenStorageTrie (e_db e) (e_originalRoot e) (so_address o') (Root (so_data o'))) of
        Inl err \<Rightarrow> None
      | Inr tr \<Rightarrow>
          (case tr (so_address o') (hash_bytes key) of
             Inl err \<Rightarrow> None | Inr val \<Rightarrow> Some (BytesToHash val)))"

definition read_view :: "env \<Rightarrow> stateObject \<Rightarrow> hash \<Rightarrow> hash option" where
  "read_view e o' key =
     (case e_snap e of
        None \<Rightarrow> trie_view e o' key
      | Some sn \<Rightarrow>
          (case snap_Storage sn (so_addrHash o') (e_hasher e (hash_bytes key)) of
             Inl err \<Rightarrow> trie_view e o' key
           | Inr enc \<Rightarrow>
               Some (if length enc > 0
                     then case Split enc of Inl err \<Rightarrow> 0 | Inr (k, content, rest) \<Rightarrow> BytesToHash content
                     else 0)))"

definition committed_view :: "env \<Rightarrow> bool \<Rightarrow> stateObject \<Rightarrow> hash \<Rightarrow> hash" where
  "committed_view e destructed o' key =
     (case so_pendingStorage o' key of
        Some value \<Rightarrow> value
      | None \<Rightarrow>
          (case so_originStorage o' key of
             Some value \<Rightarrow> value
           | None \<Rightarrow> if destructed then 0
                     else case read_view e o' key of None \<Rightarrow> 0 | Some v \<Rightarrow> v))"

definition code_view :: "env \<Rightarrow> stateObject \<Rightarrow> bytes" where
  "code_view e o' =
     (if so_code o' \<noteq> [] then so_code o'
      else if CodeHash (so_data o') = hash_bytes (EmptyCodeHash (e_hasher e)) then []
      else fst (ContractCode (e_db e) (so_address o') (BytesToHash (CodeHash (so_data o')))))"

definition obj_view :: "env \<Rightarrow> bool \<Rightarrow> stateObject \<Rightarrow> acct" where
  "obj_view e destructed o' =
     \<lparr>a_origin = so_origin o', a_data = so_data o', a_code = code_view e o',
      a_committed = committed_view e destructed o',
      a_storage = (\<lambda>key. case so_dirtyStorage o' key of Some v \<Rightarrow> v
                         | None \<Rightarrow> committed_view e destructed o' key),
      a_addrHash = so_addrHash o', a_deleted = so_deleted o', a_created = so_created o'\<rparr>"

definition acct_view :: "statedb \<Rightarrow> address \<Rightarrow> acct option" where
  "acct_view s a =
     map_option (obj_view (env_of s) (s_stateObjectsDestruct s a \<noteq> None))
       (case s_stateObjects s a of
          Some o' \<Rightarrow> Some o'
        | None \<Rightarrow> map_option (\<lambda>data. newObject (s_hasher s) a (Some data)) (load_view a (env_of s)))"

definition view :: "statedb \<Rightarrow> world" where
  "view s =
     \<lparr>w_acct = acct_view s, w_destruct = s_stateObjectsDestruct s, w_accounts = s_accounts s,
      w_storages = s_storages s, w_accountsOrigin = s_accountsOrigin s,
      w_storagesOrigin = s_storagesOrigin s, w_refund = s_refund s, w_logs = s_logs s,
      w_logSize = s_logSize s, w_preimages = s_preimages s, w_accessList = s_accessList s,
      w_dirties = map_of (dirties (s_journal s))\<rparr>"

subsection \<open>Undoing on views\<close>

definition on_live :: "(acct \<Rightarrow> acct) \<Rightarrow> address \<Rightarrow> world \<Rightarrow> world option" where
  "on_live f a w =
     (case w_acct w a of
        None \<Rightarrow> None
      | Some v \<Rightarrow> if a_deleted v then None else Some (w\<lparr>w_acct := (w_acct w)(a \<mapsto> f v)\<rparr>))"

fun undo_entry :: "env \<Rightarrow> journalEntry \<Rightarrow> world \<Rightarrow> world option" where
  "undo_entry e (createObjectChange a) w =
     (if load_view a e = None then Some (w\<lparr>w_acct := (w_acct w)(a := None)\<rparr>) else None)"
| "undo_entry e (resetObjectChange a prev prevdestruct acc st ao sto) w =
     (let pa = so_address prev; ph = so_addrHash prev in
      if pa \<noteq> a \<or> (prevdestruct \<and> w_destruct w a = None) then None
      else Some (w\<lparr>w_acct := (w_acct w)(a \<mapsto> obj_view e prevdestruct prev),
             w_destruct := (if prevdestruct then w_destruct w else (w_destruct w)(a := None)),
             w_accounts := (case acc of None \<Rightarrow> w_accounts w | Some x \<Rightarrow> (w_accounts w)(ph \<mapsto> x)),
             w_storages := (case st of None \<Rightarrow> w_storages w | Some x \<Rightarrow> (w_storages w)(ph \<mapsto> x)),
             w_accountsOrigin :=
               (case ao of None \<Rightarrow> w_accountsOrigin w | Some x \<Rightarrow> (w_accountsOrigin w)(a \<mapsto> x)),
             w_storagesOrigin :=
               (case sto of None \<Rightarrow> w_storagesOrigin w | Some x \<Rightarrow> (w_storagesOrigin w)(a \<mapsto> x))\<rparr>))"
| "undo_entry e (touchChange a) w = Some w"
| "undo_entry e (balanceChange a prev) w =
     on_live (\<lambda>v. v\<lparr>a_data := (a_data v)\<lparr>Balance := prev\<rparr>\<rparr>) a w"
| "undo_entry e (nonceChange a prev) w =
     on_live (\<lambda>v. v\<lparr>a_data := (a_data v)\<lparr>Nonce := prev\<rparr>\<rparr>) a w"
| "undo_entry e (codeChange a prevcode prevhash) w =
     (if prevcode = [] \<longrightarrow>
         hash_bytes (BytesToHash prevhash) = hash_bytes (EmptyCodeHash (e_hasher e)) \<or>
         fst (ContractCode (e_db e) a (BytesToHash prevhash)) = []
      then on_live (\<lambda>v. v\<lparr>a_data := (a_data v)\<lparr>CodeHash := hash_bytes (BytesToHash prevhash)\<rparr>,
                          a_code := prevcode\<rparr>) a w
      else None)"
| "undo_entry e (storageChange a key prevalue) w =
     on_live (\<lambda>v. v\<lparr>a_storage := (a_storage v)(key := prevalue)\<rparr>) a w"
| "undo_entry e (refundChange prev) w = Some (w\<lparr>w_refund := prev\<rparr>)"
| "undo_entry e (addLogChange txhash) w =
     (case w_logs w txhash of
        None \<Rightarrow> None
      | Some ls \<Rightarrow>
          if ls = [] then None
          else Some (w\<lparr>w_logs := (w_logs w)(txhash := if length ls = 1 then None else Some (butlast ls)),
                       w_logSize := w_logSize w - 1\<rparr>))"
| "undo_entry e (addPreimageChange h) w = Some (w\<lparr>w_preimages := (w_preimages w)(h := None)\<rparr>)"
| "undo_entry e (accessListAddAccountChange a) w =
     Some (w\<lparr>w_accessList := DeleteAddress a (w_accessList w)\<rparr>)"
| "undo_entry e (accessListAddSlotChange a sl) w =
     map_option (\<lambda>al. w\<lparr>w_accessList := al\<rparr>) (DeleteSlot a sl (w_accessList w))"

definition undo_dirty :: "journalEntry \<Rightarrow> world \<Rightarrow> world" where
  "undo_dirty e w =
     (case dirtied e of
        None \<Rightarrow> w
      | Some a \<Rightarrow>
          let n = (case w_dirties w a of None \<Rightarrow> 0 | Some n \<Rightarrow> n) - 1 in
          w\<lparr>w_dirties := (w_dirties w)(a := if n = 0 then None else Some n)\<rparr>)"

definition undo :: "env \<Rightarrow> journalEntry \<Rightarrow> world \<Rightarrow> world option" where
  "undo e x w =
     (if case dirtied x of None \<Rightarrow> True | Some a \<Rightarrow> w_dirties w a \<noteq> None
      then map_option (undo_dirty x) (undo_entry e x w) else None)"

fun undos :: "env \<Rightarrow> journalEntry list \<Rightarrow> world \<Rightarrow> world option" where
  "undos e [] w = Some w"
| "undos e (x # xs) w = Option.bind (undos e xs w) (undo e x)"

subsection \<open>Invariant and extension\<close>

definition obj_wf :: "address \<Rightarrow> stateObject \<Rightarrow> bool" where
  "obj_wf a o' \<longleftrightarrow> so_address o' = a \<and> length (CodeHash (so_data o')) = 32"

definition revs_wf :: "statedb \<Rightarrow> bool" where
  "revs_wf s \<longleftrightarrow>
     sorted_wrt (<) (map rev_id (s_validRevisions s)) \<and>
     (\<forall>r \<in> set (s_validRevisions s). rev_id r < s_nextRevisionId s) \<and>
     (\<forall>r \<in> set (s_validRevisions s). journalIndex r \<le> length (entries (s_journal s)))"

definition env_wf :: "env \<Rightarrow> bool" where
  "env_wf e \<longleftrightarrow> (\<forall>a d. load_view a e = Some d \<longrightarrow> length (CodeHash d) = 32)"

definition entry_wf :: "journalEntry \<Rightarrow> bool" where
  "entry_wf x = (case x of resetObjectChange a prev d acc st ao sto \<Rightarrow> obj_wf a prev | _ \<Rightarrow> True)"

definition sdb_wf :: "statedb \<Rightarrow> bool" where
  "sdb_wf s \<longleftrightarrow>
     env_wf (env_of s) \<and>
     (\<forall>a o'. s_stateObjects s a = Some o' \<longrightarrow> obj_wf a o') \<and>
     (\<forall>a n. map_of (dirties (s_journal s)) a = Some n \<longrightarrow> 0 < n) \<and>
     revs_wf s"

definition extends :: "statedb \<Rightarrow> statedb \<Rightarrow> bool" where
  "extends s s' \<longleftrightarrow>
     env_of s' = env_of s \<and>
     (\<exists>xs. entries (s_journal s') = entries (s_journal s) @ xs \<and>
        (\<forall>x \<in> set xs. entry_wf x) \<and> undos (env_of s) xs (view s') = Some (view s)) \<and>
     (\<exists>rs. s_validRevisions s' = s_validRevisions s @ rs \<and>
        (\<forall>r \<in> set rs. length (entries (s_journal s)) \<le> journalIndex r)) \<and>
     s_nextRevisionId s \<le> s_nextRevisionId s'"

subsection \<open>Reading does not change the view\<close>

definition err_only :: "statedb \<Rightarrow> statedb \<Rightarrow> bool" where
  "err_only s s' \<longleftrightarrow> (\<exists>e. s' = s\<lparr>s_dbErr := e\<rparr>)"

text \<open>The relation between a state and the same state with more in its caches.\<close>

definition same :: "statedb \<Rightarrow> statedb \<Rightarrow> bool" where
  "same s s' \<longleftrightarrow>
     env_of s' = env_of s \<and> view s' = view s \<and> s_journal s' = s_journal s \<and>
     s_validRevisions s' = s_validRevisions s \<and> s_nextRevisionId s' = s_nextRevisionId s \<and>
     (sdb_wf s \<longrightarrow> sdb_wf s')"

lemma env_of_sel [simp]:
  "e_db (env_of s) = s_db s" "e_GetAccount (env_of s) = s_GetAccount s"
  "e_hasher (env_of s) = s_hasher s" "e_snap (env_of s) = s_snap s"
  "e_originalRoot (env_of s) = s_originalRoot s" "e_thash (env_of s) = s_thash s"
  "e_txIndex (env_of s) = s_txIndex s"
  by (simp_all add: env_of_def)

lemma env_of_upd [simp]:
  "env_of (s\<lparr>s_accounts := x1\<rparr>) = env_of s" "env_of (s\<lparr>s_storages := x2\<rparr>) = env_of s"
  "env_of (s\<lparr>s_accountsOrigin := x3\<rparr>) = env_of s" "env_of (s\<lparr>s_storagesOrigin := x4\<rparr>) = env_of s"
  "env_of (s\<lparr>s_stateObjects := x5\<rparr>) = env_of s" "env_of (s\<lparr>s_stateObjectsPending := x6\<rparr>) = env_of s"
  "env_of (s\<lparr>s_stateObjectsDirty := x7\<rparr>) = env_of s"
  "env_of (s\<lparr>s_stateObjectsDestruct := x8\<rparr>) = env_of s" "env_of (s\<lparr>s_dbErr := x9\<rparr>) = env_of s"
  "env_of (s\<lparr>s_refund := x10\<rparr>) = env_of s" "env_of (s\<lparr>s_logs := x11\<rparr>) = env_of s"
  "env_of (s\<lparr>s_logSize := x12\<rparr>) = env_of s" "env_of (s\<lparr>s_preimages := x13\<rparr>) = env_of s"
  "env_of (s\<lparr>s_accessList := x14\<rparr>) = env_of s" "env_of (s\<lparr>s_journal := x15\<rparr>) = env_of s"
  "env_of (s\<lparr>s_validRevisions := x16\<rparr>) = env_of s" "env_of (s\<lparr>s_nextRevisionId := x17\<rparr>) = env_of s"
  by (simp_all add: env_of_def)

lemma obj_view_sel [simp]:
  "a_origin (obj_view e d o') = so_origin o'" "a_data (obj_view e d o') = so_data o'"
  "a_code (obj_view e d o') = code_view e o'" "a_committed (obj_view e d o') = committed_view e d o'"
  "a_storage (obj_view e d o') =
     (\<lambda>key. case so_dirtyStorage o' key of Some v \<Rightarrow> v | None \<Rightarrow> committed_view e d o' key)"
  "a_addrHash (obj_view e d o') = so_addrHash o'" "a_deleted (obj_view e d o') = so_deleted o'"
  "a_created (obj_view e d o') = so_created o'"
  by (simp_all add: obj_view_def)

lemma err_only_refl [simp]: "err_only s s"
  unfolding err_only_def by (rule exI[of _ "s_dbErr s"]) simp

lemma err_only_setError [simp]: "err_only s (setError e s)"
proof (cases "s_dbErr s = None")
  case True
  then show ?thesis by (auto simp: setError_def err_only_def)
qed (auto simp: setError_def)

lemma acct_view_cong1:
  "env_of s' = env_of s \<Longrightarrow> s_stateObjects s' a = s_stateObjects s a \<Longrightarrow>
   s_stateObjectsDestruct s' a = s_stateObjectsDestruct s a \<Longrightarrow> acct_view s' a = acct_view s a"
  using env_of_sel(3)[of s] env_of_sel(3)[of s'] by (simp add: acct_view_def split: option.split)

lemma acct_view_cong:
  "env_of s' = env_of s \<Longrightarrow> s_stateObjects s' = s_stateObjects s \<Longrightarrow>
   s_stateObjectsDestruct s' = s_stateObjectsDestruct s \<Longrightarrow> acct_view s' = acct_view s"
  by (intro ext acct_view_cong1) simp_all

lemma acct_view_err [simp]: "acct_view (s\<lparr>s_dbErr := e\<rparr>) = acct_view s"
  by (rule acct_view_cong) simp_all

lemma view_err [simp]: "view (s\<lparr>s_dbErr := e\<rparr>) = view s"
  by (simp add: view_def)

lemma sdb_wf_err [simp]: "sdb_wf (s\<lparr>s_dbErr := e\<rparr>) = sdb_wf s"
  by (simp add: sdb_wf_def revs_wf_def)

lemma same_err: "err_only s s' \<Longrightarrow> same s s'"
  by (auto simp: err_only_def same_def)

lemma same_refl [simp]: "same s s"
  by (simp add: same_def)

lemma same_trans: "same s s' \<Longrightarrow> same s' s'' \<Longrightarrow> same s s''"
  by (auto simp: same_def)

lemma env_of_setStateObject [simp]: "env_of (setStateObject o' s) = env_of s"
  by (simp add: env_of_def setStateObject_def)

lemma acct_view_setStateObject:
  "acct_view (setStateObject o' s) =
   (acct_view s)(so_address o' \<mapsto> obj_view (env_of s) (s_stateObjectsDestruct s (so_address o') \<noteq> None) o')"
  by (rule ext) (simp add: acct_view_def setStateObject_def split: option.split)

lemma view_setStateObject:
  "view (setStateObject o' s) = (view s)\<lparr>w_acct := acct_view (setStateObject o' s)\<rparr>"
  by (simp add: view_def setStateObject_def)

lemma sdb_wf_setStateObject:
  "sdb_wf s \<Longrightarrow> obj_wf (so_address o') o' \<Longrightarrow> sdb_wf (setStateObject o' s)"
  by (auto simp: sdb_wf_def setStateObject_def env_of_def revs_wf_def)

text \<open>Storing an object with the same view as the stored one.\<close>

lemma same_setStateObject:
  assumes "acct_view s (so_address o') = Some (obj_view (env_of s) (s_stateObjectsDestruct s (so_address o') \<noteq> None) o')"
    and "obj_wf (so_address o') o'"
  shows "same s (setStateObject o' s)"
proof -
  have "acct_view (setStateObject o' s) = acct_view s"
    using assms(1) by (simp only: acct_view_setStateObject fun_upd_idem)
  then have "view (setStateObject o' s) = view s"
    by (simp add: view_setStateObject) (simp add: view_def)
  then show ?thesis using assms(2) sdb_wf_setStateObject
    by (simp add: same_def) (simp add: setStateObject_def)
qed

lemma load_account_view:
  "load_account a s = (d, s1) \<Longrightarrow> d = load_view a (env_of s) \<and> err_only s s1"
  by (auto simp: load_account_def load_trie_def load_view_def split: option.splits sum.splits)

lemma obj_wf_newObject:
  "env_wf (env_of s) \<Longrightarrow> load_view a (env_of s) = Some d \<Longrightarrow> obj_wf a (newObject (s_hasher s) a (Some d))"
  by (simp add: obj_wf_def newObject_def env_wf_def)

lemma so_address_newObject [simp]: "so_address (newObject h a d) = a"
  by (simp add: newObject_def)

lemma getDeletedStateObject_spec:
  assumes "getDeletedStateObject a s = (r, s1)" "sdb_wf s"
  shows "same s s1 \<and> s_stateObjectsDestruct s1 = s_stateObjectsDestruct s \<and>
    (case r of None \<Rightarrow> acct_view s a = None \<and> s_stateObjects s1 a = None \<and> load_view a (env_of s) = None
     | Some o' \<Rightarrow> s_stateObjects s1 a = Some o' \<and> obj_wf a o' \<and>
         acct_view s a = Some (obj_view (env_of s) (s_stateObjectsDestruct s a \<noteq> None) o'))"
proof (cases "s_stateObjects s a")
  case (Some o')
  then show ?thesis using assms
    by (auto simp: getDeletedStateObject_def acct_view_def sdb_wf_def split: option.splits)
next
  case None
  obtain d s2 where l: "load_account a s = (d, s2)" by (cases "load_account a s")
  then have d: "d = load_view a (env_of s)" and e: "err_only s s2" using load_account_view by auto
  then obtain er where s2: "s2 = s\<lparr>s_dbErr := er\<rparr>" by (auto simp: err_only_def)
  show ?thesis
  proof (cases d)
    case None
    then show ?thesis using \<open>s_stateObjects s a = None\<close> assms l d s2
      by (auto simp: getDeletedStateObject_def acct_view_def intro: same_err[OF e[unfolded s2]])
  next
    case (Some x)
    let ?o = "newObject (s_hasher s) a (Some x)"
    have r: "r = Some ?o" "s1 = setStateObject ?o s2"
      using Some None assms(1) l s2 by (auto simp: getDeletedStateObject_def Let_def)
    have v: "acct_view s a = Some (obj_view (env_of s) (s_stateObjectsDestruct s a \<noteq> None) ?o)"
      using None d[symmetric] Some by (simp add: acct_view_def)
    have wf: "obj_wf a ?o" using assms(2) d[symmetric] Some by (simp add: sdb_wf_def obj_wf_newObject)
    have "same s2 s1" unfolding r(2) using v wf s2 by (intro same_setStateObject) simp_all
    then show ?thesis using r v wf e same_trans[OF same_err[OF e]] s2
      by (simp add: setStateObject_def)
  qed
qed

lemma getStateObject_spec:
  assumes "getStateObject a s = (r, s1)" "sdb_wf s"
  shows "same s s1 \<and> s_stateObjectsDestruct s1 = s_stateObjectsDestruct s \<and>
    (case r of None \<Rightarrow> (case acct_view s a of None \<Rightarrow> True | Some v \<Rightarrow> a_deleted v)
     | Some o' \<Rightarrow> s_stateObjects s1 a = Some o' \<and> obj_wf a o' \<and> \<not> so_deleted o' \<and>
         acct_view s a = Some (obj_view (env_of s) (s_stateObjectsDestruct s a \<noteq> None) o'))"
proof -
  obtain r' s1' where g: "getDeletedStateObject a s = (r', s1')" by (cases "getDeletedStateObject a s")
  show ?thesis
  proof (cases r')
    case None
    then show ?thesis using getDeletedStateObject_spec[OF g assms(2)] assms(1) g
      by (auto simp: getStateObject_def)
  next
    case (Some o')
    then have "r = (if so_deleted o' then None else Some o')" "s1 = s1'"
      using assms(1) g by (auto simp: getStateObject_def)
    then show ?thesis using getDeletedStateObject_spec[OF g assms(2)] Some by simp
  qed
qed


lemma trie_view_upd [simp]:
  "trie_view e (o'\<lparr>so_originStorage := x1\<rparr>) = trie_view e o'"
  "trie_view e (o'\<lparr>so_dirtyStorage := x2\<rparr>) = trie_view e o'"
  "trie_view e (o'\<lparr>so_code := x3\<rparr>) = trie_view e o'"
  "trie_view e (o'\<lparr>so_dirtyCode := x4\<rparr>) = trie_view e o'"
  "Root d = Root (so_data o') \<Longrightarrow> trie_view e (o'\<lparr>so_data := d\<rparr>) = trie_view e o'"
  by (simp_all add: trie_view_def fun_eq_iff cong: sum.case_cong option.case_cong)

lemma read_view_cong:
  "trie_view e o1 = trie_view e o' \<Longrightarrow> so_addrHash o1 = so_addrHash o' \<Longrightarrow> read_view e o1 = read_view e o'"
  by (simp add: read_view_def fun_eq_iff cong: sum.case_cong option.case_cong)

lemma read_view_upd [simp]:
  "read_view e (o'\<lparr>so_originStorage := x1\<rparr>) = read_view e o'"
  "read_view e (o'\<lparr>so_dirtyStorage := x2\<rparr>) = read_view e o'"
  "read_view e (o'\<lparr>so_code := x3\<rparr>) = read_view e o'"
  "read_view e (o'\<lparr>so_dirtyCode := x4\<rparr>) = read_view e o'"
  "Root d = Root (so_data o') \<Longrightarrow> read_view e (o'\<lparr>so_data := d\<rparr>) = read_view e o'"
  by (rule read_view_cong, simp, simp)+

lemma committed_view_cong:
  "read_view e o1 = read_view e o' \<Longrightarrow> so_pendingStorage o1 = so_pendingStorage o' \<Longrightarrow>
   so_originStorage o1 = so_originStorage o' \<Longrightarrow> committed_view e d o1 = committed_view e d o'"
  by (simp add: committed_view_def fun_eq_iff cong: option.case_cong)

lemma committed_view_upd [simp]:
  "committed_view e d (o'\<lparr>so_dirtyStorage := x2\<rparr>) = committed_view e d o'"
  "committed_view e d (o'\<lparr>so_code := x3\<rparr>) = committed_view e d o'"
  "committed_view e d (o'\<lparr>so_dirtyCode := x4\<rparr>) = committed_view e d o'"
  "Root x = Root (so_data o') \<Longrightarrow> committed_view e d (o'\<lparr>so_data := x\<rparr>) = committed_view e d o'"
  by (rule committed_view_cong, simp, simp, simp)+

lemma code_view_upd [simp]:
  "code_view e (o'\<lparr>so_dirtyStorage := x2\<rparr>) = code_view e o'"
  "code_view e (o'\<lparr>so_originStorage := x3\<rparr>) = code_view e o'"
  "code_view e (o'\<lparr>so_trie := x4\<rparr>) = code_view e o'"
  "CodeHash d = CodeHash (so_data o') \<Longrightarrow> code_view e (o'\<lparr>so_data := d\<rparr>) = code_view e o'"
  by (simp_all add: code_view_def)

lemma obj_view_cong:
  "so_origin o1 = so_origin o' \<Longrightarrow> so_data o1 = so_data o' \<Longrightarrow> so_addrHash o1 = so_addrHash o' \<Longrightarrow>
   so_deleted o1 = so_deleted o' \<Longrightarrow> so_created o1 = so_created o' \<Longrightarrow>
   so_dirtyStorage o1 = so_dirtyStorage o' \<Longrightarrow> code_view e o1 = code_view e o' \<Longrightarrow>
   committed_view e d o1 = committed_view e d o' \<Longrightarrow> obj_view e d o1 = obj_view e d o'"
  by (simp add: obj_view_def cong: option.case_cong)

definition cached :: "env \<Rightarrow> bool \<Rightarrow> stateObject \<Rightarrow> stateObject \<Rightarrow> bool" where
  "cached e d o' o1 \<longleftrightarrow> obj_view e d o1 = obj_view e d o' \<and> so_address o1 = so_address o'"

lemma cached_refl [simp]: "cached e d o' o'"
  by (simp add: cached_def)

lemma trie_cache:
  assumes "so_getTrie o' s = (r, o1)"
  shows "trie_view (env_of s) o' key =
      (case r of Inl err \<Rightarrow> None
       | Inr tr \<Rightarrow> (case tr (so_address o') (hash_bytes key) of
                 Inl err \<Rightarrow> None | Inr val \<Rightarrow> Some (BytesToHash val)))"
    and "trie_view (env_of s) o1 = trie_view (env_of s) o'"
    and "\<exists>t. o1 = o'\<lparr>so_trie := t\<rparr>"
proof -
  have idem: "\<exists>t. o' = o'\<lparr>so_trie := t\<rparr>" by (rule exI[of _ "so_trie o'"]) simp
  show "trie_view (env_of s) o' key =
      (case r of Inl err \<Rightarrow> None
       | Inr tr \<Rightarrow> (case tr (so_address o') (hash_bytes key) of
                 Inl err \<Rightarrow> None | Inr val \<Rightarrow> Some (BytesToHash val)))"
    using assms by (auto simp: so_getTrie_def trie_view_def split: option.splits sum.splits)
  show "trie_view (env_of s) o1 = trie_view (env_of s) o'"
    using assms by (rule_tac ext) (auto simp: so_getTrie_def trie_view_def split: option.split_asm sum.split_asm
        cong: sum.case_cong)
  show "\<exists>t. o1 = o'\<lparr>so_trie := t\<rparr>"
    using assms idem by (auto simp: so_getTrie_def split: option.split_asm sum.split_asm)
qed

lemma read_trie_spec:
  assumes "read_trie key o' s = (r, o1, s1)"
  shows "r = trie_view (env_of s) o' key \<and> trie_view (env_of s) o1 = trie_view (env_of s) o' \<and>
    (\<exists>t. o1 = o'\<lparr>so_trie := t\<rparr>) \<and> err_only s s1"
proof -
  obtain t o2 where g: "so_getTrie o' s = (t, o2)" by (cases "so_getTrie o' s")
  have "o1 = o2" using assms g by (auto simp: read_trie_def split: sum.splits)
  then show ?thesis
    using trie_cache(1)[OF g, of key] trie_cache(2,3)[OF g] assms g
    by (auto simp: read_trie_def split: sum.splits)
qed

lemma BytesToHash_Nil [simp]: "BytesToHash [] = 0"
  by (simp add: BytesToHash_def)

lemma read_storage_spec:
  assumes "read_storage key o' s = (r, o1, s1)"
  shows "r = read_view (env_of s) o' key \<and> trie_view (env_of s) o1 = trie_view (env_of s) o' \<and>
    (\<exists>t. o1 = o'\<lparr>so_trie := t\<rparr>) \<and> err_only s s1"
proof -
  have idem: "\<exists>t. o' = o'\<lparr>so_trie := t\<rparr>" by (rule exI[of _ "so_trie o'"]) simp
  show ?thesis using assms read_trie_spec[of key o' s r o1 s1] idem
    by (auto simp: read_storage_def read_view_def split: option.splits sum.splits if_splits)
qed

lemma so_GetCommittedState_spec:
  assumes "so_GetCommittedState key o' s = (v, o1, s1)"
    and d: "d = (s_stateObjectsDestruct s (so_address o') \<noteq> None)"
  shows "v = committed_view (env_of s) d o' key \<and> cached (env_of s) d o' o1 \<and> err_only s s1"
proof (cases "so_pendingStorage o' key = None \<and> so_originStorage o' key = None \<and> \<not> d")
  case False
  then show ?thesis using assms
    by (auto simp: so_GetCommittedState_def committed_view_def cached_def split: option.splits if_splits)
next
  case True
  obtain r o2 s2 where r: "read_storage key o' s = (r, o2, s2)" by (cases "read_storage key o' s") auto
  note rs = read_storage_spec[OF r]
  then obtain t where o2: "o2 = o'\<lparr>so_trie := t\<rparr>" by blast
  have rv: "read_view (env_of s) o2 = read_view (env_of s) o'"
    using rs o2 by (intro read_view_cong) simp_all
  have res: "v = (case r of None \<Rightarrow> 0 | Some x \<Rightarrow> x)" "s1 = s2"
    "o1 = (case r of None \<Rightarrow> o2
           | Some x \<Rightarrow> o2\<lparr>so_originStorage := (so_originStorage o2)(key \<mapsto> x)\<rparr>)"
    using assms True r by (auto simp: so_GetCommittedState_def split: option.splits)
  have "committed_view (env_of s) d o1 = committed_view (env_of s) d o'"
    using rs rv res(3) True o2 by (auto simp: committed_view_def fun_eq_iff split: option.splits)
  then have "obj_view (env_of s) d o1 = obj_view (env_of s) d o'"
    using res(3) o2 by (intro obj_view_cong) (auto split: option.splits)
  then show ?thesis using res rs True o2
    by (auto simp: committed_view_def cached_def split: option.splits)
qed

lemma so_GetState_spec:
  assumes "so_GetState key o' s = (v, o1, s1)"
    and d: "d = (s_stateObjectsDestruct s (so_address o') \<noteq> None)"
  shows "v = a_storage (obj_view (env_of s) d o') key \<and> cached (env_of s) d o' o1 \<and> err_only s s1"
proof (cases "so_dirtyStorage o' key")
  case None
  then have "so_GetCommittedState key o' s = (v, o1, s1)" using assms by (simp add: so_GetState_def)
  from so_GetCommittedState_spec[OF this d] None show ?thesis by simp
next
  case (Some x)
  then show ?thesis using assms(1) by (simp add: so_GetState_def cached_def)
qed

lemma so_Code_spec:
  assumes "so_Code o' s = (c, o1, s1)"
  shows "c = code_view (env_of s) o' \<and> cached (env_of s) d o' o1 \<and> err_only s s1"
proof (cases "so_code o' = [] \<and> CodeHash (so_data o') \<noteq> hash_bytes (EmptyCodeHash (s_hasher s))")
  case True
  then have "c = code_view (env_of s) o'" "o1 = o'\<lparr>so_code := c\<rparr>" "err_only s s1"
    using assms by (auto simp: so_Code_def code_view_def Let_def split: prod.splits option.splits)
  moreover from this True have "code_view (env_of s) o1 = code_view (env_of s) o'"
    by (auto simp: code_view_def)
  ultimately show ?thesis unfolding cached_def by (auto intro: obj_view_cong)
next
  case False
  then show ?thesis using assms by (auto simp: so_Code_def code_view_def)
qed

subsection \<open>Extending the journal\<close>

lemma undos_append: "undos e (xs @ ys) w = Option.bind (undos e ys w) (undos e xs)"
  by (induction xs; cases "undos e ys w") auto

lemma extends_refl [simp]: "extends s s"
  by (simp add: extends_def)

lemma same_extends: "same s s' \<Longrightarrow> extends s s'"
  by (simp add: same_def extends_def)

lemma extends_trans:
  assumes "extends s s'" "extends s' s''"
  shows "extends s s''"
proof -
  obtain xs rs where 1: "entries (s_journal s') = entries (s_journal s) @ xs"
    "\<forall>x \<in> set xs. entry_wf x" "undos (env_of s) xs (view s') = Some (view s)"
    "s_validRevisions s' = s_validRevisions s @ rs"
    "\<forall>r \<in> set rs. length (entries (s_journal s)) \<le> journalIndex r"
    using assms(1) unfolding extends_def by blast
  obtain ys qs where 2: "entries (s_journal s'') = entries (s_journal s') @ ys"
    "\<forall>x \<in> set ys. entry_wf x" "undos (env_of s) ys (view s'') = Some (view s')"
    "s_validRevisions s'' = s_validRevisions s' @ qs"
    "\<forall>r \<in> set qs. length (entries (s_journal s')) \<le> journalIndex r"
    using assms unfolding extends_def by auto
  have "undos (env_of s) (xs @ ys) (view s'') = Some (view s)"
    using 1 2 by (simp add: undos_append)
  moreover have "\<forall>r \<in> set (rs @ qs). length (entries (s_journal s)) \<le> journalIndex r"
    using 1 2 by fastforce
  ultimately show ?thesis using assms 1 2 unfolding extends_def
    by (intro conjI exI[of _ "xs @ ys"] exI[of _ "rs @ qs"]) auto
qed

lemma j_append_sel [simp]:
  "env_of (j_append x s) = env_of s"
  "s_stateObjects (j_append x s) = s_stateObjects s"
  "s_stateObjectsDestruct (j_append x s) = s_stateObjectsDestruct s"
  "s_validRevisions (j_append x s) = s_validRevisions s"
  "s_nextRevisionId (j_append x s) = s_nextRevisionId s"
  "s_journal (j_append x s) = journal_append x (s_journal s)"
  "s_accounts (j_append x s) = s_accounts s" "s_storages (j_append x s) = s_storages s"
  "s_accountsOrigin (j_append x s) = s_accountsOrigin s"
  "s_storagesOrigin (j_append x s) = s_storagesOrigin s"
  "s_refund (j_append x s) = s_refund s" "s_logs (j_append x s) = s_logs s"
  "s_logSize (j_append x s) = s_logSize s" "s_preimages (j_append x s) = s_preimages s"
  "s_accessList (j_append x s) = s_accessList s" "s_hasher (j_append x s) = s_hasher s"
  "s_thash (j_append x s) = s_thash s" "s_txIndex (j_append x s) = s_txIndex s"
  by (simp_all add: j_append_def)

lemma acct_view_j_append [simp]: "acct_view (j_append x s) = acct_view s"
  by (rule acct_view_cong) simp_all

lemma entries_append [simp]: "entries (journal_append x j) = entries j @ [x]"
  by (simp add: journal_append_def Let_def split: option.split)

lemma dirties_append:
  "map_of (dirties (journal_append x j)) =
   (case dirtied x of None \<Rightarrow> map_of (dirties j)
    | Some a \<Rightarrow> (map_of (dirties j))(a \<mapsto> dirty_count j a + 1))"
  by (simp add: journal_append_def Let_def update_conv' split: option.split)

lemma dirty_count_cases:
  assumes "sdb_wf s"
  shows "dirty_count (s_journal s) a \<ge> 0"
    "(if dirty_count (s_journal s) a = 0 then None else Some (dirty_count (s_journal s) a)) =
     map_of (dirties (s_journal s)) a"
  using assms by (force simp: sdb_wf_def dirty_count_def split: option.splits)+

lemma extends_append:
  assumes "env_of s' = env_of s" "s_journal s' = journal_append x (s_journal s)"
    "s_validRevisions s' = s_validRevisions s" "s_nextRevisionId s' = s_nextRevisionId s"
    "entry_wf x" "sdb_wf s"
    and u: "undo_entry (env_of s) x (view s') = Some ((view s)\<lparr>w_dirties := w_dirties (view s')\<rparr>)"
  shows "extends s s'"
proof -
  have "undo (env_of s) x (view s') = Some (view s)"
  proof (cases "dirtied x")
    case None
    then have "w_dirties (view s') = w_dirties (view s)"
      using assms(2) by (simp add: view_def dirties_append)
    then show ?thesis using None u by (simp add: undo_def undo_dirty_def)
  next
    case (Some a)
    then have d: "w_dirties (view s') = (w_dirties (view s))(a \<mapsto> dirty_count (s_journal s) a + 1)"
      using assms(2) by (simp add: view_def dirties_append)
    then have "undo_dirty x ((view s)\<lparr>w_dirties := w_dirties (view s')\<rparr>) = view s"
      using Some dirty_count_cases[OF assms(6), of a]
      by (simp add: undo_dirty_def Let_def view_def fun_upd_idem_iff)
    then show ?thesis using Some u d by (simp add: undo_def)
  qed
  then show ?thesis using assms(1-5) by (simp add: extends_def)
qed

lemma sdb_wf_append:
  assumes "sdb_wf s" "env_of s' = env_of s" "s_journal s' = journal_append x (s_journal s)"
    "s_validRevisions s' = s_validRevisions s" "s_nextRevisionId s' = s_nextRevisionId s"
    "\<And>a o'. s_stateObjects s' a = Some o' \<Longrightarrow> obj_wf a o'"
  shows "sdb_wf s'"
proof -
  have "0 < n" if "map_of (dirties (s_journal s')) a = Some n" for a n
    using that assms(1,3) dirty_count_cases(1)[OF assms(1), of a]
    by (auto simp: dirties_append sdb_wf_def split: option.splits if_splits)
  then show ?thesis using assms by (auto simp: sdb_wf_def revs_wf_def)
qed

lemma view_eq_iff:
  "view s' = (view s)\<lparr>w_dirties := w_dirties (view s')\<rparr> \<longleftrightarrow>
   acct_view s' = acct_view s \<and> s_stateObjectsDestruct s' = s_stateObjectsDestruct s \<and>
   s_accounts s' = s_accounts s \<and> s_storages s' = s_storages s \<and>
   s_accountsOrigin s' = s_accountsOrigin s \<and> s_storagesOrigin s' = s_storagesOrigin s \<and>
   s_refund s' = s_refund s \<and> s_logs s' = s_logs s \<and> s_logSize s' = s_logSize s \<and>
   s_preimages s' = s_preimages s \<and> s_accessList s' = s_accessList s"
  by (auto simp: view_def)

definition view_ok :: "world \<Rightarrow> bool" where
  "view_ok w \<longleftrightarrow> al_wf (w_accessList w) \<and> (\<forall>h. w_logs w h \<noteq> Some [])"

definition sdb_ok :: "statedb \<Rightarrow> bool" where
  "sdb_ok s \<longleftrightarrow> sdb_wf s \<and> view_ok (view s)"

definition good_step :: "statedb \<Rightarrow> statedb \<Rightarrow> bool" where
  "good_step s s' \<longleftrightarrow> (sdb_ok s \<longrightarrow> extends s s' \<and> sdb_ok s')"

lemma good_step_refl [simp]: "good_step s s"
  by (simp add: good_step_def)

lemma good_step_trans: "good_step s s' \<Longrightarrow> good_step s' s'' \<Longrightarrow> good_step s s''"
  using extends_trans by (auto simp: good_step_def)

lemma same_good_step: "same s s' \<Longrightarrow> good_step s s'"
  using same_extends by (auto simp: good_step_def sdb_ok_def same_def)

lemma good_step_append:
  assumes "sdb_ok s" "env_of s' = env_of s" "s_journal s' = journal_append x (s_journal s)"
    "s_validRevisions s' = s_validRevisions s" "s_nextRevisionId s' = s_nextRevisionId s"
    "entry_wf x" "\<And>a o'. s_stateObjects s' a = Some o' \<Longrightarrow> obj_wf a o'"
    "view_ok (view s')"
    "undo_entry (env_of s) x (view s') = Some ((view s)\<lparr>w_dirties := w_dirties (view s')\<rparr>)"
  shows "extends s s' \<and> sdb_ok s'"
  using assms extends_append[of s' s x] sdb_wf_append[of s s' x] by (auto simp: sdb_ok_def)

lemma view_sel [simp]:
  "w_acct (view s) = acct_view s" "w_destruct (view s) = s_stateObjectsDestruct s"
  "w_accounts (view s) = s_accounts s" "w_storages (view s) = s_storages s"
  "w_accountsOrigin (view s) = s_accountsOrigin s" "w_storagesOrigin (view s) = s_storagesOrigin s"
  "w_refund (view s) = s_refund s" "w_logs (view s) = s_logs s" "w_logSize (view s) = s_logSize s"
  "w_preimages (view s) = s_preimages s" "w_accessList (view s) = s_accessList s"
  "w_dirties (view s) = map_of (dirties (s_journal s))"
  by (simp_all add: view_def)

lemma world_eqI:
  "w_acct w = w_acct w' \<Longrightarrow> w_destruct w = w_destruct w' \<Longrightarrow> w_accounts w = w_accounts w' \<Longrightarrow>
   w_storages w = w_storages w' \<Longrightarrow> w_accountsOrigin w = w_accountsOrigin w' \<Longrightarrow>
   w_storagesOrigin w = w_storagesOrigin w' \<Longrightarrow> w_refund w = w_refund w' \<Longrightarrow> w_logs w = w_logs w' \<Longrightarrow>
   w_logSize w = w_logSize w' \<Longrightarrow> w_preimages w = w_preimages w' \<Longrightarrow>
   w_accessList w = w_accessList w' \<Longrightarrow> w_dirties w = w_dirties w' \<Longrightarrow> w = (w' :: world)"
  by simp

lemma sdb_wf_obj: "sdb_wf s \<Longrightarrow> s_stateObjects s a = Some o' \<Longrightarrow> obj_wf a o'"
  by (simp add: sdb_wf_def)

lemma good_AddRefund: "good_step s (AddRefund gas s)"
  unfolding good_step_def
  by (intro impI good_step_append[of s _ "refundChange (s_refund s)"])
     (auto simp: AddRefund_def Let_def entry_wf_def sdb_ok_def view_ok_def sdb_wf_obj intro!: world_eqI acct_view_cong)

lemma good_SubRefund: "SubRefund gas s = Some s' \<Longrightarrow> good_step s s'"
  unfolding good_step_def
  by (intro impI good_step_append[of s _ "refundChange (s_refund s)"])
     (auto simp: SubRefund_def Let_def entry_wf_def sdb_ok_def view_ok_def sdb_wf_obj split: if_splits
       intro!: world_eqI acct_view_cong)

lemma good_AddPreimage: "good_step s (AddPreimage h p s)"
proof (cases "s_preimages s h")
  case None
  then show ?thesis unfolding good_step_def
    by (intro impI good_step_append[of s _ "addPreimageChange h"])
       (auto simp: AddPreimage_def Let_def entry_wf_def sdb_ok_def view_ok_def sdb_wf_obj fun_upd_idem
         intro!: world_eqI acct_view_cong)
qed (simp add: AddPreimage_def)

lemma good_AddLog: "good_step s (AddLog l s)"
  unfolding good_step_def
  by (intro impI good_step_append[of s _ "addLogChange (s_thash s)"])
     (auto simp: AddLog_def Let_def entry_wf_def sdb_ok_def view_ok_def sdb_wf_obj fun_upd_idem
       split: option.splits intro!: world_eqI acct_view_cong)

lemma good_AddAddressToAccessList: "good_step s (AddAddressToAccessList a s)"
proof -
  obtain b al where al: "AddAddress a (s_accessList s) = (b, al)" by fastforce
  show ?thesis
  proof (cases b)
    case True
    then have "DeleteAddress a al = s_accessList s"
      using al DeleteAddress_AddAddress[of a "s_accessList s"] by simp
    moreover have "al_wf (s_accessList s) \<Longrightarrow> al_wf al" using al_wf_AddAddress[of "s_accessList s" a] al by simp
    ultimately show ?thesis using al True unfolding good_step_def
      by (intro impI good_step_append[of s _ "accessListAddAccountChange a"])
         (auto simp: AddAddressToAccessList_def entry_wf_def sdb_ok_def view_ok_def sdb_wf_obj
           intro!: world_eqI acct_view_cong)
  next
    case False
    then have "al = s_accessList s" using al by (auto simp: AddAddress_def split: option.splits)
    then have "AddAddressToAccessList a s = s" using al False by (simp add: AddAddressToAccessList_def)
    then show ?thesis by simp
  qed
qed

lemma good_AddSlot_entry:
  assumes "fst (AddSlot a sl (s_accessList s)) = (False, True)"
    and s': "s' = j_append (accessListAddSlotChange a sl) (s\<lparr>s_accessList := snd (AddSlot a sl (s_accessList s))\<rparr>)"
  shows "good_step s s'"
  unfolding good_step_def
proof
  assume ok: "sdb_ok s"
  then have "DeleteSlot a sl (snd (AddSlot a sl (s_accessList s))) = Some (s_accessList s)"
    "al_wf (snd (AddSlot a sl (s_accessList s)))"
    using assms(1) by (auto simp: sdb_ok_def view_ok_def DeleteSlot_AddSlot al_wf_AddSlot)
  then show "extends s s' \<and> sdb_ok s'" using ok unfolding s'
    by (intro good_step_append[of s _ "accessListAddSlotChange a sl"])
       (auto simp: entry_wf_def sdb_ok_def view_ok_def sdb_wf_obj intro!: world_eqI acct_view_cong)
qed

lemma good_AddSlotToAccessList: "good_step s (AddSlotToAccessList a sl s)"
proof (cases "addresses (s_accessList s) a")
  case None
  let ?s1 = "AddAddressToAccessList a s"
  have 1: "fst (AddSlot a sl (s_accessList ?s1)) = (False, True)"
    "snd (AddSlot a sl (s_accessList ?s1)) = snd (AddSlot a sl (s_accessList s))"
    using None by (simp_all add: AddAddressToAccessList_def AddAddress_def AddSlot_def)
  have "AddSlotToAccessList a sl s =
      j_append (accessListAddSlotChange a sl) (?s1\<lparr>s_accessList := snd (AddSlot a sl (s_accessList ?s1))\<rparr>)"
    using None by (simp add: AddSlotToAccessList_def AddAddressToAccessList_def AddAddress_def
        AddSlot_def j_append_def)
  then show ?thesis
    using good_step_trans[OF good_AddAddressToAccessList good_AddSlot_entry[OF 1(1)]] by simp
next
  case (Some i)
  obtain b c al where al: "AddSlot a sl (s_accessList s) = ((b, c), al)" by (metis prod.collapse)
  have b: "\<not> b" using Some al by (auto simp: AddSlot_def Let_def split: if_splits)
  show ?thesis
  proof (cases c)
    case True
    then show ?thesis using good_AddSlot_entry[of a sl s] al b by (simp add: AddSlotToAccessList_def)
  next
    case False
    then have "al = s_accessList s" using Some al by (auto simp: AddSlot_def Let_def split: if_splits)
    then have "AddSlotToAccessList a sl s = s" using al b False by (simp add: AddSlotToAccessList_def)
    then show ?thesis by simp
  qed
qed

text \<open>Operations on one object, which is stored back at its address.\<close>

definition live_object :: "statedb \<Rightarrow> address \<Rightarrow> stateObject \<Rightarrow> bool" where
  "live_object s a o' \<longleftrightarrow> s_stateObjects s a = Some o' \<and> \<not> so_deleted o'"

lemma acct_view_live:
  "s_stateObjects s a = Some o' \<Longrightarrow>
   acct_view s a = Some (obj_view (env_of s) (s_stateObjectsDestruct s a \<noteq> None) o')"
  by (simp add: acct_view_def)

lemma same_cached:
  assumes "s_stateObjects s a = Some o'" "sdb_wf s" "err_only s s1"
    "cached (env_of s) (s_stateObjectsDestruct s a \<noteq> None) o' o1"
    "length (CodeHash (so_data o1)) = 32"
  shows "same s (setStateObject o1 s1)"
proof -
  obtain e where s1: "s1 = s\<lparr>s_dbErr := e\<rparr>" using assms(3) by (auto simp: err_only_def)
  have "so_address o' = a" using assms(1,2) by (simp add: sdb_wf_def obj_wf_def)
  then have a: "so_address o1 = a" using assms(4) by (simp add: cached_def)
  have "same s1 (setStateObject o1 s1)"
    using assms a s1 acct_view_live[OF assms(1)]
    by (intro same_setStateObject) (auto simp: cached_def obj_wf_def)
  then show ?thesis using same_trans same_err[OF assms(3)] by blast
qed

lemma cached_data: "cached e d o' o1 \<Longrightarrow> so_data o1 = so_data o'"
  unfolding cached_def by (metis obj_view_sel(2))

definition live_acct :: "world \<Rightarrow> address \<Rightarrow> acct option" where
  "live_acct w a =
     (case w_acct w a of None \<Rightarrow> None | Some v \<Rightarrow> if a_deleted v then None else Some v)"

lemma getStateObject_live:
  assumes "getStateObject a s = (r, s1)" "sdb_wf s"
  shows "same s s1 \<and> sdb_wf s1 \<and>
    live_acct (view s) a = map_option (obj_view (env_of s) (s_stateObjectsDestruct s a \<noteq> None)) r \<and>
    s_stateObjectsDestruct s1 = s_stateObjectsDestruct s \<and>
    (\<forall>o'. r = Some o' \<longrightarrow> s_stateObjects s1 a = Some o' \<and> obj_wf a o' \<and> \<not> so_deleted o')"
  using getStateObject_spec[OF assms] assms(2)
  by (cases r) (auto simp: live_acct_def same_def split: option.splits)

text \<open>The getters that only look at the account data.\<close>

lemma peek_object:
  assumes "sdb_wf s"
  shows "same s (snd (getStateObject a s))"
    and "(case fst (getStateObject a s) of None \<Rightarrow> d | Some o' \<Rightarrow> g (so_data o')) =
      (case live_acct (view s) a of None \<Rightarrow> d | Some v \<Rightarrow> g (a_data v))"
proof -
  obtain r s1 where "getStateObject a s = (r, s1)" by fastforce
  with getStateObject_live[OF this assms] show "same s (snd (getStateObject a s))"
    "(case fst (getStateObject a s) of None \<Rightarrow> d | Some o' \<Rightarrow> g (so_data o')) =
      (case live_acct (view s) a of None \<Rightarrow> d | Some v \<Rightarrow> g (a_data v))"
    by (auto split: option.splits)
qed

text \<open>The getters that may fill a cache of the object.\<close>

lemma read_object:
  assumes wf: "sdb_wf s"
    and spec: "\<And>o' s1 v o1 s2 d. f o' s1 = (v, o1, s2) \<Longrightarrow>
      d = (s_stateObjectsDestruct s1 (so_address o') \<noteq> None) \<Longrightarrow>
      v = g (obj_view (env_of s1) d o') \<and> cached (env_of s1) d o' o1 \<and> err_only s1 s2"
    and R: "R = (case getStateObject a s of
      (Some o', s1) \<Rightarrow> let (v, o1, s2) = f o' s1 in (v, setStateObject o1 s2) | (None, s1) \<Rightarrow> (dflt, s1))"
  shows "same s (snd R) \<and> fst R = (case live_acct (view s) a of None \<Rightarrow> dflt | Some v \<Rightarrow> g v)"
proof -
  obtain r s1 where g: "getStateObject a s = (r, s1)" by fastforce
  note gs = getStateObject_live[OF g wf]
  show ?thesis
  proof (cases r)
    case None
    then show ?thesis using gs g R by auto
  next
    case (Some o')
    obtain v o1 s2 where r: "f o' s1 = (v, o1, s2)" by (metis prod.collapse)
    have a: "so_address o' = a" "length (CodeHash (so_data o')) = 32" using gs Some by (auto simp: obj_wf_def)
    note sp = spec[OF r refl]
    have "length (CodeHash (so_data o1)) = 32" using cached_data a(2) sp by metis
    then have "same s1 (setStateObject o1 s2)"
      using sp gs Some a by (intro same_cached) auto
    moreover have "env_of s1 = env_of s" using gs by (simp add: same_def)
    ultimately show ?thesis using gs g Some r same_trans sp R a(1) by auto
  qed
qed

lemma GetState_read:
  "sdb_wf s \<Longrightarrow> same s (snd (GetState a key s)) \<and>
   fst (GetState a key s) = (case live_acct (view s) a of None \<Rightarrow> 0 | Some v \<Rightarrow> a_storage v key)"
  by (rule read_object[where f = "so_GetState key" and g = "\<lambda>v. a_storage v key"], assumption,
      rule so_GetState_spec, assumption, assumption, rule GetState_def)

lemma GetCommittedState_read:
  "sdb_wf s \<Longrightarrow> same s (snd (GetCommittedState a key s)) \<and>
   fst (GetCommittedState a key s) =
     (case live_acct (view s) a of None \<Rightarrow> 0 | Some v \<Rightarrow> a_committed v key)"
  by (rule read_object[where f = "so_GetCommittedState key" and g = "\<lambda>v. a_committed v key"],
      assumption, unfold obj_view_sel, rule so_GetCommittedState_spec, assumption, assumption,
      rule GetCommittedState_def)

lemma GetCode_read:
  "sdb_wf s \<Longrightarrow> same s (snd (GetCode a s)) \<and>
   fst (GetCode a s) = (case live_acct (view s) a of None \<Rightarrow> [] | Some v \<Rightarrow> a_code v)"
  by (rule read_object[where f = so_Code and g = a_code], assumption, unfold obj_view_sel,
      rule so_Code_spec, assumption, rule GetCode_def)

lemma Exist_read:
  "sdb_wf s \<Longrightarrow> same s (snd (Exist a s)) \<and> fst (Exist a s) = (live_acct (view s) a \<noteq> None)"
  using peek_object(1)[of s a] peek_object(2)[where s = s and a = a and d = False and g = "\<lambda>_. True"]
  by (auto simp: Exist_def case_prod_beta split: option.splits)

lemma GetBalance_read:
  "sdb_wf s \<Longrightarrow> same s (snd (GetBalance a s)) \<and>
   fst (GetBalance a s) = (case live_acct (view s) a of None \<Rightarrow> 0 | Some v \<Rightarrow> Balance (a_data v))"
  using peek_object(1)[of s a] peek_object(2)[where s = s and a = a and d = 0 and g = Balance] by (simp add: GetBalance_def case_prod_beta)

lemma GetNonce_read:
  "sdb_wf s \<Longrightarrow> same s (snd (GetNonce a s)) \<and>
   fst (GetNonce a s) = (case live_acct (view s) a of None \<Rightarrow> 0 | Some v \<Rightarrow> Nonce (a_data v))"
  using peek_object(1)[of s a] peek_object(2)[where s = s and a = a and d = 0 and g = Nonce] by (simp add: GetNonce_def case_prod_beta)

lemma GetStorageRoot_read:
  "sdb_wf s \<Longrightarrow> same s (snd (GetStorageRoot a s)) \<and>
   fst (GetStorageRoot a s) = (case live_acct (view s) a of None \<Rightarrow> 0 | Some v \<Rightarrow> Root (a_data v))"
  using peek_object(1)[of s a] peek_object(2)[where s = s and a = a and d = 0 and g = Root] by (simp add: GetStorageRoot_def case_prod_beta)

lemma GetCodeHash_read:
  "sdb_wf s \<Longrightarrow> same s (snd (GetCodeHash a s)) \<and>
   fst (GetCodeHash a s) =
     (case live_acct (view s) a of None \<Rightarrow> 0 | Some v \<Rightarrow> BytesToHash (CodeHash (a_data v)))"
  using peek_object(1)[of s a] peek_object(2)[where s = s and a = a and d = 0 and g = "\<lambda>d. BytesToHash (CodeHash d)"]
  by (auto simp: GetCodeHash_def split: option.splits prod.splits)

lemma Empty_read:
  "sdb_wf s \<Longrightarrow> same s (snd (Empty a s)) \<and>
   fst (Empty a s) =
     (case live_acct (view s) a of None \<Rightarrow> True
      | Some v \<Rightarrow> Nonce (a_data v) = 0 \<and> Balance (a_data v) = 0 \<and>
          CodeHash (a_data v) = hash_bytes (EmptyCodeHash (s_hasher s)))"
proof -
  assume wf: "sdb_wf s"
  obtain r s1 where g: "getStateObject a s = (r, s1)" by fastforce
  have "s_hasher s1 = s_hasher s"
    using getStateObject_live[OF g wf] by (metis env_of_sel(3) same_def)
  then show ?thesis using getStateObject_live[OF g wf] g
    by (auto simp: Empty_def so_empty_def split: option.splits)
qed

lemma same_GetCodeSize: "sdb_wf s \<Longrightarrow> same s (snd (GetCodeSize a s))"
proof -
  assume wf: "sdb_wf s"
  obtain r s1 where g: "getStateObject a s = (r, s1)" by fastforce
  have "err_only s1 (snd (so_CodeSize o' s1))" for o'
    by (auto simp: so_CodeSize_def Let_def split: prod.splits option.splits)
  then show ?thesis using getStateObject_live[OF g wf] g same_err same_trans
    by (auto simp: GetCodeSize_def split: option.splits)
qed

subsection \<open>Changing an object\<close>

lemma object_change:
  assumes ok: "sdb_ok s" and o': "s_stateObjects s a = Some o'" and e: "err_only s s2"
    and o1: "so_address o1 = a" "length (CodeHash (so_data o1)) = 32" "\<not> so_deleted o1"
    and x: "entry_wf x"
    and undo: "\<And>w. undo_entry (env_of s) x w = on_live F a w"
    and F: "F (obj_view (env_of s) (s_stateObjectsDestruct s a \<noteq> None) o1) =
            obj_view (env_of s) (s_stateObjectsDestruct s a \<noteq> None) o'"
    and s': "s' = setStateObject o1 (j_append x s2)"
  shows "extends s s' \<and> sdb_ok s'"
proof -
  obtain er where s2: "s2 = s\<lparr>s_dbErr := er\<rparr>" using e by (auto simp: err_only_def)
  have av: "acct_view s' = (acct_view s)(a \<mapsto> obj_view (env_of s) (s_stateObjectsDestruct s a \<noteq> None) o1)"
    using o1(1) unfolding s' s2 acct_view_setStateObject by simp
  have sel: "s_stateObjects s' = (s_stateObjects s)(a \<mapsto> o1)" "env_of s' = env_of s"
    "s_journal s' = journal_append x (s_journal s)" "s_validRevisions s' = s_validRevisions s"
    "s_nextRevisionId s' = s_nextRevisionId s" "s_accessList s' = s_accessList s" "s_logs s' = s_logs s"
    "s_stateObjectsDestruct s' = s_stateObjectsDestruct s" "s_accounts s' = s_accounts s"
    "s_storages s' = s_storages s" "s_accountsOrigin s' = s_accountsOrigin s"
    "s_storagesOrigin s' = s_storagesOrigin s" "s_refund s' = s_refund s" "s_logSize s' = s_logSize s"
    "s_preimages s' = s_preimages s"
    using o1(1) unfolding s' s2 by (simp_all add: setStateObject_def)
  have "undo_entry (env_of s) x (view s') = Some ((view s)\<lparr>w_dirties := w_dirties (view s')\<rparr>)"
    using o1(3) F acct_view_live[OF o'] unfolding undo on_live_def
    by (auto simp: av sel fun_upd_idem intro!: world_eqI)
  moreover have "obj_wf b y" if "s_stateObjects s' b = Some y" for b y
    using that o1 ok unfolding sel by (cases "b = a") (auto simp: obj_wf_def sdb_ok_def sdb_wf_def)
  moreover have "view_ok (view s')" using ok by (simp add: sel sdb_ok_def view_ok_def)
  ultimately show ?thesis using ok sel x by (intro good_step_append[of s s' x]) simp_all
qed

lemma setBalance_view:
  "obj_view e d (so_setBalance b o') = (obj_view e d o')\<lparr>a_data := (so_data o')\<lparr>Balance := b\<rparr>\<rparr>"
  by (simp add: obj_view_def so_setBalance_def cong: option.case_cong)

lemma setNonce_view:
  "obj_view e d (so_setNonce n o') = (obj_view e d o')\<lparr>a_data := (so_data o')\<lparr>Nonce := n\<rparr>\<rparr>"
  by (simp add: obj_view_def so_setNonce_def cong: option.case_cong)

lemma setState_view:
  "obj_view e d (so_setState key v o') = (obj_view e d o')\<lparr>a_storage := (a_storage (obj_view e d o'))(key := v)\<rparr>"
  by (auto simp: obj_view_def so_setState_def fun_eq_iff cong: option.case_cong)

lemma setCode_view:
  "obj_view e d (so_setCode h code o') =
    (obj_view e d o')\<lparr>a_data := (so_data o')\<lparr>CodeHash := hash_bytes h\<rparr>,
                       a_code := code_view e (so_setCode h code o')\<rparr>"
proof -
  have "committed_view e d (so_setCode h code o') = committed_view e d o'"
    by (simp add: so_setCode_def)
  then show ?thesis by (simp add: obj_view_def cong: option.case_cong) (simp add: so_setCode_def)
qed

lemma acct_idem: "a_data v = d \<Longrightarrow> v\<lparr>a_data := d\<rparr> = v" "a_storage v k = x \<Longrightarrow> v\<lparr>a_storage := (a_storage v)(k := x)\<rparr> = v"
  "a_data v = d \<Longrightarrow> a_code v = c \<Longrightarrow> v\<lparr>a_data := d, a_code := c\<rparr> = v" for v :: acct
  by auto

lemma live_wf:
  assumes "sdb_ok s" "s_stateObjects s a = Some o'"
  shows "so_address o' = a" "length (CodeHash (so_data o')) = 32"
  using assms by (auto simp: sdb_ok_def sdb_wf_def obj_wf_def)

definition object_step :: "(stateObject \<Rightarrow> statedb \<Rightarrow> stateObject \<times> statedb) \<Rightarrow> bool" where
  "object_step f \<longleftrightarrow>
     (\<forall>s a o'. sdb_ok s \<longrightarrow> s_stateObjects s a = Some o' \<longrightarrow> \<not> so_deleted o' \<longrightarrow>
        extends s (setStateObject (fst (f o' s)) (snd (f o' s))) \<and>
        sdb_ok (setStateObject (fst (f o' s)) (snd (f o' s))))"

lemma so_SetBalance_step: "object_step (so_SetBalance b)"
  unfolding object_step_def
proof (intro allI impI)
  fix s a o' assume s: "sdb_ok s" "s_stateObjects s a = Some o'" "\<not> so_deleted o'"
  show "extends s (setStateObject (fst (so_SetBalance b o' s)) (snd (so_SetBalance b o' s))) \<and>
      sdb_ok (setStateObject (fst (so_SetBalance b o' s)) (snd (so_SetBalance b o' s)))"
    by (rule object_change[OF s(1,2) err_only_refl, where x = "balanceChange a (Balance (so_data o'))"
          and F = "\<lambda>v. v\<lparr>a_data := (a_data v)\<lparr>Balance := Balance (so_data o')\<rparr>\<rparr>"])
       (use live_wf[OF s(1,2)] s(3) in
         \<open>simp_all add: so_SetBalance_def entry_wf_def setBalance_view acct_idem\<close>,
        simp_all add: so_setBalance_def)
qed

lemma so_SetNonce_step: "object_step (so_SetNonce n)"
  unfolding object_step_def
proof (intro allI impI)
  fix s a o' assume s: "sdb_ok s" "s_stateObjects s a = Some o'" "\<not> so_deleted o'"
  show "extends s (setStateObject (fst (so_SetNonce n o' s)) (snd (so_SetNonce n o' s))) \<and>
      sdb_ok (setStateObject (fst (so_SetNonce n o' s)) (snd (so_SetNonce n o' s)))"
    by (rule object_change[OF s(1,2) err_only_refl, where x = "nonceChange a (Nonce (so_data o'))"
          and F = "\<lambda>v. v\<lparr>a_data := (a_data v)\<lparr>Nonce := Nonce (so_data o')\<rparr>\<rparr>"])
       (use live_wf[OF s(1,2)] s(3) in
         \<open>simp_all add: so_SetNonce_def entry_wf_def setNonce_view acct_idem\<close>,
        simp_all add: so_setNonce_def)
qed

lemma so_touch_step:
  assumes s: "sdb_ok s" "s_stateObjects s a = Some o'"
  shows "extends s (setStateObject o' (so_touch o' s)) \<and> sdb_ok (setStateObject o' (so_touch o' s))"
proof -
  have "setStateObject o' (so_touch o' s) = so_touch o' s"
    using s live_wf[OF s] by (simp add: setStateObject_def so_touch_def fun_upd_idem)
  then show ?thesis using s(1)
    by (intro good_step_append[of s _ "touchChange a"])
       (auto simp: so_touch_def live_wf[OF s] entry_wf_def sdb_ok_def view_ok_def sdb_wf_obj intro!: world_eqI)
qed

lemma setStateObject_same: "s_stateObjects s a = Some o' \<Longrightarrow> so_address o' = a \<Longrightarrow> setStateObject o' s = s"
  by (simp add: setStateObject_def fun_upd_idem)

lemma so_AddBalance_step: "object_step (so_AddBalance amount)"
proof (cases "amount = 0")
  case True
  then show ?thesis
    using so_touch_step live_wf setStateObject_same
    by (auto simp: object_step_def so_AddBalance_def)
next
  case False
  then show ?thesis using so_SetBalance_step
    by (simp add: object_step_def so_AddBalance_def)
qed

lemma so_SubBalance_step: "object_step (so_SubBalance amount)"
proof (cases "amount = 0")
  case True
  then show ?thesis
    using live_wf setStateObject_same by (auto simp: object_step_def so_SubBalance_def)
next
  case False
  then show ?thesis using so_SetBalance_step
    by (simp add: object_step_def so_SubBalance_def)
qed

lemma cached_sel:
  assumes "cached e d o' o1"
  shows "so_address o1 = so_address o'" "so_data o1 = so_data o'" "so_deleted o1 = so_deleted o'"
    "obj_view e d o1 = obj_view e d o'"
  using assms unfolding cached_def by (simp, metis obj_view_sel(2), metis obj_view_sel(7), simp)

lemma so_SetState_step: "object_step (so_SetState key value)"
  unfolding object_step_def
proof (intro allI impI)
  fix s a o' assume s: "sdb_ok s" "s_stateObjects s a = Some o'" "\<not> so_deleted o'"
  let ?d = "s_stateObjectsDestruct s a \<noteq> None"
  let ?R = "so_SetState key value o' s"
  obtain prev oc s1 where g: "so_GetState key o' s = (prev, oc, s1)" by (metis prod.collapse)
  note sp = so_GetState_spec[OF g refl]
  note a = live_wf[OF s(1,2)]
  have c: "cached (env_of s) ?d o' oc" "err_only s s1" "prev = a_storage (obj_view (env_of s) ?d o') key"
    using sp a by auto
  note cs = cached_sel[OF c(1)]
  show "extends s (setStateObject (fst ?R) (snd ?R)) \<and> sdb_ok (setStateObject (fst ?R) (snd ?R))"
  proof (cases "prev = value")
    case True
    have "same s (setStateObject oc s1)"
      using s a c cs by (intro same_cached) (auto simp: sdb_ok_def)
    then have "good_step s (setStateObject oc s1)" by (rule same_good_step)
    then show ?thesis using True g s(1) by (simp add: so_SetState_def good_step_def)
  next
    case False
    show ?thesis
      by (rule object_change[OF s(1,2) c(2), where x = "storageChange a key prev"
            and F = "\<lambda>v. v\<lparr>a_storage := (a_storage v)(key := prev)\<rparr>"])
         (use a cs c s(3) False g in
           \<open>simp_all add: so_SetState_def entry_wf_def setState_view acct_idem del: obj_view_sel\<close>,
          use s(3) cs a in \<open>simp_all add: so_setState_def\<close>)
  qed
qed

lemma so_SetCode_step: "object_step (so_SetCode h code)"
  unfolding object_step_def
proof (intro allI impI)
  fix s a o' assume s: "sdb_ok s" "s_stateObjects s a = Some o'" "\<not> so_deleted o'"
  let ?R = "so_SetCode h code o' s"
  let ?d = "s_stateObjectsDestruct s a \<noteq> None"
  obtain prevcode oc s1 where g: "so_Code o' s = (prevcode, oc, s1)" by (metis prod.collapse)
  note sp = so_Code_spec[OF g, of ?d]
  note a = live_wf[OF s(1,2)]
  have c: "cached (env_of s) ?d o' oc" "err_only s s1" "prevcode = code_view (env_of s) o'"
    using sp a by auto
  note cs = cached_sel[OF c(1)]
  let ?prevhash = "CodeHash (so_data o')"
  let ?F = "\<lambda>v. v\<lparr>a_data := (a_data v)\<lparr>CodeHash := hash_bytes (BytesToHash ?prevhash)\<rparr>, a_code := prevcode\<rparr>"
  have ph: "hash_bytes (BytesToHash ?prevhash) = ?prevhash" using a by (simp add: hash_bytes_BytesToHash)
  have undo: "undo_entry (env_of s) (codeChange a prevcode ?prevhash) w = on_live ?F a w" for w
    using c(3) ph a(1) by (auto simp: code_view_def split: if_splits)
  have "?F (obj_view (env_of s) ?d (so_setCode h code oc)) =
      (obj_view (env_of s) ?d oc)\<lparr>a_data := so_data oc, a_code := prevcode\<rparr>"
    using ph cs(2) by (simp add: setCode_view)
  also have "\<dots> = obj_view (env_of s) ?d o'" using cs c(3) by (simp add: acct_idem)
  finally have F: "?F (obj_view (env_of s) ?d (so_setCode h code oc)) = obj_view (env_of s) ?d o'" .
  show "extends s (setStateObject (fst ?R) (snd ?R)) \<and> sdb_ok (setStateObject (fst ?R) (snd ?R))"
    by (rule object_change[OF s(1,2) c(2) _ _ _ _ undo F])
       (use a cs s(3) g in \<open>simp_all add: so_SetCode_def entry_wf_def\<close>,
        simp_all add: so_setCode_def)
qed

subsection \<open>Creating objects\<close>

lemma createObject_new:
  assumes ok: "sdb_ok s" and g: "getDeletedStateObject a s = (None, s1)"
    and o1: "o1 = (newObject (s_hasher s) a None)\<lparr>so_created := True\<rparr>"
    and s': "s' = setStateObject o1 (j_append (createObjectChange a) s1)"
  shows "extends s s' \<and> sdb_ok s'"
proof -
  have wf: "sdb_wf s" using ok by (simp add: sdb_ok_def)
  note gs = getDeletedStateObject_spec[OF g wf]
  have s1: "same s s1" "acct_view s1 a = None" "load_view a (env_of s1) = None" "s_hasher s1 = s_hasher s"
    "s_stateObjects s1 a = None"
    using gs unfolding same_def view_def by (auto simp: env_of_def)
  have ok1: "sdb_ok s1" using s1(1) ok by (auto simp: sdb_ok_def same_def)
  have oa: "so_address o1 = a" "length (CodeHash (so_data o1)) = 32"
    by (simp_all add: o1 newObject_def NewEmptyStateAccount_def)
  have av: "acct_view s' = (acct_view s1)(a \<mapsto> obj_view (env_of s1) (s_stateObjectsDestruct s1 a \<noteq> None) o1)"
    unfolding s' acct_view_setStateObject oa by simp
  have "undo_entry (env_of s1) (createObjectChange a) (view s') =
      Some ((view s1)\<lparr>w_dirties := w_dirties (view s')\<rparr>)"
    using s1(2,3) by (simp add: av fun_upd_idem) (simp add: view_def s' setStateObject_def)
  moreover have "obj_wf b y" if "s_stateObjects s' b = Some y" for b y
    using that oa ok1 unfolding s'
    by (cases "b = a") (auto simp: setStateObject_def obj_wf_def sdb_ok_def sdb_wf_def)
  ultimately have "extends s1 s' \<and> sdb_ok s'" using ok1
    by (intro good_step_append[of s1 s' "createObjectChange a"])
       (auto simp: s' setStateObject_def entry_wf_def sdb_ok_def view_ok_def)
  then show ?thesis using same_extends[OF s1(1)] extends_trans by blast
qed

lemma createObject_reset:
  assumes ok: "sdb_ok s" and g: "getDeletedStateObject a s = (Some p, s1)"
    and d: "d = (s_stateObjectsDestruct s1 a \<noteq> None)"
    and o1: "so_address o1 = a" "length (CodeHash (so_data o1)) = 32"
    and t1: "t1 = (if \<not> d then s1\<lparr>s_stateObjectsDestruct := (s_stateObjectsDestruct s1)(a \<mapsto> so_origin p)\<rparr> else s1)"
    and t2: "t2 = j_append (resetObjectChange a p d (s_accounts t1 (so_addrHash p))
               (s_storages t1 (so_addrHash p)) (s_accountsOrigin t1 a) (s_storagesOrigin t1 a)) t1"
    and s': "s' = setStateObject o1 (t2\<lparr>s_accounts := (s_accounts t2)(so_addrHash p := None),
                          s_storages := (s_storages t2)(so_addrHash p := None),
                          s_accountsOrigin := (s_accountsOrigin t2)(a := None),
                          s_storagesOrigin := (s_storagesOrigin t2)(a := None)\<rparr>)"
  shows "extends s s' \<and> sdb_ok s'"
proof -
  have wf: "sdb_wf s" using ok by (simp add: sdb_ok_def)
  note gs = getDeletedStateObject_spec[OF g wf]
  have s1: "same s s1" "s_stateObjects s1 a = Some p" "obj_wf a p" using gs by auto
  have ok1: "sdb_ok s1" using s1(1) ok by (auto simp: sdb_ok_def same_def)
  let ?x = "resetObjectChange a p d (s_accounts s1 (so_addrHash p)) (s_storages s1 (so_addrHash p))
     (s_accountsOrigin s1 a) (s_storagesOrigin s1 a)"
  have sel: "env_of s' = env_of s1" "s_journal s' = journal_append ?x (s_journal s1)"
    "s_validRevisions s' = s_validRevisions s1" "s_nextRevisionId s' = s_nextRevisionId s1"
    "s_stateObjects s' = (s_stateObjects s1)(a \<mapsto> o1)"
    "s_accounts s' = (s_accounts s1)(so_addrHash p := None)"
    "s_storages s' = (s_storages s1)(so_addrHash p := None)"
    "s_accountsOrigin s' = (s_accountsOrigin s1)(a := None)"
    "s_storagesOrigin s' = (s_storagesOrigin s1)(a := None)"
    "s_refund s' = s_refund s1" "s_logs s' = s_logs s1" "s_logSize s' = s_logSize s1"
    "s_preimages s' = s_preimages s1" "s_accessList s' = s_accessList s1"
    "s_stateObjectsDestruct s' = (if d then s_stateObjectsDestruct s1 else (s_stateObjectsDestruct s1)(a \<mapsto> so_origin p))"
    unfolding s' t2 t1 using o1(1) by (simp_all add: setStateObject_def)
  have "acct_view s' b = acct_view s1 b" if "b \<noteq> a" for b
    using that by (intro acct_view_cong1) (simp_all add: sel)
  then have av: "(acct_view s')(a \<mapsto> obj_view (env_of s1) d p) = acct_view s1"
    using acct_view_live[OF s1(2)] d by (auto simp: fun_eq_iff)
  have "undo_entry (env_of s1) ?x (view s') = Some ((view s1)\<lparr>w_dirties := w_dirties (view s')\<rparr>)"
  proof -
    have p: "so_address p = a" using s1(3) by (simp add: obj_wf_def)
    have dd: "(if d then s_stateObjectsDestruct s' else (s_stateObjectsDestruct s')(a := None)) =
        s_stateObjectsDestruct s1"
      using d by (auto simp: sel fun_upd_idem_iff)
    have "d \<longrightarrow> s_stateObjectsDestruct s' a \<noteq> None" using d by (simp add: sel)
    then show ?thesis
      by (auto simp: Let_def p av dd intro!: world_eqI)
        (auto simp: sel d fun_upd_idem split: option.split)
  qed
  moreover have "obj_wf b y" if "s_stateObjects s' b = Some y" for b y
    using that o1 ok1 unfolding sel by (cases "b = a") (auto simp: obj_wf_def sdb_ok_def sdb_wf_def)
  ultimately have "extends s1 s' \<and> sdb_ok s'" using ok1 s1(3)
    by (intro good_step_append[of s1 s' ?x]) (simp_all add: sel entry_wf_def sdb_ok_def view_ok_def)
  then show ?thesis using same_extends[OF s1(1)] extends_trans by blast
qed

lemma createObject_prev:
  assumes ok: "sdb_ok s" and g: "getDeletedStateObject a s = (Some p, s1)"
    and o: "o' = (newObject (s_hasher s) a None)\<lparr>so_created := True\<rparr>"
  shows "\<exists>t. createObject a s = ((o', if so_deleted p then None else Some p), setStateObject o' t) \<and>
    (\<forall>o1. so_address o1 = a \<longrightarrow> length (CodeHash (so_data o1)) = 32 \<longrightarrow>
      extends s (setStateObject o1 t) \<and> sdb_ok (setStateObject o1 t)) \<and>
    s_stateObjectsDestruct t a \<noteq> None \<and> env_of t = env_of s \<and>
    (\<forall>b. b \<noteq> a \<longrightarrow> acct_view t b = acct_view s b) \<and> s_accessList t = s_accessList s \<and>
    s_logs t = s_logs s"
proof -
  have wf: "sdb_wf s" using ok by (simp add: sdb_ok_def)
  note gs = getDeletedStateObject_spec[OF g wf]
  have same: "same s s1" using gs by simp
  have h: "s_hasher s1 = s_hasher s" using same by (metis env_of_sel(3) same_def)
  have p: "so_address p = a" using gs by (simp add: obj_wf_def)
  define d where "d = (s_stateObjectsDestruct s1 a \<noteq> None)"
  define t1 where "t1 = (if \<not> d then s1\<lparr>s_stateObjectsDestruct := (s_stateObjectsDestruct s1)(a \<mapsto> so_origin p)\<rparr> else s1)"
  define t2 where "t2 = j_append (resetObjectChange a p d (s_accounts t1 (so_addrHash p))
             (s_storages t1 (so_addrHash p)) (s_accountsOrigin t1 a) (s_storagesOrigin t1 a)) t1"
  define t3 where "t3 = t2\<lparr>s_accounts := (s_accounts t2)(so_addrHash p := None),
                        s_storages := (s_storages t2)(so_addrHash p := None),
                        s_accountsOrigin := (s_accountsOrigin t2)(a := None),
                        s_storagesOrigin := (s_storagesOrigin t2)(a := None)\<rparr>"
  have "createObject a s =
      (if \<not> so_deleted p then ((o', Some p), setStateObject o' t3) else ((o', None), setStateObject o' t3))"
    unfolding createObject_def g prod.case Let_def option.case p h o
    unfolding d_def[symmetric] unfolding t1_def[symmetric] unfolding t2_def[symmetric]
    unfolding t3_def[symmetric] ..
  then have c: "createObject a s = ((o', if so_deleted p then None else Some p), setStateObject o' t3)"
    by simp
  have st: "extends s (setStateObject o1 t3) \<and> sdb_ok (setStateObject o1 t3)"
    if "so_address o1 = a" "length (CodeHash (so_data o1)) = 32" for o1
    by (rule createObject_reset[OF ok g d_def that t1_def t2_def]) (simp add: t3_def)
  have sv: "acct_view s1 = acct_view s" "s_accessList s1 = s_accessList s" "s_logs s1 = s_logs s"
    "env_of s1 = env_of s" using same unfolding same_def view_def by auto
  have e: "env_of t3 = env_of s1" "s_stateObjectsDestruct t3 a \<noteq> None"
    "s_accessList t3 = s_accessList s1" "s_logs t3 = s_logs s1"
    unfolding t3_def t2_def t1_def d_def by auto
  have "acct_view t3 b = acct_view s1 b" if "b \<noteq> a" for b
    using that by (intro acct_view_cong1 e(1)) (simp_all add: t3_def t2_def t1_def)
  then show ?thesis using c st e sv by (intro exI[of _ t3]) simp
qed

lemma createObject_None:
  assumes "getDeletedStateObject a s = (None, s1)" "sdb_wf s"
    and o: "o' = (newObject (s_hasher s) a None)\<lparr>so_created := True\<rparr>"
  shows "createObject a s = ((o', None), setStateObject o' (j_append (createObjectChange a) s1))"
proof -
  have "s_hasher s1 = s_hasher s"
    using getDeletedStateObject_spec[OF assms(1,2)] by (metis env_of_sel(3) same_def)
  then show ?thesis using assms(1) by (simp add: createObject_def o Let_def)
qed

lemma createObject_step:
  assumes ok: "sdb_ok s" and c: "createObject a s = ((o1, prev), s')"
  shows "extends s s' \<and> sdb_ok s' \<and> s_stateObjects s' a = Some o1 \<and> \<not> so_deleted o1 \<and>
    o1 = (newObject (s_hasher s) a None)\<lparr>so_created := True\<rparr>"
proof -
  obtain r s1 where g: "getDeletedStateObject a s = (r, s1)" by fastforce
  have wf: "sdb_wf s" using ok by (simp add: sdb_ok_def)
  define o' where o': "o' = (newObject (s_hasher s) a None)\<lparr>so_created := True\<rparr>"
  have o: "so_address o' = a" "length (CodeHash (so_data o')) = 32" "\<not> so_deleted o'"
    by (simp_all add: o' newObject_def NewEmptyStateAccount_def)
  show ?thesis
  proof (cases r)
    case None
    have c': "o1 = o'" "s' = setStateObject o' (j_append (createObjectChange a) s1)"
      using c createObject_None[OF g[unfolded None] wf o'] by auto
    have "extends s s' \<and> sdb_ok s'"
      by (rule createObject_new[OF ok g[unfolded None] o' c'(2)])
    then show ?thesis using c' o o' by (simp add: setStateObject_def)
  next
    case (Some p)
    obtain t where "createObject a s = ((o', if so_deleted p then None else Some p), setStateObject o' t)"
      "\<forall>o1. so_address o1 = a \<longrightarrow> length (CodeHash (so_data o1)) = 32 \<longrightarrow>
        extends s (setStateObject o1 t) \<and> sdb_ok (setStateObject o1 t)"
      using createObject_prev[OF ok g[unfolded Some] o'] by blast
    then show ?thesis using c o o' by (auto simp: setStateObject_def)
  qed
qed

lemma GetOrNewStateObject_step:
  assumes ok: "sdb_ok s" and c: "GetOrNewStateObject a s = (o1, s')"
  shows "extends s s' \<and> sdb_ok s' \<and> s_stateObjects s' a = Some o1 \<and> \<not> so_deleted o1"
proof -
  obtain r s1 where g: "getStateObject a s = (r, s1)" by fastforce
  have wf: "sdb_wf s" using ok by (simp add: sdb_ok_def)
  note gs = getStateObject_live[OF g wf]
  have ok1: "sdb_ok s1" "extends s s1"
    using gs ok same_good_step[of s s1] by (auto simp: good_step_def)
  show ?thesis
  proof (cases r)
    case None
    obtain o2 p s2 where "createObject a s1 = ((o2, p), s2)" by (metis prod.collapse)
    with createObject_step[OF ok1(1) this] show ?thesis
      using None c g ok1(2) extends_trans by (auto simp: GetOrNewStateObject_def)
  next
    case (Some o')
    then show ?thesis using gs c g ok1 by (auto simp: GetOrNewStateObject_def)
  qed
qed

lemma good_with_object: "object_step f \<Longrightarrow> good_step s (with_object f a s)"
proof -
  assume f: "object_step f"
  obtain o1 s1 where g: "GetOrNewStateObject a s = (o1, s1)" by fastforce
  show ?thesis unfolding good_step_def
  proof
    assume ok: "sdb_ok s"
    note gs = GetOrNewStateObject_step[OF ok g]
    have "with_object f a s = setStateObject (fst (f o1 s1)) (snd (f o1 s1))"
      by (simp add: with_object_def g case_prod_beta)
    then show "extends s (with_object f a s) \<and> sdb_ok (with_object f a s)"
      using f gs extends_trans unfolding object_step_def by metis
  qed
qed

lemma good_AddBalance: "good_step s (AddBalance a x s)"
  unfolding AddBalance_def by (rule good_with_object[OF so_AddBalance_step])

lemma good_SubBalance: "good_step s (SubBalance a x s)"
  unfolding SubBalance_def by (rule good_with_object[OF so_SubBalance_step])

lemma good_SetBalance: "good_step s (SetBalance a x s)"
  unfolding SetBalance_def by (rule good_with_object[OF so_SetBalance_step])

lemma good_SetNonce: "good_step s (SetNonce a n s)"
  unfolding SetNonce_def by (rule good_with_object[OF so_SetNonce_step])

lemma good_SetCode: "good_step s (SetCode a code s)"
  unfolding SetCode_def by (rule good_with_object[OF so_SetCode_step])

lemma good_SetState: "good_step s (SetState a key v s)"
  unfolding SetState_def by (rule good_with_object[OF so_SetState_step])

text \<open>\<open>CreateAccount\<close> sets the balance of the object it has just created without a journal entry.\<close>

lemma good_CreateAccount: "good_step s (CreateAccount a s)"
  unfolding good_step_def
proof
  assume ok: "sdb_ok s"
  obtain r s1 where g: "getDeletedStateObject a s = (r, s1)" by fastforce
  have wf: "sdb_wf s" using ok by (simp add: sdb_ok_def)
  define o' where o': "o' = (newObject (s_hasher s) a None)\<lparr>so_created := True\<rparr>"
  have o: "so_address o' = a" "length (CodeHash (so_data o')) = 32"
    by (simp_all add: o' newObject_def NewEmptyStateAccount_def)
  show "extends s (CreateAccount a s) \<and> sdb_ok (CreateAccount a s)"
  proof (cases r)
    case None
    then have "CreateAccount a s = snd (createObject a s)"
      using createObject_None[OF g[unfolded None] wf o'] by (simp add: CreateAccount_def)
    then show ?thesis using createObject_step[OF ok] by (metis prod.collapse)
  next
    case (Some p)
    obtain t where t: "createObject a s = ((o', if so_deleted p then None else Some p), setStateObject o' t)"
      "\<forall>o1. so_address o1 = a \<longrightarrow> length (CodeHash (so_data o1)) = 32 \<longrightarrow>
        extends s (setStateObject o1 t) \<and> sdb_ok (setStateObject o1 t)"
      using createObject_prev[OF ok g[unfolded Some] o'] by blast
    have "setStateObject (so_setBalance b o') (setStateObject o' t) = setStateObject (so_setBalance b o') t" for b
      by (simp add: setStateObject_def so_setBalance_def)
    then show ?thesis using t o by (simp add: CreateAccount_def so_setBalance_def)
  qed
qed

end
