(* ===== verification/StateSnapshot.thy ===== *)
theory StateSnapshot
  imports StateRevert
begin

text \<open>
  \<open>journal.revert\<close> refines the undoing of journal entries on views, so that \<open>RevertToSnapshot\<close>
  restores everything a user of the state can see, however deeply snapshots were nested in between.
\<close>

definition keeps :: "statedb \<Rightarrow> statedb \<Rightarrow> bool" where
  "keeps s s' \<longleftrightarrow>
     env_of s' = env_of s \<and> s_journal s' = s_journal s \<and> s_validRevisions s' = s_validRevisions s \<and>
     s_nextRevisionId s' = s_nextRevisionId s \<and> sdb_wf s'"

lemma on_object_refines:
  assumes wf: "sdb_wf s" and live: "on_live F a (view s) = Some w"
    and f: "\<And>o'. obj_wf a o' \<Longrightarrow> obj_wf a (f o') \<and>
      obj_view (env_of s) (s_stateObjectsDestruct s a \<noteq> None) (f o') =
      F (obj_view (env_of s) (s_stateObjectsDestruct s a \<noteq> None) o')"
  shows "\<exists>s'. on_object f a s = Some s' \<and> view s' = w \<and> keeps s s'"
proof -
  obtain r s1 where g: "getStateObject a s = (r, s1)" by fastforce
  note gs = getStateObject_live[OF g wf]
  obtain v where v: "acct_view s a = Some v" "\<not> a_deleted v" "w = (view s)\<lparr>w_acct := (acct_view s)(a \<mapsto> F v)\<rparr>"
    using live by (auto simp: on_live_def split: option.splits if_splits)
  then have "live_acct (view s) a = Some v" by (simp add: live_acct_def)
  then obtain o' where r: "r = Some o'" "v = obj_view (env_of s) (s_stateObjectsDestruct s a \<noteq> None) o'"
    using gs by auto
  have o': "obj_wf a o'" "obj_wf a (f o')" "so_address (f o') = a" using gs r f by (auto simp: obj_wf_def)
  have s1: "view s1 = view s" "env_of s1 = env_of s" "sdb_wf s1" using gs by (auto simp: same_def)
  then have av: "acct_view s1 = acct_view s" by (metis view_sel(1))
  have "acct_view (setStateObject (f o') s1) = (acct_view s)(a \<mapsto> F v)"
    using gs o' f[OF o'(1)] r(2) s1 by (simp add: acct_view_setStateObject av)
  then have "view (setStateObject (f o') s1) = w" using v(3) s1(1) by (simp add: view_setStateObject)
  moreover have "keeps s (setStateObject (f o') s1)"
    using gs s1 o' sdb_wf_setStateObject[of s1 "f o'"]
    by (auto simp: keeps_def same_def) (simp_all add: setStateObject_def)
  ultimately show ?thesis using g r by (simp add: on_object_def)
qed

lemma revert_createObject:
  assumes "sdb_wf s" "load_view a (env_of s) = None"
    and s': "s' = s\<lparr>s_stateObjects := (s_stateObjects s)(a := None), s_stateObjectsDirty := D\<rparr>"
  shows "view s' = (view s)\<lparr>w_acct := (acct_view s)(a := None)\<rparr> \<and> keeps s s'"
proof -
  have e: "env_of s' = env_of s" by (simp add: s')
  have "acct_view s' b = acct_view s b" if "b \<noteq> a" for b
    using that by (intro acct_view_cong1 e) (simp_all add: s')
  moreover have "acct_view s' a = None" using assms(2) e by (simp add: acct_view_def) (simp add: s')
  ultimately have "acct_view s' = (acct_view s)(a := None)" by auto
  then have "view s' = (view s)\<lparr>w_acct := (acct_view s)(a := None)\<rparr>"
    by (intro world_eqI) (simp_all add: s')
  then show ?thesis using assms(1) by (auto simp: s' keeps_def sdb_wf_def revs_wf_def)
qed

lemma reset_fields:
  fixes s acc st ao sto
  assumes "s' = (let s1 = setStateObject prev s;
          s2 = (if \<not> d then s1\<lparr>s_stateObjectsDestruct := (s_stateObjectsDestruct s1)(pa := None)\<rparr> else s1);
          s3 = (case acc of None \<Rightarrow> s2 | Some x \<Rightarrow> s2\<lparr>s_accounts := (s_accounts s2)(ph \<mapsto> x)\<rparr>);
          s4 = (case st of None \<Rightarrow> s3 | Some x \<Rightarrow> s3\<lparr>s_storages := (s_storages s3)(ph \<mapsto> x)\<rparr>);
          s5 = (case ao of None \<Rightarrow> s4 | Some x \<Rightarrow> s4\<lparr>s_accountsOrigin := (s_accountsOrigin s4)(pa \<mapsto> x)\<rparr>)
      in (case sto of None \<Rightarrow> s5 | Some x \<Rightarrow> s5\<lparr>s_storagesOrigin := (s_storagesOrigin s5)(pa \<mapsto> x)\<rparr>))"
  shows "s' = s\<lparr>s_stateObjects := (s_stateObjects s)(so_address prev \<mapsto> prev),
     s_stateObjectsDestruct := (if d then s_stateObjectsDestruct s else (s_stateObjectsDestruct s)(pa := None)),
     s_accounts := (case acc of None \<Rightarrow> s_accounts s | Some x \<Rightarrow> (s_accounts s)(ph \<mapsto> x)),
     s_storages := (case st of None \<Rightarrow> s_storages s | Some x \<Rightarrow> (s_storages s)(ph \<mapsto> x)),
     s_accountsOrigin := (case ao of None \<Rightarrow> s_accountsOrigin s | Some x \<Rightarrow> (s_accountsOrigin s)(pa \<mapsto> x)),
     s_storagesOrigin := (case sto of None \<Rightarrow> s_storagesOrigin s | Some x \<Rightarrow> (s_storagesOrigin s)(pa \<mapsto> x))\<rparr>"
  unfolding assms Let_def setStateObject_def
  by (cases d; cases acc; cases st; cases ao; cases sto; simp)

lemma revert_resetObject:
  assumes "sdb_wf s" "obj_wf a p" "d \<longrightarrow> s_stateObjectsDestruct s a \<noteq> None"
    and r: "revert_entry (resetObjectChange a p d acc st ao sto) s = Some s'"
  shows "undo_entry (env_of s) (resetObjectChange a p d acc st ao sto) (view s) = Some (view s') \<and> keeps s s'"
proof -
  have p: "so_address p = a" using assms(2) by (simp add: obj_wf_def)
  have s': "s' = s\<lparr>s_stateObjects := (s_stateObjects s)(a \<mapsto> p),
     s_stateObjectsDestruct := (if d then s_stateObjectsDestruct s else (s_stateObjectsDestruct s)(a := None)),
     s_accounts := (case acc of None \<Rightarrow> s_accounts s | Some x \<Rightarrow> (s_accounts s)(so_addrHash p \<mapsto> x)),
     s_storages := (case st of None \<Rightarrow> s_storages s | Some x \<Rightarrow> (s_storages s)(so_addrHash p \<mapsto> x)),
     s_accountsOrigin := (case ao of None \<Rightarrow> s_accountsOrigin s | Some x \<Rightarrow> (s_accountsOrigin s)(a \<mapsto> x)),
     s_storagesOrigin := (case sto of None \<Rightarrow> s_storagesOrigin s | Some x \<Rightarrow> (s_storagesOrigin s)(a \<mapsto> x))\<rparr>"
    by (rule reset_fields[where prev = p and pa = a and ph = "so_addrHash p", unfolded p])
       (use r in \<open>simp add: p Let_def\<close>)
  have e: "env_of s' = env_of s" by (simp add: s')
  have "acct_view s' b = acct_view s b" if "b \<noteq> a" for b
    using that by (intro acct_view_cong1 e) (simp_all add: s')
  moreover have "acct_view s' a = Some (obj_view (env_of s) d p)"
    using acct_view_live[of s' a p] e assms(3) by (cases d) (auto simp: s')
  ultimately have av: "acct_view s' = (acct_view s)(a \<mapsto> obj_view (env_of s) d p)" by auto
  have sel: "s_accounts s' = (case acc of None \<Rightarrow> s_accounts s | Some x \<Rightarrow> (s_accounts s)(so_addrHash p \<mapsto> x))"
    "s_storages s' = (case st of None \<Rightarrow> s_storages s | Some x \<Rightarrow> (s_storages s)(so_addrHash p \<mapsto> x))"
    "s_accountsOrigin s' = (case ao of None \<Rightarrow> s_accountsOrigin s | Some x \<Rightarrow> (s_accountsOrigin s)(a \<mapsto> x))"
    "s_storagesOrigin s' = (case sto of None \<Rightarrow> s_storagesOrigin s | Some x \<Rightarrow> (s_storagesOrigin s)(a \<mapsto> x))"
    "s_stateObjectsDestruct s' = (if d then s_stateObjectsDestruct s else (s_stateObjectsDestruct s)(a := None))"
    "s_refund s' = s_refund s" "s_logs s' = s_logs s" "s_logSize s' = s_logSize s"
    "s_preimages s' = s_preimages s" "s_accessList s' = s_accessList s" "s_journal s' = s_journal s"
    by (simp_all add: s')
  have "undo_entry (env_of s) (resetObjectChange a p d acc st ao sto) (view s) = Some (view s')"
    using p assms(3) by (simp add: Let_def) (intro conjI impI world_eqI; simp add: av sel cong: option.case_cong)
  then show ?thesis using assms(1,2) by (auto simp: s' keeps_def sdb_wf_def revs_wf_def)
qed

lemma revert_entry_refines:
  assumes wf: "sdb_wf s" and x: "entry_wf x" and u: "undo_entry (env_of s) x (view s) = Some w"
  shows "\<exists>s'. revert_entry x s = Some s' \<and> view s' = w \<and> keeps s s'"
proof (cases x)
  case (createObjectChange a)
  then show ?thesis using u revert_createObject[OF wf _ refl, of a] by (auto split: if_splits)
next
  case (resetObjectChange a p d acc st ao sto)
  obtain s' where r: "revert_entry (resetObjectChange a p d acc st ao sto) s = Some s'"
    by (simp add: Let_def)
  have "obj_wf a p" "d \<longrightarrow> s_stateObjectsDestruct s a \<noteq> None"
    using x u by (auto simp: resetObjectChange entry_wf_def Let_def split: if_splits)
  from revert_resetObject[OF wf this r] show ?thesis using u r by (simp add: resetObjectChange)
next
  case (balanceChange a b)
  then show ?thesis using u
    by (simp, intro on_object_refines[OF wf]) (auto simp: obj_wf_def setBalance_view, auto simp: so_setBalance_def)
next
  case (nonceChange a n)
  then show ?thesis using u
    by (simp, intro on_object_refines[OF wf]) (auto simp: obj_wf_def setNonce_view, auto simp: so_setNonce_def)
next
  case (storageChange a key v)
  then show ?thesis using u
    by (simp, intro on_object_refines[OF wf])
       (auto simp: obj_wf_def setState_view simp del: obj_view_sel, auto simp: so_setState_def)
next
  case (codeChange a code h)
  have u': "on_live (\<lambda>v. v\<lparr>a_data := (a_data v)\<lparr>CodeHash := hash_bytes (BytesToHash h)\<rparr>, a_code := code\<rparr>) a (view s) = Some w"
    and c: "code = [] \<longrightarrow> hash_bytes (BytesToHash h) = hash_bytes (EmptyCodeHash (s_hasher s)) \<or>
      fst (ContractCode (s_db s) a (BytesToHash h)) = []"
    using u by (auto simp: codeChange split: if_splits)
  have "code_view (env_of s) (so_setCode (BytesToHash h) code o') = code" if "so_address o' = a" for o'
    using c that by (auto simp: code_view_def so_setCode_def)
  then show ?thesis unfolding codeChange revert_entry.simps
    by (intro on_object_refines[OF wf u']) (auto simp: obj_wf_def setCode_view, auto simp: so_setCode_def)
next
  case (refundChange r)
  then show ?thesis using u wf
    by (auto simp: keeps_def sdb_wf_def revs_wf_def intro!: world_eqI acct_view_cong)
next
  case (addLogChange h)
  then show ?thesis using u wf
    by (auto simp: keeps_def sdb_wf_def revs_wf_def split: option.splits if_splits
        intro!: world_eqI acct_view_cong)
next
  case (addPreimageChange h)
  then show ?thesis using u wf
    by (auto simp: keeps_def sdb_wf_def revs_wf_def intro!: world_eqI acct_view_cong)
next
  case (touchChange a)
  then show ?thesis using u wf by (simp add: keeps_def)
next
  case (accessListAddAccountChange a)
  then show ?thesis using u wf
    by (auto simp: keeps_def sdb_wf_def revs_wf_def intro!: world_eqI acct_view_cong)
next
  case (accessListAddSlotChange a sl)
  then show ?thesis using u wf
    by (auto simp: keeps_def sdb_wf_def revs_wf_def intro!: world_eqI acct_view_cong)
qed

lemma drop_dirty_refines:
  assumes "sdb_wf s" "\<And>a. dirtied x = Some a \<Longrightarrow> w_dirties (view s) a \<noteq> None"
  shows "view (drop_dirty x s) = undo_dirty x (view s) \<and> sdb_wf (drop_dirty x s) \<and>
    env_of (drop_dirty x s) = env_of s \<and>
    entries (s_journal (drop_dirty x s)) = entries (s_journal s) \<and>
    s_validRevisions (drop_dirty x s) = s_validRevisions s \<and>
    s_nextRevisionId (drop_dirty x s) = s_nextRevisionId s"
proof (cases "dirtied x")
  case None
  then show ?thesis using assms(1) by (simp add: drop_dirty_def undo_dirty_def)
next
  case (Some a)
  then obtain n where n: "map_of (dirties (s_journal s)) a = Some n" using assms(2) by auto
  then have "0 < n" using assms(1) by (simp add: sdb_wf_def)
  have c: "dirty_count (s_journal s) a = n" using n by (simp add: dirty_count_def)
  let ?d = "if n - 1 = 0 then AList.delete a (dirties (s_journal s))
            else AList.update a (n - 1) (dirties (s_journal s))"
  have m: "map_of ?d = (map_of (dirties (s_journal s)))(a := if n - 1 = 0 then None else Some (n - 1))"
    by (simp add: delete_conv' update_conv')
  have s': "drop_dirty x s = s\<lparr>s_journal := (s_journal s)\<lparr>dirties := ?d\<rparr>\<rparr>"
    using Some c by (simp add: drop_dirty_def Let_def)
  have "acct_view (drop_dirty x s) = acct_view s" by (rule acct_view_cong) (simp_all add: s')
  then have "view (drop_dirty x s) = undo_dirty x (view s)"
    using m n Some by (intro world_eqI) (simp_all add: undo_dirty_def s')
  moreover have "sdb_wf (drop_dirty x s)"
    using assms(1) m \<open>0 < n\<close> unfolding s' by (auto simp: sdb_wf_def revs_wf_def split: if_splits)
  ultimately show ?thesis unfolding s' by simp
qed

lemma revert_loop_refines:
  assumes "sdb_wf s" "\<And>x. x \<in> set xs \<Longrightarrow> entry_wf x" "undos (env_of s) xs (view s) = Some w"
  shows "\<exists>s'. revert_loop (rev xs) s = Some s' \<and> view s' = w \<and> sdb_wf s' \<and> env_of s' = env_of s \<and>
    entries (s_journal s') = entries (s_journal s) \<and> s_validRevisions s' = s_validRevisions s \<and>
    s_nextRevisionId s' = s_nextRevisionId s"
  using assms
proof (induction xs arbitrary: s rule: rev_induct)
  case Nil
  then show ?case by simp
next
  case (snoc x xs)
  obtain w1 where w1: "undo (env_of s) x (view s) = Some w1" "undos (env_of s) xs w1 = Some w"
    using snoc.prems(3) by (auto simp: undos_append bind_eq_Some_conv)
  then obtain w2 where w2: "undo_entry (env_of s) x (view s) = Some w2" "w1 = undo_dirty x w2"
    and d: "\<And>a. dirtied x = Some a \<Longrightarrow> w_dirties (view s) a \<noteq> None"
    by (auto simp: undo_def split: if_splits option.splits)
  obtain s1 where s1: "revert_entry x s = Some s1" "view s1 = w2" "keeps s s1"
    using revert_entry_refines[OF snoc.prems(1) _ w2(1)] snoc.prems(2) by auto
  have "w_dirties (view s1) = w_dirties (view s)" using s1(3) by (simp add: keeps_def)
  then have dd: "view (drop_dirty x s1) = w1" "sdb_wf (drop_dirty x s1)"
    "env_of (drop_dirty x s1) = env_of s"
    "entries (s_journal (drop_dirty x s1)) = entries (s_journal s)"
    "s_validRevisions (drop_dirty x s1) = s_validRevisions s"
    "s_nextRevisionId (drop_dirty x s1) = s_nextRevisionId s"
    using drop_dirty_refines[of s1 x] d s1 w2(2) by (auto simp: keeps_def)
  from snoc.IH[of "drop_dirty x s1"] snoc.prems(2) w1(2) dd s1(1) show ?case by auto
qed

subsection \<open>Snapshots\<close>

lemma view_upd [simp]:
  "view (s\<lparr>s_validRevisions := x\<rparr>) = view s" "view (s\<lparr>s_nextRevisionId := n\<rparr>) = view s"
  "view (s\<lparr>s_journal := (s_journal s)\<lparr>entries := es\<rparr>\<rparr>) = view s"
  by (intro world_eqI; simp; rule acct_view_cong; simp)+

lemma good_Snapshot: "good_step s (snd (Snapshot s))"
  unfolding good_step_def
proof
  assume ok: "sdb_ok s"
  have "extends s (snd (Snapshot s))" by (simp add: Snapshot_def extends_def)
  moreover have "sdb_wf (snd (Snapshot s))"
    using ok by (auto simp: Snapshot_def sdb_ok_def sdb_wf_def revs_wf_def sorted_wrt_append)
  ultimately show "extends s (snd (Snapshot s)) \<and> sdb_ok (snd (Snapshot s))"
    using ok by (simp add: sdb_ok_def) (simp add: Snapshot_def)
qed

text \<open>The search finds the revision that the snapshot has pushed.\<close>

lemma search_revision:
  assumes wf: "revs_wf s" and revs: "s_validRevisions s = qs @ r # rs"
  shows "sort_Search (length (s_validRevisions s)) (\<lambda>i. rev_id (s_validRevisions s ! i) \<ge> rev_id r) = length qs"
proof (rule sort_Search_threshold)
  show "length qs \<le> length (s_validRevisions s)" by (simp add: revs)
  fix h assume h: "h < length (s_validRevisions s)"
  let ?v = "map rev_id (s_validRevisions s)"
  have srt: "sorted_wrt (<) ?v" using wf by (simp add: revs_wf_def)
  have q: "?v ! length qs = rev_id r" "length qs < length ?v" by (simp_all add: revs nth_append)
  have "?v ! h < rev_id r \<longleftrightarrow> h < length qs"
    using sorted_wrt_nth_less[OF srt] q h
    by (metis length_map linorder_neqE_nat order_less_asym less_irrefl)
  then show "rev_id r \<le> rev_id (s_validRevisions s ! h) \<longleftrightarrow> length qs \<le> h" using h by auto
qed

lemma RevertToSnapshot_restores:
  assumes ok: "sdb_ok s" and snap: "Snapshot s = (revid, s1)" and ext: "extends s1 s2" and wf2: "sdb_wf s2"
  shows "\<exists>s3. RevertToSnapshot revid s2 = Some s3 \<and> view s3 = view s \<and> sdb_ok s3 \<and> env_of s3 = env_of s \<and>
    entries (s_journal s3) = entries (s_journal s) \<and> s_validRevisions s3 = s_validRevisions s \<and>
    s_nextRevisionId s \<le> s_nextRevisionId s3"
proof -
  let ?r = "\<lparr>rev_id = revid, journalIndex = length (entries (s_journal s))\<rparr>"
  have s1: "s_validRevisions s1 = s_validRevisions s @ [?r]" "s_journal s1 = s_journal s" "env_of s1 = env_of s"
    "view s1 = view s" "s_nextRevisionId s \<le> s_nextRevisionId s1"
    using snap by (auto simp: Snapshot_def)
  obtain xs rs where x: "entries (s_journal s2) = entries (s_journal s) @ xs" "\<forall>x \<in> set xs. entry_wf x"
    "undos (env_of s2) xs (view s2) = Some (view s)"
    and rs: "s_validRevisions s2 = s_validRevisions s @ ?r # rs" and e: "env_of s2 = env_of s"
    "s_nextRevisionId s \<le> s_nextRevisionId s2"
    using ext s1 unfolding extends_def by auto
  have revs2: "revs_wf s2" using wf2 by (simp add: sdb_wf_def)
  obtain s3 where s3: "revert_loop (rev xs) s2 = Some s3" "view s3 = view s" "sdb_wf s3"
    "env_of s3 = env_of s2" "entries (s_journal s3) = entries (s_journal s2)"
    "s_validRevisions s3 = s_validRevisions s2" "s_nextRevisionId s3 = s_nextRevisionId s2"
    using revert_loop_refines[OF wf2 _ x(3)] x(2) by blast
  let ?s4 = "s3\<lparr>s_journal := (s_journal s3)\<lparr>entries := entries (s_journal s)\<rparr>,
                s_validRevisions := s_validRevisions s\<rparr>"
  have "RevertToSnapshot revid s2 = Some ?s4"
    using search_revision[OF revs2 rs] s3 x(1) rs
    by (simp add: RevertToSnapshot_def journal_revert_def Let_def)
  moreover have v: "view ?s4 = view s" using s3(2) by simp
  moreover have "sdb_wf ?s4"
    using s3 ok e by (auto simp: sdb_wf_def revs_wf_def sdb_ok_def)
  ultimately show ?thesis using s3 e ok by (auto simp: sdb_ok_def)
qed

lemma RevertToSnapshot_extends:
  assumes ok: "sdb_ok s" and snap: "Snapshot s = (revid, s1)" and ext: "extends s1 s2" and wf2: "sdb_wf s2"
  shows "\<exists>s3. RevertToSnapshot revid s2 = Some s3 \<and> view s3 = view s \<and> sdb_ok s3 \<and> extends s s3"
  using RevertToSnapshot_restores[OF assms] by (auto simp: extends_def)

end
