(* ===== verification/VMState.thy ===== *)
theory VMState
  imports Interpreter StateSnapshot
begin

text \<open>
  What an execution can do to the state. The locale \<open>state_relation\<close> collects what has to be known of
  a relation between states for it to hold between the state before and after any execution: that
  every state operation the machine uses respects it. The flag says whether the machine is in
  read-only mode; operations that write need to respect the relation only outside of it.

  Facts about executions are proved once in the locale, by going through the instructions, the gas
  functions, the loop and the depth of calls.
\<close>

subsection \<open>Inversion of outcomes\<close>

definition frame :: "QRVM \<Rightarrow> QRVM \<Rightarrow> bool" where
  "frame m m' \<longleftrightarrow> m_readOnly m' = m_readOnly m \<and> m_depth m' = m_depth m"

definition machine_step :: "(bool \<Rightarrow> statedb \<Rightarrow> statedb \<Rightarrow> bool) \<Rightarrow> QRVM \<Rightarrow> QRVM \<Rightarrow> bool" where
  "machine_step R m m' \<longleftrightarrow> frame m m' \<and> R (m_readOnly m) (m_StateDB m) (m_StateDB m')"

definition run_rel :: "(bool \<Rightarrow> statedb \<Rightarrow> statedb \<Rightarrow> bool) \<Rightarrow> runner \<Rightarrow> bool" where
  "run_rel R run \<longleftrightarrow>
     (\<forall>c input ro m ret err c' m'. run c input ro m = Ok (ret, err, c', m') \<longrightarrow>
        frame m m' \<and> R (m_readOnly m \<or> ro) (m_StateDB m) (m_StateDB m'))"

definition exec_rel :: "hash \<Rightarrow> (bool \<Rightarrow> statedb \<Rightarrow> statedb \<Rightarrow> bool) \<Rightarrow> executionFunc \<Rightarrow> bool" where
  "exec_rel h R f \<longleftrightarrow>
     (\<forall>E run pc m sc res err pc' m' sc'. EmptyCodeHash (e_Keccak256 E) = h \<longrightarrow> run_rel R run \<longrightarrow>
        f E run pc m sc = Ok (res, err, pc', m', sc') \<longrightarrow> machine_step R m m')"

definition gas_rel :: "(bool \<Rightarrow> statedb \<Rightarrow> statedb \<Rightarrow> bool) \<Rightarrow> gasFunc \<Rightarrow> bool" where
  "gas_rel R f \<longleftrightarrow>
     (\<forall>E m c st mem sz r m' c' mem'. f E m c st mem sz = Ok (r, m', c', mem') \<longrightarrow> machine_step R m m')"

definition op_rel :: "hash \<Rightarrow> (bool \<Rightarrow> statedb \<Rightarrow> statedb \<Rightarrow> bool) \<Rightarrow> operation \<Rightarrow> bool" where
  "op_rel h R o' \<longleftrightarrow> exec_rel h R (op_execute o') \<and> (\<forall>f. op_dynamicGas o' = Some f \<longrightarrow> gas_rel R f)"

text \<open>How a failed call leaves the state: unchanged up to caches, or reverted to its snapshot.\<close>

definition undone :: "(bool \<Rightarrow> statedb \<Rightarrow> statedb \<Rightarrow> bool) \<Rightarrow> bool \<Rightarrow> statedb \<Rightarrow> statedb \<Rightarrow> bool" where
  "undone R ro s s' \<longleftrightarrow>
     (sdb_wf s \<longrightarrow> same s s') \<or>
     (\<exists>s0 i s1 s2. (sdb_wf s \<longrightarrow> same s s0) \<and> Snapshot s0 = (i, s1) \<and> R ro s1 s2 \<and> RevertToSnapshot i s2 = Some s')"

definition call_effect ::
  "(bool \<Rightarrow> statedb \<Rightarrow> statedb \<Rightarrow> bool) \<Rightarrow> vm_error option \<Rightarrow> QRVM \<Rightarrow> QRVM \<Rightarrow> bool" where
  "call_effect R err m m' \<longleftrightarrow>
     machine_step R m m' \<and> (err \<noteq> None \<longrightarrow> undone R (m_readOnly m) (m_StateDB m) (m_StateDB m'))"

text \<open>
  How a failed creation leaves the state: the nonce of the creator and the access list are changed
  before the snapshot is taken, and stay changed.
\<close>

definition create_undone ::
  "(bool \<Rightarrow> statedb \<Rightarrow> statedb \<Rightarrow> bool) \<Rightarrow> address \<Rightarrow> address \<Rightarrow> vm_error option \<Rightarrow> statedb \<Rightarrow> statedb \<Rightarrow> bool" where
  "create_undone R self address err s s' \<longleftrightarrow>
     (sdb_ok s \<longrightarrow> err \<noteq> None \<longrightarrow> err \<noteq> Some ErrCodeStoreOutOfGas \<longrightarrow>
        undone R False s s' \<or>
        (\<exists>s1 nonce. (sdb_wf s \<longrightarrow> same s s1) \<and>
           undone R False (AddAddressToAccessList address (SetNonce self nonce s1)) s'))"

lemma same_wf: "same s s' \<Longrightarrow> sdb_wf s \<Longrightarrow> sdb_wf s'"
  by (simp add: same_def)

lemma undone_cache: "undone R ro s1 s' \<Longrightarrow> (sdb_wf s \<longrightarrow> same s s1) \<Longrightarrow> undone R ro s s'"
  unfolding undone_def by (auto simp: same_def)

lemma create_undone_cache:
  "create_undone R self a err s1 s' \<Longrightarrow> (sdb_wf s \<longrightarrow> same s s1) \<Longrightarrow> create_undone R self a err s s'"
  unfolding create_undone_def sdb_ok_def
  by (metis same_def same_trans undone_cache)

lemma frame_refl [simp]: "frame m m"
  by (simp add: frame_def)

lemma frame_trans: "frame m m' \<Longrightarrow> frame m' m'' \<Longrightarrow> frame m m''"
  by (simp add: frame_def)

lemma frame_upd [simp]:
  "frame m (m'\<lparr>m_StateDB := s\<rparr>) = frame m m'" "frame (m\<lparr>m_StateDB := s\<rparr>) m' = frame m m'"
  "frame m (m'\<lparr>m_returnData := d\<rparr>) = frame m m'" "frame m (m'\<lparr>m_callGasTemp := g\<rparr>) = frame m m'"
  "frame m (m'\<lparr>m_jumpdests := j\<rparr>) = frame m m'" "frame m (m'\<lparr>m_loads := n\<rparr>) = frame m m'"
  by (simp_all add: frame_def)

lemma exec_relI:
  "(\<And>E run pc m sc res err pc' m' sc'. EmptyCodeHash (e_Keccak256 E) = h \<Longrightarrow> run_rel R run \<Longrightarrow>
      f E run pc m sc = Ok (res, err, pc', m', sc') \<Longrightarrow> frame m m' \<and> R (m_readOnly m) (m_StateDB m) (m_StateDB m')) \<Longrightarrow>
   exec_rel h R f"
  unfolding exec_rel_def machine_step_def by blast

lemma gas_relI:
  "(\<And>E m c st mem sz r m' c' mem'. f E m c st mem sz = Ok (r, m', c', mem') \<Longrightarrow>
      frame m m' \<and> R (m_readOnly m) (m_StateDB m) (m_StateDB m')) \<Longrightarrow> gas_rel R f"
  unfolding gas_rel_def machine_step_def by blast

lemma gas_relD: "gas_rel R f \<Longrightarrow> f E m c st mem sz = Ok (r, m', c', mem') \<Longrightarrow> machine_step R m m'"
  unfolding gas_rel_def by blast

lemma run_relD:
  "run_rel R run \<Longrightarrow> run c input ro m = Ok (ret, err, c', m') \<Longrightarrow>
   frame m m' \<and> R (m_readOnly m \<or> ro) (m_StateDB m) (m_StateDB m')"
  unfolding run_rel_def by blast

lemmas outcome_inv = bind_outcome_Ok of_option_Ok

lemma bind_OkE: "bind_outcome x f = Ok y \<Longrightarrow> (\<And>z. x = Ok z \<Longrightarrow> f z = Ok y \<Longrightarrow> P) \<Longrightarrow> P"
  by (cases x) auto

lemma with_backE: "with_back n st f = Ok y \<Longrightarrow> (\<And>z. stack_Back n st = Some z \<Longrightarrow> f z = Ok y \<Longrightarrow> P) \<Longrightarrow> P"
  by (cases "stack_Back n st") (auto simp: with_back_def of_option_def)

lemmas stack_splits = list.splits

lemma NewContract_frame [simp]:
  "frame m (snd (NewContract caller a v g m))" "m_StateDB (snd (NewContract caller a v g m)) = m_StateDB m"
  "m_readOnly (snd (NewContract caller a v g m)) = m_readOnly m" "m_depth (snd (NewContract caller a v g m)) = m_depth m"
  by (auto simp: NewContract_def split: ContractRef.splits)

lemma isCode_frame:
  "isCode udest c m = Ok (b, c', m') \<Longrightarrow> frame m m' \<and> m_StateDB m' = m_StateDB m"
  by (auto simp: isCode_def outcome_inv split: option.splits if_splits)

lemma validJumpdest_frame:
  "validJumpdest U d c m = Ok (b, c', m') \<Longrightarrow> frame m m' \<and> m_StateDB m' = m_StateDB m"
  by (auto simp: validJumpdest_def Let_def split: prod.splits if_splits dest: isCode_frame)

lemma jump_to_frame:
  "jump_to pos E pc m sc = Ok (res, err, pc', m', sc') \<Longrightarrow> frame m m' \<and> m_StateDB m' = m_StateDB m"
  by (auto simp: jump_to_def outcome_inv Let_def fail_def cont_def split: if_splits dest!: validJumpdest_frame)

subsection \<open>Relations that executions respect\<close>

text \<open>The code \<open>create\<close> stores: it is not too long and does not begin with the reserved byte.\<close>

definition deployable :: "bytes \<Rightarrow> bool" where
  "deployable code \<longleftrightarrow> length code \<le> MaxCodeSize \<and> \<not> (1 \<le> length code \<and> code ! 0 = 0xEF)"

text \<open>Where \<open>create\<close> may put a contract: no nonce, and no code (\<open>h\<close> is the hash of no code).\<close>

definition vacant :: "hash \<Rightarrow> address \<Rightarrow> statedb \<Rightarrow> bool" where
  "vacant h a s \<longleftrightarrow> fst (GetNonce a s) = 0 \<and> (fst (GetCodeHash a s) = 0 \<or> fst (GetCodeHash a s) = h)"

locale state_relation =
  fixes emptyHash :: hash and R :: "bool \<Rightarrow> statedb \<Rightarrow> statedb \<Rightarrow> bool"
  assumes vacuous: "\<not> sdb_ok s \<Longrightarrow> R ro s s'"
    and trans: "R ro s s' \<Longrightarrow> R ro s' s'' \<Longrightarrow> R ro s s''"
    and weaken: "R True s s' \<Longrightarrow> R False s s'"
    and cache: "(sdb_wf s \<Longrightarrow> same s s') \<Longrightarrow> R ro s s'"
    and warm_address: "R ro s (AddAddressToAccessList a s)"
    and warm_slot: "R ro s (AddSlotToAccessList a sl s)"
    and preimage: "R ro s (AddPreimage h p s)"
    and add_refund: "R ro s (AddRefund g s)"
    and sub_refund: "SubRefund g s = Some s' \<Longrightarrow> R ro s s'"
    and snapshot: "R ro s (snd (Snapshot s))"
    and revert: "Snapshot s = (i, s1) \<Longrightarrow> R ro s1 s2 \<Longrightarrow> RevertToSnapshot i s2 = Some s3 \<Longrightarrow> R ro s s3"
    and touch_add: "R ro s (AddBalance a 0 s)"
    and touch_sub: "R ro s (SubBalance a 0 s)"
    and appear: "\<not> fst (Exist a s) \<Longrightarrow> R ro s (CreateAccount a (snd (Exist a s)))"
    and set_state: "R False s (SetState a k v s)"
    and set_nonce: "n \<noteq> 0 \<Longrightarrow> R False s (SetNonce a n s)"
    and begin_create: "vacant emptyHash a s \<Longrightarrow> R False s (SetNonce a 1 (CreateAccount a s))"
    and end_create: "vacant emptyHash a s \<Longrightarrow> R False s t \<Longrightarrow> deployable code \<Longrightarrow> R False s (SetCode a code t)"
    and add_log: "R False s (AddLog l s)"
    and transfer: "R False s (Transfer a b x s)"
begin

lemma refl: "R ro s s"
  by (rule cache) simp

lemma reads:
  "R ro s (snd (GetState a k s))" "R ro s (snd (GetCommittedState a k s))" "R ro s (snd (GetCode a s))"
  "R ro s (snd (GetCodeSize a s))" "R ro s (snd (GetCodeHash a s))" "R ro s (snd (GetBalance a s))"
  "R ro s (snd (GetNonce a s))" "R ro s (snd (Empty a s))" "R ro s (snd (Exist a s))"
  by (rule cache, simp only: GetState_read GetCommittedState_read GetCode_read same_GetCodeSize
        GetCodeHash_read GetBalance_read GetNonce_read Empty_read Exist_read)+

lemma reads_eq:
  "GetState a k s = (v, s') \<Longrightarrow> R ro s s'" "GetCommittedState a k s = (v, s') \<Longrightarrow> R ro s s'"
  "GetCode a s = (code, s') \<Longrightarrow> R ro s s'" "GetCodeSize a s = (n, s') \<Longrightarrow> R ro s s'"
  "GetCodeHash a s = (h, s') \<Longrightarrow> R ro s s'" "GetBalance a s = (x, s') \<Longrightarrow> R ro s s'"
  "GetNonce a s = (y, s') \<Longrightarrow> R ro s s'" "Empty a s = (b, s') \<Longrightarrow> R ro s s'" "Exist a s = (b, s') \<Longrightarrow> R ro s s'"
  using reads[of ro s] by (metis snd_conv)+

lemma then_reads:
  "R ro s t \<Longrightarrow> R ro s (snd (GetState a k t))" "R ro s t \<Longrightarrow> R ro s (snd (GetCommittedState a k t))"
  "R ro s t \<Longrightarrow> R ro s (snd (GetCode a t))" "R ro s t \<Longrightarrow> R ro s (snd (GetCodeSize a t))"
  "R ro s t \<Longrightarrow> R ro s (snd (GetCodeHash a t))" "R ro s t \<Longrightarrow> R ro s (snd (GetBalance a t))"
  "R ro s t \<Longrightarrow> R ro s (snd (GetNonce a t))" "R ro s t \<Longrightarrow> R ro s (snd (Empty a t))"
  "R ro s t \<Longrightarrow> R ro s (snd (Exist a t))"
  by (blast intro: trans reads)+

lemma then_ops:
  "R ro s t \<Longrightarrow> R ro s (AddRefund g t)" "R ro s t \<Longrightarrow> SubRefund g t = Some u \<Longrightarrow> R ro s u"
  "R ro s t \<Longrightarrow> R ro s (AddSlotToAccessList a k t)" "R ro s t \<Longrightarrow> R ro s (AddAddressToAccessList a t)"
  "R False s t \<Longrightarrow> n \<noteq> 0 \<Longrightarrow> R False s (SetNonce a n t)"
  by (blast intro: trans add_refund sub_refund warm_slot warm_address set_nonce)+

lemma exec_pure:
  "exec_rel emptyHash R (unop f)" "exec_rel emptyHash R (binop g)" "exec_rel emptyHash R (ternop h)" "exec_rel emptyHash R (pushop k)"
  by (rule exec_relI; auto simp: unop_def binop_def ternop_def pushop_def cont_def refl split: list.splits)+

lemma exec_memory:
  "exec_rel emptyHash R opMload" "exec_rel emptyHash R opMstore" "exec_rel emptyHash R opMstore8" "exec_rel emptyHash R opCallDataLoad"
  "exec_rel emptyHash R opCallDataCopy" "exec_rel emptyHash R opReturnDataCopy" "exec_rel emptyHash R opCodeCopy" "exec_rel emptyHash R opBlockhash"
  "exec_rel emptyHash R opReturn" "exec_rel emptyHash R opRevert"
  by (rule exec_relI;
      auto simp: opMload_def opMstore_def opMstore8_def opCallDataLoad_def opCallDataCopy_def opReturnDataCopy_def
        opCodeCopy_def opBlockhash_def opReturn_def opRevert_def cont_def fail_def outcome_inv refl Let_def
        split: list.splits prod.splits if_splits)+

lemma exec_flow:
  "exec_rel emptyHash R opRandom" "exec_rel emptyHash R opBaseFee" "exec_rel emptyHash R opPop" "exec_rel emptyHash R opJumpdest" "exec_rel emptyHash R opUndefined"
  "exec_rel emptyHash R opStop" "exec_rel emptyHash R opPush1" "exec_rel emptyHash R (makePush n l)" "exec_rel emptyHash R (makeDup i)" "exec_rel emptyHash R (makeSwap i)"
  by (rule exec_relI;
      auto simp: opRandom_def opBaseFee_def opPop_def opJumpdest_def opUndefined_def opStop_def opPush1_def
        makePush_def makeDup_def makeSwap_def pushop_def cont_def fail_def outcome_inv refl Let_def
        split: list.splits option.splits if_splits)+

lemma exec_jump: "exec_rel emptyHash R opJump" "exec_rel emptyHash R opJumpi"
  by (rule exec_relI;
      auto simp: opJump_def opJumpi_def load_abort_def cont_def fail_def refl Let_def frame_def
        split: list.splits if_splits dest!: jump_to_frame)+

lemma exec_reads:
  "exec_rel emptyHash R opBalance" "exec_rel emptyHash R opExtCodeSize" "exec_rel emptyHash R opExtCodeCopy" "exec_rel emptyHash R opExtCodeHash"
  "exec_rel emptyHash R opSelfBalance" "exec_rel emptyHash R opSload"
  by (rule exec_relI;
      auto simp: opBalance_def opExtCodeSize_def opExtCodeCopy_def opExtCodeHash_def opSelfBalance_def opSload_def
        pushop_def cont_def outcome_inv Let_def split: list.splits prod.splits if_splits intro: reads_eq trans)+

lemma exec_keccak: "exec_rel emptyHash R opKeccak256"
  by (rule exec_relI; auto simp: opKeccak256_def cont_def outcome_inv Let_def refl preimage split: list.splits if_splits)

lemma exec_writes: "exec_rel emptyHash R opSstore" "exec_rel emptyHash R (makeLog n)"
  by (rule exec_relI; auto simp: opSstore_def makeLog_def cont_def fail_def outcome_inv Let_def refl set_state add_log
       split: list.splits if_splits)+

subsubsection \<open>Gas functions\<close>

lemma gas_lift: "gas_rel R (lift_gas f)"
  by (rule gas_relI) (auto simp: lift_gas_def outcome_inv refl)

lemma gas_forward: "gas_rel R (forward_gas g)"
  by (rule gas_relI) (auto simp: forward_gas_def with_back_def outcome_inv refl Let_def)

lemma gas_forwardD:
  "forward_gas g E m c st mem sz = Ok (r, m', c', mem') \<Longrightarrow> frame m m' \<and> m_StateDB m' = m_StateDB m"
  by (auto simp: forward_gas_def with_back_def outcome_inv refl Let_def)

lemma gas_calls: "gas_rel R gasDelegateCall" "gas_rel R gasStaticCall"
  by (rule gas_relI;
      auto simp: gasDelegateCall_def gasStaticCall_def refl split: prod.splits sum.splits dest!: gas_forwardD)+

lemma gas_call: "gas_rel R gasCall"
proof (rule gas_relI)
  fix E m c st mem sz r m' c' mem'
  assume "gasCall E m c st mem sz = Ok (r, m', c', mem')"
  then have "frame m m' \<and> (m_StateDB m' = m_StateDB m \<or> (\<exists>a b. Empty a (m_StateDB m) = (b, m_StateDB m')))"
    unfolding gasCall_def by (elim with_backE) (auto simp: Let_def split: prod.splits sum.splits if_splits dest!: gas_forwardD)
  then show "frame m m' \<and> R (m_readOnly m) (m_StateDB m) (m_StateDB m')" by (auto simp: refl intro: reads_eq)
qed

lemma gas_warm: "gas_rel R gasSLoadEIP2929" "gas_rel R gasExtCodeCopyEIP2929" "gas_rel R gasEip2929AccountCheck"
  by (rule gas_relI;
      auto simp: gasSLoadEIP2929_def gasExtCodeCopyEIP2929_def gasEip2929AccountCheck_def
        Let_def refl warm_slot warm_address case_prod_unfold split: sum.splits if_splits elim!: with_backE bind_OkE)+

lemma gas_variant: "gas_rel R f \<Longrightarrow> gas_rel R (makeCallVariantGasCallEIP2929 f)"
proof (rule gas_relI)
  fix E m c st mem sz r m' c' mem'
  assume f: "gas_rel R f" and g: "makeCallVariantGasCallEIP2929 f E m c st mem sz = Ok (r, m', c', mem')"
  obtain a where a: "stack_Back 1 st = Some a"
    using g by (auto simp: makeCallVariantGasCallEIP2929_def elim!: with_backE)
  let ?addr = "u_Bytes20 (e_U E) a"
  define m1 where "m1 = (if \<not> AddressInAccessList ?addr (m_StateDB m)
     then m\<lparr>m_StateDB := AddAddressToAccessList ?addr (m_StateDB m)\<rparr> else m)"
  have m1: "frame m m1" "R (m_readOnly m) (m_StateDB m) (m_StateDB m1)"
    by (auto simp: m1_def refl warm_address)
  have "m' = m1 \<or> (\<exists>c1 r1 c2 mem2. f E m1 c1 st mem sz = Ok (r1, m', c2, mem2))"
    using g a unfolding makeCallVariantGasCallEIP2929_def
    by (cases "AddressInAccessList ?addr (m_StateDB m)")
      (auto simp: m1_def Let_def case_prod_unfold split: sum.splits if_splits elim!: with_backE bind_OkE)
  then have "frame m1 m' \<and> R (m_readOnly m1) (m_StateDB m1) (m_StateDB m')"
    using f unfolding gas_rel_def machine_step_def by (blast intro: refl frame_refl)
  then show "frame m m' \<and> R (m_readOnly m) (m_StateDB m) (m_StateDB m')"
    using m1 by (auto simp: frame_def intro: trans)
qed

lemma gas_sstore: "gas_rel R gasSStoreEIP3529"
proof (rule gas_relI)
  fix E c st mem sz r c' mem'
  fix m m' :: QRVM
  assume g: "gasSStoreEIP3529 E m c st mem sz = Ok (r, m', c', mem')"
  show "frame m m' \<and> R (m_readOnly m) (m_StateDB m) (m_StateDB m')"
  proof (cases "c_Gas c \<le> 2300")
    case False
    with g show ?thesis unfolding gasSStoreEIP3529_def makeGasSStoreFunc_def
      by (auto simp: Let_def case_prod_unfold of_option_Ok elim!: with_backE bind_OkE split: if_splits
          intro!: then_reads then_ops(1,3) refl)
        (erule then_ops(2)[rotated], intro then_reads then_ops(3) refl)+
  qed (use g in \<open>simp add: gasSStoreEIP3529_def makeGasSStoreFunc_def refl\<close>)
qed

lemma weaken_or: "R (ro \<or> x) s s' \<Longrightarrow> R ro s s'"
  using weaken by (cases ro; cases x) auto

lemma Transfer_rel: "(ro \<Longrightarrow> val = 0) \<Longrightarrow> R ro s (Transfer a b val s)"
  unfolding Transfer_def by (cases ro) (auto intro: trans touch_add touch_sub transfer[unfolded Transfer_def])

lemma CanTransfer_same: "CanTransfer a x s = (b, s') \<Longrightarrow> sdb_wf s \<Longrightarrow> same s s'"
  using GetBalance_read[of s a] by (auto simp: CanTransfer_def split: prod.splits)

lemma CanTransfer_rel: "CanTransfer a x s = (b, s') \<Longrightarrow> R ro s s'"
  by (rule cache) (rule CanTransfer_same)

lemma finish_call_rel:
  assumes "Snapshot s0 = (i, s1)" "R ro s1 (m_StateDB m1)" "finish_call i (ret, g, err, m1) = Ok (ret', g', err', m')"
  shows "R ro s0 (m_StateDB m') \<and> frame m1 m' \<and> err' = err \<and>
    (err \<noteq> None \<longrightarrow> RevertToSnapshot i (m_StateDB m1) = Some (m_StateDB m'))"
  using assms snapshot[of ro s0]
  by (auto simp: finish_call_def of_option_Ok split: if_splits elim!: bind_OkE intro: trans revert)

lemma run_contract_rel:
  "run_rel R run \<Longrightarrow> run_contract run c input ro m = Ok (ret, g, err, m') \<Longrightarrow>
   frame m m' \<and> R (m_readOnly m) (m_StateDB m) (m_StateDB m')"
  by (auto simp: run_contract_def elim!: bind_OkE dest: run_relD intro: weaken_or)

lemma run_precompile_frame: "run_precompile E p input gas m = Ok (ret, g, err, m') \<Longrightarrow> m' = m"
  by (auto simp: run_precompile_def elim!: bind_OkE)

text \<open>What happens between the snapshot and the end of a call.\<close>

definition inner_rel :: "QRVM \<Rightarrow> statedb \<Rightarrow> bytes \<times> u64 \<times> vm_error option \<times> QRVM \<Rightarrow> bool" where
  "inner_rel m s1 = (\<lambda>(ret, g, err, m1). frame m m1 \<and> R (m_readOnly m) s1 (m_StateDB m1))"

lemma inner_precompile:
  "run_precompile E p input gas (m\<lparr>m_StateDB := s\<rparr>) = Ok r \<Longrightarrow> R (m_readOnly m) s1 s \<Longrightarrow> inner_rel m s1 r"
  by (cases r) (auto simp: inner_rel_def dest!: run_precompile_frame)

lemma inner_contract:
  assumes "run_rel R run" "frame m m0" "R (m_readOnly m) s1 s" "run_contract run c input ro (m0\<lparr>m_StateDB := s\<rparr>) = Ok r"
  shows "inner_rel m s1 r"
proof -
  obtain ret g err m1 where r: "r = (ret, g, err, m1)" by (cases r)
  show ?thesis using run_contract_rel[OF assms(1) assms(4)[unfolded r]] assms(2,3)
    by (auto simp: r inner_rel_def frame_def intro: trans)
qed

lemma inner_finish:
  assumes "Snapshot s0 = (i, s1)" "inner_rel m s1 r" and s0: "sdb_wf (m_StateDB m) \<Longrightarrow> same (m_StateDB m) s0"
    and "finish_call i r = Ok (ret, g, err, m')"
  shows "call_effect R err m m'"
proof -
  obtain a b c m1 where r: "r = (a, b, c, m1)" by (cases r)
  have m1: "frame m m1" "R (m_readOnly m) s1 (m_StateDB m1)" using assms(2) by (auto simp: r inner_rel_def)
  note fin = finish_call_rel[OF assms(1) m1(2) assms(4)[unfolded r]]
  have "machine_step R m m'"
    using fin m1 trans[OF cache[OF s0]] by (auto simp: machine_step_def frame_def)
  then show ?thesis using fin m1(2) s0 assms(1) unfolding call_effect_def undone_def by blast
qed

lemma inner_precompile_finish:
  assumes "Snapshot s0 = (i, s1)" "sdb_wf (m_StateDB m) \<Longrightarrow> same (m_StateDB m) s0" "R (m_readOnly m) s1 s2"
    "bind_outcome (run_precompile E p input gas (m\<lparr>m_StateDB := s2\<rparr>)) (finish_call i) = Ok (ret, g, err, m')"
  shows "call_effect R err m m'"
  using assms(4) by (rule bind_OkE) (rule inner_finish[OF assms(1) inner_precompile[OF _ assms(3)] assms(2)])

lemma inner_contract_finish:
  assumes "run_rel R run" "frame m m0" "Snapshot s0 = (i, s1)" "sdb_wf (m_StateDB m) \<Longrightarrow> same (m_StateDB m) s0"
    "R (m_readOnly m) s1 s2"
    "bind_outcome (run_contract run c input ro (m0\<lparr>m_StateDB := s2\<rparr>)) (finish_call i) = Ok (ret, g, err, m')"
  shows "call_effect R err m m'"
  using assms(6) by (rule bind_OkE) (rule inner_finish[OF assms(3) inner_contract[OF assms(1,2,5)] assms(4)])

lemma call_effect_same: "call_effect R err m m"
  by (simp add: call_effect_def machine_step_def refl undone_def)

lemma DelegateCall_rel:
  assumes run: "run_rel R run" and call: "DelegateCall E run caller addr input gas m = Ok (ret, g, err, m')"
  shows "call_effect R err m m'"
proof (cases "m_depth m > 1024")
  case False
  obtain i s1 where snap: "Snapshot (m_StateDB m) = (i, s1)" by fastforce
  show ?thesis
  proof (cases "precompile addr")
    case (Some p)
    with call False snap show ?thesis
      by (intro inner_precompile_finish[OF snap same_refl refl]) (simp add: DelegateCall_def)
  next
    case None
    then obtain c where "bind_outcome (run_contract run c input False
        ((snd (NewContract caller (ref_Address caller) 0 gas (m\<lparr>m_StateDB := s1\<rparr>)))
           \<lparr>m_StateDB := snd (GetCode addr (snd (GetCodeHash addr s1)))\<rparr>)) (finish_call i) = Ok (ret, g, err, m')"
      using call False snap
      by (cases caller) (auto simp: DelegateCall_def case_prod_unfold Let_def)
    then show ?thesis
      by (rule inner_contract_finish[OF run _ snap same_refl, rotated 2]) (simp add: frame_def, intro then_reads refl)
  qed
qed (use call in \<open>simp add: DelegateCall_def call_effect_same\<close>)

lemma StaticCall_rel:
  assumes run: "run_rel R run" and call: "StaticCall E run caller addr input gas m = Ok (ret, g, err, m')"
  shows "call_effect R err m m'"
proof (cases "m_depth m > 1024")
  case False
  obtain i s1 where snap: "Snapshot (m_StateDB m) = (i, s1)" by fastforce
  show ?thesis
  proof (cases "precompile addr")
    case (Some p)
    with call False snap show ?thesis
      by (intro inner_precompile_finish[OF snap same_refl touch_add]) (simp add: StaticCall_def)
  next
    case None
    then obtain c where "bind_outcome (run_contract run c input True
        ((snd (NewContract caller addr 0 gas (m\<lparr>m_StateDB := AddBalance addr 0 s1\<rparr>)))
           \<lparr>m_StateDB := snd (GetCode addr (snd (GetCodeHash addr (AddBalance addr 0 s1))))\<rparr>)) (finish_call i)
        = Ok (ret, g, err, m')"
      using call False snap by (auto simp: StaticCall_def case_prod_unfold Let_def)
    then show ?thesis
      by (rule inner_contract_finish[OF run _ snap same_refl, rotated 2]) (simp add: frame_def, intro then_reads touch_add)
  qed
qed (use call in \<open>simp add: StaticCall_def call_effect_same\<close>)

lemma Call_rel:
  assumes run: "run_rel R run" and ro: "m_readOnly m \<Longrightarrow> val = 0"
    and call: "Call E run caller addr input gas val m = Ok (ret, g, err, m')"
  shows "call_effect R err m m'"
proof (cases "m_depth m > 1024")
  case False
  let ?self = "ref_Address caller" and ?ro = "m_readOnly m"
  obtain can s0 where can: "(if val \<noteq> 0 then CanTransfer ?self val (m_StateDB m) else (True, m_StateDB m)) = (can, s0)"
    by fastforce
  then have s0: "R ?ro (m_StateDB m) s0" by (auto split: if_splits intro: refl CanTransfer_rel)
  have same0: "sdb_wf (m_StateDB m) \<Longrightarrow> same (m_StateDB m) s0"
    using can CanTransfer_same by (auto split: if_splits)
  obtain i s1 where snap: "Snapshot s0 = (i, s1)" by fastforce
  obtain ex s2 where ex: "Exist addr s1 = (ex, s2)" by fastforce
  define s4 where "s4 = Transfer ?self addr val (if \<not> ex then CreateAccount addr s2 else s2)"
  have s2: "R ?ro s1 s2" using ex by (rule reads_eq)
  then have "R ?ro s1 (if \<not> ex then CreateAccount addr s2 else s2)" using ex appear[of addr s1] by auto
  then have s4: "R ?ro s1 s4" using trans Transfer_rel[OF ro] unfolding s4_def by blast
  note call' = call[unfolded Call_def Let_def can prod.case snap ex s4_def[symmetric]]
  consider "val \<noteq> 0 \<and> \<not> can" | "\<not> ex \<and> precompile addr = None \<and> val = 0"
    | p where "precompile addr = Some p" "\<not> (val \<noteq> 0 \<and> \<not> can)"
    | "precompile addr = None" "\<not> (val \<noteq> 0 \<and> \<not> can)" "\<not> (\<not> ex \<and> precompile addr = None \<and> val = 0)"
    by (cases "precompile addr") auto
  then show ?thesis
  proof cases
    case 3
    then have "bind_outcome (run_precompile E p input gas (m\<lparr>m_StateDB := s4\<rparr>)) (finish_call i) = Ok (ret, g, err, m')"
      using call' False by auto
    then show ?thesis by (rule inner_precompile_finish[OF snap _ s4, rotated]) (rule same0)
  next
    case 4
    show ?thesis
    proof (cases "fst (GetCode addr s4) = []")
      case True
      then have "finish_call i ([], gas, None, m\<lparr>m_StateDB := snd (GetCode addr s4)\<rparr>) = Ok (ret, g, err, m')"
        using call' 4 \<open>\<not> m_depth m > 1024\<close> by (auto simp: case_prod_unfold)
      then show ?thesis
        by (rule inner_finish[OF snap, rotated 2]) (simp_all add: inner_rel_def then_reads s4 same0)
    next
      case False
      then obtain c where "bind_outcome (run_contract run c input False
          ((snd (NewContract caller addr val gas (m\<lparr>m_StateDB := snd (GetCode addr s4)\<rparr>)))
           \<lparr>m_StateDB := snd (GetCodeHash addr (snd (GetCode addr s4)))\<rparr>)) (finish_call i) = Ok (ret, g, err, m')"
        using call' 4 \<open>\<not> m_depth m > 1024\<close> by (auto simp: case_prod_unfold)
      then show ?thesis
        by (rule inner_contract_finish[OF run _ snap, rotated 3]) (simp add: frame_def, erule same0, intro then_reads s4)
    qed
  next
    case 1
    then have "m' = m\<lparr>m_StateDB := s0\<rparr>" using call' False by auto
    then show ?thesis using s0 same0 by (auto simp: call_effect_def machine_step_def undone_def)
  next
    case 2
    then have "err = None \<and> m' = m\<lparr>m_StateDB := s2\<rparr>" using call' False by auto
    moreover have "R ?ro (m_StateDB m) s1" using trans[OF s0 snapshot] snap by (metis snd_conv)
    ultimately show ?thesis using trans[OF _ s2] by (auto simp: call_effect_def machine_step_def)
  qed
qed (use call in \<open>simp add: Call_def call_effect_same\<close>)

lemma deploy_rel:
  "vacant emptyHash a s \<Longrightarrow> R False s (m_StateDB m) \<Longrightarrow> deploy a (ret, err, c, m) = (ret', err', c', m') \<Longrightarrow>
   R False s (m_StateDB m')"
  by (auto simp: deploy_def Let_def case_prod_unfold deployable_def split: if_splits intro!: end_create)

lemma deploy_frame: "deploy a (ret, err, c, m) = (ret', err', c', m') \<Longrightarrow> frame m m'"
  by (auto simp: deploy_def Let_def case_prod_unfold split: if_splits)

lemma finish_create_frame: "finish_create i a (ret, err, c, m1) = Ok (ret', a', g', err', m') \<Longrightarrow> frame m1 m'"
  by (auto simp: finish_create_def Let_def split: if_splits elim!: bind_OkE)

lemma finish_create_rel:
  assumes "Snapshot s0 = (i, s1)" "R False s1 (m_StateDB m1)" "finish_create i a (ret, err, c, m1) = Ok (ret', a', g', err', m')"
  shows "R False s0 (m_StateDB m') \<and> frame m1 m' \<and> err' = err \<and>
    (err \<noteq> None \<longrightarrow> err \<noteq> Some ErrCodeStoreOutOfGas \<longrightarrow> RevertToSnapshot i (m_StateDB m1) = Some (m_StateDB m'))"
  using assms snapshot[of False s0]
  by (auto simp: finish_create_def of_option_Ok Let_def split: if_splits elim!: bind_OkE intro: trans revert)

lemma create_frame:
  assumes run: "run_rel R run" and call: "create E run caller ch gas val address m = Ok (ret, a, g, err, m')"
  shows "frame m m'"
proof -
  have f: "frame m m'" if "run c [] False (snd (NewContract caller address val gas (m\<lparr>m_StateDB := t\<rparr>))) = Ok r"
    "finish_create i address (deploy address r) = Ok (ret, a, g, err, m')" for c t r i
  proof -
    obtain ret1 err1 c1 m1 where r1: "r = (ret1, err1, c1, m1)" by (cases r)
    obtain ret2 err2 c2 m2 where d: "deploy address r = (ret2, err2, c2, m2)" by (cases "deploy address r")
    show ?thesis
      using run_relD[OF run that(1)[unfolded r1]] deploy_frame[OF d[unfolded r1]] finish_create_frame[OF that(2)[unfolded d]]
      by (simp add: frame_def)
  qed
  show ?thesis using call
    by (auto simp: create_def Let_def case_prod_unfold split: if_splits elim!: bind_OkE dest: f)
qed

lemma vacant_view:
  assumes "sdb_wf s" "h = fst (GetCodeHash a s)" "n = fst (GetNonce a (snd (GetCodeHash a s)))" "view t = view s" "sdb_wf t"
  shows "vacant e a t \<longleftrightarrow> n = 0 \<and> (h = 0 \<or> h = e)"
proof -
  have "same s (snd (GetCodeHash a s))" using GetCodeHash_read assms(1) by blast
  then have "n = fst (GetNonce a t)" "h = fst (GetCodeHash a t)"
    using assms by (simp_all add: GetNonce_read GetCodeHash_read same_def)
  then show ?thesis by (simp add: vacant_def)
qed

lemma create_rel:
  assumes E: "EmptyCodeHash (e_Keccak256 E) = emptyHash" and run: "run_rel R run" and ro: "\<not> m_readOnly m"
    and call: "create E run caller ch gas val address m = Ok (ret, a, g, err, m')" and ok: "sdb_ok (m_StateDB m)"
  shows "R False (m_StateDB m) (m_StateDB m') \<and>
    create_undone R (ref_Address caller) address err (m_StateDB m) (m_StateDB m')"
proof (cases "m_depth m > 1024")
  case False
  let ?self = "ref_Address caller"
  obtain can s0 where can: "CanTransfer ?self val (m_StateDB m) = (can, s0)" by fastforce
  obtain nonce s1 where nonce: "GetNonce ?self s0 = (nonce, s1)" by fastforce
  define s3 where "s3 = AddAddressToAccessList address (SetNonce ?self (nonce + 1) s1)"
  obtain h s4 where h: "GetCodeHash address s3 = (h, s4)" by fastforce
  obtain n s5 where n: "GetNonce address s4 = (n, s5)" by fastforce
  obtain i s6 where snap: "Snapshot s5 = (i, s6)" by fastforce
  define s7 where "s7 = Transfer ?self address val (SetNonce address 1 (CreateAccount address s6))"
  have same1: "same (m_StateDB m) s0" "same (m_StateDB m) s1"
    using CanTransfer_same[OF can] GetNonce_read[of s0 ?self] nonce ok by (auto simp: same_def sdb_ok_def)
  then have ok1: "sdb_ok s1" using ok by (simp add: same_def sdb_ok_def)
  then have ok3: "sdb_ok s3"
    using good_step_trans[OF good_SetNonce[of s1 ?self "nonce + 1"] good_AddAddressToAccessList[of _ address]]
    by (simp add: s3_def good_step_def)
  then have same5: "same s3 s5"
    using GetCodeHash_read[of s3 address] GetNonce_read[of s4 address] h n by (auto simp: same_def sdb_ok_def)
  have s0: "R False (m_StateDB m) s0" "R False (m_StateDB m) s1" using same1 by (auto intro: cache)
  have s5: "R False (m_StateDB m) s5" if "\<not> nonce + 1 < nonce"
  proof -
    have "nonce + 1 \<noteq> 0" using that by (metis word_gt_0 add_0 zero_neq_one)
    then have "R False (m_StateDB m) s3" unfolding s3_def by (intro then_ops(4,5) s0)
    then show ?thesis by (rule trans) (rule cache, rule same5)
  qed
  note call' = call[unfolded create_def Let_def can nonce s3_def[symmetric] h n snap s7_def[symmetric] prod.case E]
  show ?thesis
  proof (cases "can \<and> \<not> nonce + 1 < nonce \<and> \<not> (n \<noteq> 0 \<or> h \<noteq> 0 \<and> h \<noteq> emptyHash)")
    case True
    have "view s6 = view s5" using snap by (auto simp: Snapshot_def)
    then have "view s6 = view s3" "sdb_wf s6" using same5 snap ok3 good_Snapshot[of s5]
      by (auto simp: same_def good_step_def sdb_ok_def)
    then have vac: "vacant emptyHash address s6"
      using vacant_view[of s3 h address n s6 emptyHash] h n True ok3 by (auto simp: sdb_ok_def)
    have s7: "R False s6 s7" unfolding s7_def by (rule trans[OF begin_create[OF vac]]) (rule Transfer_rel, simp)
    from True obtain r where r: "run (SetCodeOptionalHash address ch (fst (NewContract caller address val gas (m\<lparr>m_StateDB := s7\<rparr>)))) []
        False (snd (NewContract caller address val gas (m\<lparr>m_StateDB := s7\<rparr>))) = Ok r"
      "finish_create i address (deploy address r) = Ok (ret, a, g, err, m')"
      using call' False by (auto simp: case_prod_unfold elim!: bind_OkE)
    obtain ret1 err1 c1 m1 where r1: "r = (ret1, err1, c1, m1)" by (cases r)
    obtain ret2 err2 c2 m2 where d: "deploy address r = (ret2, err2, c2, m2)" by (cases "deploy address r")
    have "R False s6 (m_StateDB m1)"
      using run_relD[OF run r(1)[unfolded r1]] ro trans[OF s7] by auto
    then have m2: "R False s6 (m_StateDB m2)" using deploy_rel[OF vac] d[unfolded r1] by blast
    note fin = finish_create_rel[OF snap m2 r(2)[unfolded d]]
    have "create_undone R ?self address err (m_StateDB m) (m_StateDB m')"
      using fin m2 same1(2) same5 snap unfolding create_undone_def undone_def s3_def by blast
    then show ?thesis using fin trans[OF s5] True by blast
  next
    case stop: False
    have "undone R False s3 s5" using same5 by (simp add: undone_def)
    then show ?thesis
      using stop call' False s0 s5 same1
      by (auto simp: create_undone_def s3_def split: if_splits) (auto simp: undone_def)
  qed
qed (use call in \<open>simp add: create_def refl create_undone_def undone_def\<close>)

lemma create_effect:
  assumes "EmptyCodeHash (e_Keccak256 E) = emptyHash" "run_rel R run" "\<not> m_readOnly m"
    "create E run caller ch gas val address m = Ok (ret, a, g, err, m')"
  shows "frame m m' \<and> R False (m_StateDB m) (m_StateDB m') \<and>
    create_undone R (ref_Address caller) address err (m_StateDB m) (m_StateDB m')"
  using create_rel[OF assms] create_frame[OF assms(2,4)] vacuous[of "m_StateDB m" False "m_StateDB m'"]
  by (cases "sdb_ok (m_StateDB m)") (auto simp: create_undone_def)

lemma Create_rel:
  assumes "EmptyCodeHash (e_Keccak256 E) = emptyHash" "run_rel R run" "\<not> m_readOnly m"
    "Create E run caller code gas val m = Ok (ret, a, g, err, m')"
  shows "frame m m' \<and> R False (m_StateDB m) (m_StateDB m') \<and>
    (\<exists>address. create_undone R (ref_Address caller) address err (m_StateDB m) (m_StateDB m'))"
proof -
  let ?s = "snd (GetNonce (ref_Address caller) (m_StateDB m))"
  have "frame m m' \<and> R False ?s (m_StateDB m') \<and>
    (\<exists>address. create_undone R (ref_Address caller) address err ?s (m_StateDB m'))"
    using create_effect[OF assms(1,2), of "m\<lparr>m_StateDB := ?s\<rparr>"] assms(3,4)
    by (fastforce simp: Create_def Let_def case_prod_unfold)
  moreover have "sdb_wf (m_StateDB m) \<longrightarrow> same (m_StateDB m) ?s" using GetNonce_read by blast
  ultimately show ?thesis using trans[OF reads(7)] create_undone_cache by blast
qed

lemma Create2_rel:
  "EmptyCodeHash (e_Keccak256 E) = emptyHash \<Longrightarrow> run_rel R run \<Longrightarrow> \<not> m_readOnly m \<Longrightarrow> Create2 E run caller code gas val salt m = Ok (ret, a, g, err, m') \<Longrightarrow>
   frame m m' \<and> R False (m_StateDB m) (m_StateDB m')"
  unfolding Create2_def Let_def case_prod_unfold by (drule (3) create_effect) blast

lemma after_call_frame:
  "after_call pc st off sz sc E (ret, g, err, m) = Ok (res, e, pc', m', sc') \<Longrightarrow> frame m m' \<and> m_StateDB m' = m_StateDB m"
  by (auto simp: after_call_def Let_def elim!: bind_OkE)

lemma after_create_frame:
  "after_create pc st c sc E (ret, a, g, err, m) = Ok (res, e, pc', m', sc') \<Longrightarrow> frame m m' \<and> m_StateDB m' = m_StateDB m"
  by (auto simp: after_create_def Let_def split: if_splits)

lemma exec_create: "exec_rel emptyHash R opCreate" "exec_rel emptyHash R opCreate2"
  by (rule exec_relI;
      auto simp: opCreate_def opCreate2_def fail_def refl Let_def split: list.splits if_splits elim!: bind_OkE
        dest!: Create_rel[rotated 3] Create2_rel[rotated 3] after_create_frame intro: frame_trans)+

lemma exec_call: "exec_rel emptyHash R opCall"
proof (rule exec_relI)
  fix E pc sc res err pc' sc'
  fix run :: runner and m m' :: QRVM
  assume run: "run_rel R run" and "opCall E run pc m sc = Ok (res, err, pc', m', sc')"
  then consider "m' = m"
    | caller addr args gas val ret g e m1 where
      "Call E run caller addr args gas val m = Ok (ret, g, e, m1)"
      "m_readOnly m \<longrightarrow> val = 0" "frame m1 m'" "m_StateDB m' = m_StateDB m1"
    by (auto simp: opCall_def fail_def Let_def split: list.splits if_splits elim!: bind_OkE dest!: after_call_frame)
  then show "frame m m' \<and> R (m_readOnly m) (m_StateDB m) (m_StateDB m')"
  proof cases
    case 2
    then show ?thesis
      using Call_rel[OF run _ 2(1)] by (auto simp: call_effect_def machine_step_def intro: frame_trans)
  qed (simp add: refl)
qed

lemma exec_other_calls: "exec_rel emptyHash R opDelegateCall" "exec_rel emptyHash R opStaticCall"
  by (rule exec_relI;
      auto simp: opDelegateCall_def opStaticCall_def call_effect_def machine_step_def split: list.splits
        elim!: bind_OkE dest!: DelegateCall_rel[rotated] StaticCall_rel[rotated] after_call_frame intro: frame_trans)+

lemma undefined_rel: "op_rel emptyHash R undefined_op"
  by (simp add: op_rel_def undefined_op_def exec_flow)

lemma simple_rel: "exec_rel emptyHash R f \<Longrightarrow> op_rel emptyHash R (simple_op f g i j)"
  by (simp add: op_rel_def simple_op_def)

lemma dyn_rel: "exec_rel emptyHash R f \<Longrightarrow> gas_rel R d \<Longrightarrow> op_rel emptyHash R (dyn_op f g d i j)"
  by (simp add: op_rel_def dyn_op_def)

lemma mem_rel: "exec_rel emptyHash R f \<Longrightarrow> gas_rel R d \<Longrightarrow> op_rel emptyHash R (mem_op f g d i j ms)"
  by (simp add: op_rel_def mem_op_def)

lemmas exec_all =
  exec_pure exec_memory exec_flow exec_jump exec_reads exec_keccak exec_writes exec_create exec_call
  exec_other_calls

lemmas gas_all =
  gas_lift gas_warm gas_sstore gas_variant[OF gas_call] gas_variant[OF gas_calls(1)] gas_variant[OF gas_calls(2)]

lemma table_rel: "op_rel emptyHash R (newZondInstructionSet op)"
proof (rule table_induct[where P = "op_rel emptyHash R", OF _ undefined_rel])
  have p: "list_all (\<lambda>(b, o'). op_rel emptyHash R o') (table_push_low @ table_push_high)"
    by (auto simp: table_defs list_all_iff push_entry_def intro!: simple_rel exec_all)
  have d: "list_all (\<lambda>(b, o'). op_rel emptyHash R o') (table_dup @ table_swap)"
    by (auto simp: table_defs list_all_iff op_rel_def exec_flow)
  have "list_all (\<lambda>(b, o'). op_rel emptyHash R o') table_arithmetic" "list_all (\<lambda>(b, o'). op_rel emptyHash R o') table_environment"
    "list_all (\<lambda>(b, o'). op_rel emptyHash R o') table_flow" "list_all (\<lambda>(b, o'). op_rel emptyHash R o') table_calls"
    "list_all (\<lambda>(b, o'). op_rel emptyHash R o') table_later"
    unfolding table_defs list.pred_inject prod.case pure_op_defs gas_variant_defs
    by (intro conjI list.pred_inject(1) simple_rel dyn_rel mem_rel exec_all gas_all)+
  then show "list_all (\<lambda>(b, o'). op_rel emptyHash R o') zond_table" using p d by (simp add: zond_table_def)
qed

lemma machine_step_trans: "machine_step R m m' \<Longrightarrow> machine_step R m' m'' \<Longrightarrow> machine_step R m m''"
  by (auto simp: machine_step_def frame_def intro: trans)

lemma machine_step_refl: "machine_step R m m"
  by (simp add: machine_step_def refl)

lemma charge_rel:
  assumes "op_rel emptyHash R o'"
  shows "charge_dynamic E o' m c st mem = Ok (Inl (err, m', c')) \<Longrightarrow> machine_step R m m'"
    and "charge_dynamic E o' m c st mem = Ok (Inr (m', c', mem')) \<Longrightarrow> machine_step R m m'"
  using assms unfolding op_rel_def
  by (auto simp: charge_dynamic_def Let_def case_prod_unfold machine_step_refl
      split: option.splits sum.splits if_splits elim!: bind_OkE) (erule (1) gas_relD)+

lemma execute_rel:
  assumes "EmptyCodeHash (e_Keccak256 E) = emptyHash" "run_rel R run" "op_execute (newZondInstructionSet op) E run pc m sc = Ok (res, err, pc', m', sc')"
  shows "machine_step R m m'"
  using table_rel[of op] assms unfolding op_rel_def exec_rel_def by blast

lemma step_rel:
  assumes E: "EmptyCodeHash (e_Keccak256 E) = emptyHash" and run: "run_rel R run"
  shows "step E run pc m sc = Ok (Inl (ret, err, c, m')) \<Longrightarrow> machine_step R m m'"
    and "step E run pc m sc = Ok (Inr (pc', m', sc')) \<Longrightarrow> machine_step R m m'"
  by (auto simp: step_def Let_def machine_step_refl split: prod.splits sum.splits option.splits if_splits elim!: bind_OkE
      dest!: charge_rel[OF table_rel] execute_rel[OF E run]) (blast intro: machine_step_trans)+

lemma loop_rel:
  assumes E: "EmptyCodeHash (e_Keccak256 E) = emptyHash" and run: "run_rel R run"
  shows "run_loop n E run pc m sc = Ok (ret, err, c, m') \<Longrightarrow> machine_step R m m'"
proof (induction n arbitrary: pc m sc)
  case (Suc n)
  from Suc.prems show ?case
    by (auto split: sum.splits elim!: bind_OkE dest!: step_rel[OF E run] Suc.IH intro: machine_step_trans)
qed simp

lemma Run_rel:
  assumes E: "EmptyCodeHash (e_Keccak256 E) = emptyHash"
  shows "run_rel R (Run d E)"
proof (induction d)
  case (Suc d)
  show ?case unfolding run_rel_def
  proof (intro allI impI)
    fix c input ro m ret err c' m'
    assume "Run (Suc d) E c input ro m = Ok (ret, err, c', m')"
    then have "m' = leave ro m (enter ro m) \<or> (\<exists>sc m2. m' = leave ro m m2 \<and> machine_step R (enter ro m) m2)"
      by (auto simp: Let_def simp del: run_loop.simps split: if_splits elim!: bind_OkE dest!: loop_rel[OF E Suc])
    then show "frame m m' \<and> R (m_readOnly m \<or> ro) (m_StateDB m) (m_StateDB m')"
      by (auto simp: machine_step_def enter_def leave_def frame_def refl split: if_splits)
  qed
qed (simp add: run_rel_def)

lemma qrvm_Call_rel:
  "EmptyCodeHash (e_Keccak256 E) = emptyHash \<Longrightarrow> (m_readOnly m \<Longrightarrow> val = 0) \<Longrightarrow> qrvm_Call E caller addr input gas val m = Ok (ret, g, err, m') \<Longrightarrow>
   call_effect R err m m'"
  unfolding qrvm_Call_def by (rule Call_rel[OF Run_rel])

lemma qrvm_Create_rel:
  "EmptyCodeHash (e_Keccak256 E) = emptyHash \<Longrightarrow> \<not> m_readOnly m \<Longrightarrow> qrvm_Create E caller code gas val m = Ok (ret, a, g, err, m') \<Longrightarrow> machine_step R m m'"
  unfolding machine_step_def qrvm_Create_def using Create_rel[OF _ Run_rel] by auto

end

subsection \<open>Executions can be undone\<close>

lemma good_revert:
  assumes "Snapshot s = (i, s1)" "good_step s1 s2" "RevertToSnapshot i s2 = Some s3"
  shows "good_step s s3"
  unfolding good_step_def
proof
  assume ok: "sdb_ok s"
  then have "sdb_ok s1" using good_Snapshot[of s] assms(1) by (simp add: good_step_def)
  then have "extends s1 s2" "sdb_wf s2" using assms(2) by (auto simp: good_step_def sdb_ok_def)
  then show "extends s s3 \<and> sdb_ok s3" 
    using RevertToSnapshot_extends[OF ok assms(1)] assms(3) by fastforce
qed

lemma good_cache: "(sdb_wf s \<Longrightarrow> same s s') \<Longrightarrow> good_step s s'"
  using same_good_step[of s s'] by (auto simp: good_step_def sdb_ok_def)

lemma good_Transfer: "good_step s (Transfer a b x s)"
  unfolding Transfer_def by (rule good_step_trans[OF good_SubBalance good_AddBalance])

interpretation journalled: state_relation h "\<lambda>_. good_step" for h
proof unfold_locales
  fix a and s :: statedb
  show "good_step s (CreateAccount a (snd (Exist a s)))"
    by (rule good_step_trans[OF good_cache good_CreateAccount]) (simp add: Exist_read)
  show "\<not> sdb_ok s \<Longrightarrow> good_step s s'" for s' by (simp add: good_step_def)
qed (erule (1) good_step_trans | assumption | erule good_cache | erule (2) good_revert
     | rule good_AddAddressToAccessList good_AddSlotToAccessList good_AddPreimage good_AddRefund good_Snapshot
         good_AddBalance good_SubBalance good_Transfer good_SetState good_SetNonce good_SetCode good_AddLog good_CreateAccount
     | rule good_step_trans[OF good_CreateAccount good_SetNonce] | rule good_step_trans[OF _ good_SetCode]
     | erule good_SubRefund)+

lemma undone_view:
  assumes ok: "sdb_ok s" and u: "undone (\<lambda>_. good_step) ro s s'"
  shows "view s' = view s" "sdb_ok s'"
proof -
  have wf: "sdb_wf s" using ok by (simp add: sdb_ok_def)
  have "view s' = view s \<and> sdb_ok s'" using u unfolding undone_def
  proof (elim disjE exE conjE)
    fix s0 i s1 s2
    assume r: "sdb_wf s \<longrightarrow> same s s0" "Snapshot s0 = (i, s1)" "good_step s1 s2" "RevertToSnapshot i s2 = Some s'"
    have ok0: "sdb_ok s0" "view s0 = view s" using r(1) wf ok by (auto simp: same_def sdb_ok_def)
    then have "sdb_ok s1" using good_Snapshot[of s0] r(2) by (simp add: good_step_def)
    then have "extends s1 s2" "sdb_wf s2" using r(3) by (auto simp: good_step_def sdb_ok_def)
    then show ?thesis using RevertToSnapshot_restores[OF ok0(1) r(2)] r(4) ok0(2) by fastforce
  qed (use wf ok in \<open>auto simp: same_def sdb_ok_def\<close>)
  then show "view s' = view s" "sdb_ok s'" by blast+
qed

end
