(* ===== verification/StaticCalls.thy ===== *)
theory StaticCalls
  imports VMState
begin

text \<open>
  Execution in read-only mode (\<open>StaticCall\<close> of \<open>core/vm/qrvm.go\<close>): what an observer of the accounts can
  see, the balance, nonce, code and storage of every address and the logs, does not change. A static
  call may still create and touch accounts, warm the access list and change the refund counter, which
  are the operations of the locale that hold for the read-only flag.
\<close>

context state_relation
begin

text \<open>A static call runs in read-only mode whatever the mode of the caller.\<close>

lemma StaticCall_read_only:
  assumes run: "run_rel R run" and call: "StaticCall E run caller addr input gas m = Ok (ret, g, err, m')"
  shows "R True (m_StateDB m) (m_StateDB m')"
proof (cases "m_depth m > 1024")
  case False
  obtain i s1 where snap: "Snapshot (m_StateDB m) = (i, s1)" by fastforce
  have read: "R True s1 (snd (GetCode addr (snd (GetCodeHash addr (AddBalance addr 0 s1)))))"
    by (intro then_reads touch_add)
  have "\<exists>a b e m1. finish_call i (a, b, e, m1) = Ok (ret, g, err, m') \<and> R True s1 (m_StateDB m1)"
  proof (cases "precompile addr")
    case (Some p)
    with call False snap show ?thesis
      by (fastforce simp: StaticCall_def touch_add elim!: bind_OkE dest!: run_precompile_frame)
  next
    case None
    let ?m = "(snd (NewContract caller addr 0 gas (m\<lparr>m_StateDB := AddBalance addr 0 s1\<rparr>)))
           \<lparr>m_StateDB := snd (GetCode addr (snd (GetCodeHash addr (AddBalance addr 0 s1))))\<rparr>"
    from None obtain c where
      "bind_outcome (run_contract run c input True ?m) (finish_call i) = Ok (ret, g, err, m')"
      using call False snap by (auto simp: StaticCall_def case_prod_unfold Let_def)
    then obtain a b e m1 where r: "run_contract run c input True ?m = Ok (a, b, e, m1)"
      "finish_call i (a, b, e, m1) = Ok (ret, g, err, m')" by (auto elim!: bind_OkE)
    have "R True (m_StateDB ?m) (m_StateDB m1)"
      using r(1) by (auto simp: run_contract_def elim!: bind_OkE dest: run_relD[OF run])
    then have "R True s1 (m_StateDB m1)" by (rule trans[rotated]) (simp add: read)
    then show ?thesis using r(2) by blast
  qed
  then show ?thesis using finish_call_rel[OF snap] by blast
qed (use call in \<open>simp add: StaticCall_def refl\<close>)

end

definition account_obs :: "world \<Rightarrow> address \<Rightarrow> int \<times> u64 \<times> bytes \<times> (hash \<Rightarrow> hash)" where
  "account_obs w a =
     (case live_acct w a of
        None \<Rightarrow> (0, 0, [], \<lambda>_. 0)
      | Some v \<Rightarrow> (Balance (a_data v), Nonce (a_data v), a_code v, a_storage v))"

definition observable :: "world \<Rightarrow> (address \<Rightarrow> int \<times> u64 \<times> bytes \<times> (hash \<Rightarrow> hash)) \<times> (hash \<Rightarrow> Log list option)" where
  "observable w = (account_obs w, w_logs w)"

text \<open>An address without an account in the database has no storage there.\<close>

definition fresh_env :: "env \<Rightarrow> bool" where
  "fresh_env e \<longleftrightarrow>
     (\<forall>a k v. load_view a e = None \<longrightarrow> read_view e (newObject (e_hasher e) a None) k = Some v \<longrightarrow> v = 0)"

definition keeps_obs :: "bool \<Rightarrow> statedb \<Rightarrow> statedb \<Rightarrow> bool" where
  "keeps_obs ro s s' \<longleftrightarrow>
     good_step s s' \<and>
     (ro \<longrightarrow> sdb_ok s \<longrightarrow> fresh_env (env_of s) \<longrightarrow> observable (view s') = observable (view s))"

lemma account_obs_upd:
  assumes "\<And>b. b \<noteq> a \<Longrightarrow> w_acct w' b = w_acct w b" "account_obs w' a = account_obs w a"
  shows "account_obs w' = account_obs w"
proof
  fix b
  show "account_obs w' b = account_obs w b"
    using assms by (cases "b = a") (simp_all add: account_obs_def live_acct_def)
qed

lemma new_object_obs:
  assumes "s_stateObjects s a = Some o1" and o1: "o1 = (newObject (s_hasher s) a None)\<lparr>so_created := c\<rparr>"
    and "s_stateObjectsDestruct s a = None \<Longrightarrow> fresh_env (env_of s) \<and> load_view a (env_of s) = None"
  shows "account_obs (view s) a = (0, 0, [], \<lambda>_. 0)"
proof -
  have read: "read_view (env_of s) o1 = read_view (env_of s) (newObject (s_hasher s) a None)"
    unfolding o1
    by (rule read_view_cong)
      (simp_all add: trie_view_def newObject_def fun_eq_iff cong: sum.case_cong option.case_cong)
  have storage: "so_pendingStorage o1 = Map.empty" "so_originStorage o1 = Map.empty" "so_dirtyStorage o1 = Map.empty"
    "so_code o1 = []" "so_data o1 = NewEmptyStateAccount (s_hasher s)" "\<not> so_deleted o1"
    by (simp_all add: o1 newObject_def)
  have "committed_view (env_of s) (s_stateObjectsDestruct s a \<noteq> None) o1 k = 0" for k
    using assms(3) by (auto simp: committed_view_def storage read fresh_env_def split: option.splits)
  moreover have "code_view (env_of s) o1 = []"
    by (simp add: code_view_def storage NewEmptyStateAccount_def)
  ultimately show ?thesis
    using acct_view_live[OF assms(1)]
    by (simp add: account_obs_def live_acct_def obj_view_def storage NewEmptyStateAccount_def fun_eq_iff)
qed

lemma createObject_obs:
  assumes ok: "sdb_ok s" and fr: "fresh_env (env_of s)" and n: "live_acct (view s) a = None"
  shows "observable (view (snd (createObject a s))) = observable (view s) \<and> snd (fst (createObject a s)) = None"
proof -
  define o1 where o1: "o1 = (newObject (s_hasher s) a None)\<lparr>so_created := True\<rparr>"
  have oa: "so_address o1 = a" by (simp add: o1 newObject_def)
  have wf: "sdb_wf s" using ok by (simp add: sdb_ok_def)
  obtain t where t: "createObject a s = ((o1, None), setStateObject o1 t)" "env_of t = env_of s" "s_logs t = s_logs s"
    "\<And>b. b \<noteq> a \<Longrightarrow> acct_view t b = acct_view s b"
    "s_stateObjectsDestruct t a = None \<Longrightarrow> load_view a (env_of t) = None"
  proof (cases "getDeletedStateObject a s")
    case (Pair r s1)
    show ?thesis
    proof (cases r)
      case None
      have gs: "same s s1" "load_view a (env_of s) = None"
        using getDeletedStateObject_spec[OF Pair[unfolded None] wf] by auto
      then have v: "acct_view s1 = acct_view s" "s_logs s1 = s_logs s" "env_of s1 = env_of s"
        by (metis same_def view_sel)+
      show ?thesis
        using gs(2) v createObject_None[OF Pair[unfolded None] wf o1]
        by (intro that[of "j_append (createObjectChange a) s1"]) auto
    next
      case (Some p)
      obtain t where "createObject a s = ((o1, if so_deleted p then None else Some p), setStateObject o1 t)"
        "s_stateObjectsDestruct t a \<noteq> None" "env_of t = env_of s" "s_logs t = s_logs s"
        "\<forall>b. b \<noteq> a \<longrightarrow> acct_view t b = acct_view s b"
        using createObject_prev[OF ok Pair[unfolded Some] o1] by blast
      moreover have "so_deleted p"
        using getDeletedStateObject_spec[OF Pair[unfolded Some] wf] n by (auto simp: live_acct_def split: if_splits)
      ultimately show ?thesis by (intro that[of t]) auto
    qed
  qed
  have h: "s_hasher t = s_hasher s" using t(2) by (metis env_of_sel(3))
  have "account_obs (view (setStateObject o1 t)) a = account_obs (view s) a"
    using new_object_obs[of "setStateObject o1 t" a o1 True] t(2,5) fr n
    by (simp add: setStateObject_def oa o1 h account_obs_def)
  moreover have "w_acct (view (setStateObject o1 t)) b = w_acct (view s) b" if "b \<noteq> a" for b
    using that t(4) by (simp add: acct_view_setStateObject oa)
  ultimately have "account_obs (view (setStateObject o1 t)) = account_obs (view s)"
    by (intro account_obs_upd[of a]) auto
  then show ?thesis using t(1,3) by (simp add: observable_def setStateObject_def)
qed

lemma same_observable: "same s s' \<Longrightarrow> observable (view s') = observable (view s)"
  by (simp add: same_def)

lemma GetOrNewStateObject_obs:
  assumes ok: "sdb_ok s" and fr: "fresh_env (env_of s)" and g: "GetOrNewStateObject a s = (o1, s')"
  shows "observable (view s') = observable (view s)"
proof -
  obtain r s1 where r: "getStateObject a s = (r, s1)" by fastforce
  have wf: "sdb_wf s" using ok by (simp add: sdb_ok_def)
  note gs = getStateObject_live[OF r wf]
  have s1: "same s s1" "sdb_ok s1" "fresh_env (env_of s1)" using gs ok fr by (auto simp: same_def sdb_ok_def)
  show ?thesis
  proof (cases r)
    case None
    then have "live_acct (view s1) a = None" using gs by (simp add: same_def)
    then show ?thesis
      using createObject_obs[OF s1(2,3)] same_observable[OF s1(1)] g r None
      by (auto simp: GetOrNewStateObject_def case_prod_unfold Let_def)
  qed (use g r s1(1) in \<open>auto simp: GetOrNewStateObject_def same_observable\<close>)
qed

lemma with_object_obs:
  assumes ok: "sdb_ok s" and fr: "fresh_env (env_of s)"
    and f: "\<And>o' t. fst (f o' t) = o' \<and> observable (view (snd (f o' t))) = observable (view t) \<and>
              s_stateObjects (snd (f o' t)) = s_stateObjects t"
  shows "observable (view (with_object f a s)) = observable (view s)"
proof -
  obtain o1 s1 where g: "GetOrNewStateObject a s = (o1, s1)" by fastforce
  note gs = GetOrNewStateObject_step[OF ok g]
  have "obj_wf a o1" using gs by (auto simp: sdb_ok_def sdb_wf_def)
  then have "with_object f a s = snd (f o1 s1)"
    using f[of o1 s1] gs setStateObject_same[of "snd (f o1 s1)" a o1]
    by (simp add: with_object_def g case_prod_unfold obj_wf_def)
  then show ?thesis using f[of o1 s1] GetOrNewStateObject_obs[OF ok fr g] by simp
qed

lemma so_touch_obs: "observable (view (so_touch o' s)) = observable (view s) \<and> s_stateObjects (so_touch o' s) = s_stateObjects s"
  by (simp add: so_touch_def observable_def account_obs_def live_acct_def fun_eq_iff)

lemma zero_balance_obs:
  assumes "sdb_ok s" "fresh_env (env_of s)"
  shows "observable (view (AddBalance a 0 s)) = observable (view s)" "observable (view (SubBalance a 0 s)) = observable (view s)"
  unfolding AddBalance_def SubBalance_def
  by (rule with_object_obs[OF assms]; simp add: so_AddBalance_def so_SubBalance_def so_touch_obs)+

lemma CreateAccount_obs:
  assumes ok: "sdb_ok s" and fr: "fresh_env (env_of s)" and n: "live_acct (view s) a = None"
  shows "observable (view (CreateAccount a s)) = observable (view s)"
  using createObject_obs[OF assms] by (auto simp: CreateAccount_def case_prod_unfold Let_def)

lemma keeps_obs_good: "keeps_obs ro s s' \<Longrightarrow> good_step s s'"
  by (simp add: keeps_obs_def)

lemma keeps_obs_trans: "keeps_obs ro s s' \<Longrightarrow> keeps_obs ro s' s'' \<Longrightarrow> keeps_obs ro s s''"
  unfolding keeps_obs_def using good_step_trans[of s s' s''] by (auto simp: good_step_def extends_def)

lemma keeps_obs_cache: "(sdb_wf s \<Longrightarrow> same s s') \<Longrightarrow> keeps_obs ro s s'"
  unfolding keeps_obs_def by (auto intro: good_cache simp: same_observable sdb_ok_def)

lemma keeps_obs_revert:
  assumes "Snapshot s = (i, s1)" "keeps_obs ro s1 s2" "RevertToSnapshot i s2 = Some s3"
  shows "keeps_obs ro s s3"
proof -
  have "undone (\<lambda>_. good_step) ro s s3" unfolding undone_def keeps_obs_def
    using assms(1,3) keeps_obs_good[OF assms(2)] same_refl by blast
  then show ?thesis using good_revert[OF assms(1) keeps_obs_good[OF assms(2)] assms(3)] undone_view
    by (auto simp: keeps_obs_def)
qed

lemma observable_cong:
  assumes "env_of s' = env_of s" "s_stateObjects s' = s_stateObjects s"
    "s_stateObjectsDestruct s' = s_stateObjectsDestruct s" "s_logs s' = s_logs s"
  shows "observable (view s') = observable (view s)"
  using acct_view_cong[OF assms(1-3)] assms(4) by (simp add: observable_def account_obs_def live_acct_def fun_eq_iff)

lemma observable_quiet:
  "observable (view (AddAddressToAccessList a s)) = observable (view s)"
  "observable (view (AddSlotToAccessList a k s)) = observable (view s)"
  "observable (view (AddPreimage h p s)) = observable (view s)"
  "observable (view (AddRefund g s)) = observable (view s)"
  "observable (view (snd (Snapshot s))) = observable (view s)"
  "SubRefund g s = Some s' \<Longrightarrow> observable (view s') = observable (view s)"
  by (rule observable_cong;
      auto simp: AddAddressToAccessList_def AddSlotToAccessList_def AddPreimage_def AddRefund_def Snapshot_def
        SubRefund_def case_prod_unfold Let_def split: if_splits)+

lemma appear_obs:
  assumes "\<not> fst (Exist a s)"
  shows "keeps_obs ro s (CreateAccount a (snd (Exist a s)))"
proof -
  let ?t = "snd (Exist a s)"
  have "observable (view (CreateAccount a ?t)) = observable (view ?t)" if "sdb_ok s" "fresh_env (env_of s)"
    using that assms Exist_read[of s a] by (intro CreateAccount_obs) (auto simp: sdb_ok_def same_def)
  moreover have "same s ?t" if "sdb_wf s" using that Exist_read by blast
  ultimately show ?thesis
    using good_step_trans[OF good_cache good_CreateAccount, of s ?t a]
    by (auto simp: keeps_obs_def same_observable sdb_ok_def)
qed

lemma keeps_obs_writes:
  "keeps_obs False s (SetNonce a 1 (CreateAccount a s))"
  "keeps_obs False s t \<Longrightarrow> keeps_obs False s (SetCode a code t)"
  by (auto simp: keeps_obs_def intro: good_step_trans[OF good_CreateAccount good_SetNonce] good_step_trans[OF _ good_SetCode])

interpretation static: state_relation h keeps_obs for h
proof unfold_locales
  show "\<not> sdb_ok s \<Longrightarrow> keeps_obs ro s s'" for ro s s' by (simp add: keeps_obs_def good_step_def)
qed (erule (1) keeps_obs_trans | erule keeps_obs_cache | erule (2) keeps_obs_revert | erule appear_obs
  | rule keeps_obs_writes(1) | erule keeps_obs_writes(2)
  | (simp add: keeps_obs_def good_AddAddressToAccessList good_AddSlotToAccessList good_AddPreimage good_AddRefund
         good_Snapshot good_AddBalance good_SubBalance good_Transfer good_SetState good_SetNonce good_AddLog
         good_SubRefund observable_quiet zero_balance_obs; fail))+

end
