(* ===== verification/StateOps.thy ===== *)
theory StateOps
  imports StaticCalls
begin

text \<open>
  What the operations of \<open>src/core/state/statedb.go\<close> mean: a state is a map from addresses to
  accounts, whatever is cached, loaded or journalled. \<open>accounts\<close> is the map a state stands for; each
  setter changes one account of it (an address without one gets a new account first), and each getter
  returns a component of it.
\<close>

subsection \<open>The specification\<close>

record Account =
  ac_Balance :: int
  ac_Nonce :: u64
  ac_CodeHash :: bytes
  ac_Code :: bytes
  ac_Storage :: "hash \<Rightarrow> hash"

definition acct_abs :: "acct \<Rightarrow> Account" where
  "acct_abs v =
     \<lparr>ac_Balance = Balance (a_data v), ac_Nonce = Nonce (a_data v), ac_CodeHash = CodeHash (a_data v),
      ac_Code = a_code v, ac_Storage = a_storage v\<rparr>"

definition accounts :: "statedb \<Rightarrow> address \<Rightarrow> Account option" where
  "accounts s a = map_option acct_abs (live_acct (view s) a)"

definition new_Account :: "(bytes \<Rightarrow> hash) \<Rightarrow> Account" where
  "new_Account hasher =
     \<lparr>ac_Balance = 0, ac_Nonce = 0, ac_CodeHash = hash_bytes (EmptyCodeHash hasher), ac_Code = [],
      ac_Storage = (\<lambda>_. 0)\<rparr>"

definition account_or_new :: "(bytes \<Rightarrow> hash) \<Rightarrow> Account option \<Rightarrow> Account" where
  "account_or_new hasher x = (case x of None \<Rightarrow> new_Account hasher | Some v \<Rightarrow> v)"

datatype state_op =
    OpAddBalance address int
  | OpSubBalance address int
  | OpSetBalance address int
  | OpSetNonce address u64
  | OpSetCode address bytes
  | OpSetState address hash hash
  | OpCreateAccount address
  | OpAttempt "state_op list" \<comment> \<open>a snapshot, operations, and a revert to the snapshot\<close>

text \<open>An operation on the map of accounts.\<close>

fun spec_op :: "(bytes \<Rightarrow> hash) \<Rightarrow> state_op \<Rightarrow> (address \<Rightarrow> Account option) \<Rightarrow> (address \<Rightarrow> Account option)" where
  "spec_op h (OpAddBalance a x) M =
     (let v = account_or_new h (M a) in M(a \<mapsto> v\<lparr>ac_Balance := ac_Balance v + x\<rparr>))"
| "spec_op h (OpSubBalance a x) M =
     (let v = account_or_new h (M a) in M(a \<mapsto> v\<lparr>ac_Balance := ac_Balance v - x\<rparr>))"
| "spec_op h (OpSetBalance a x) M = M(a \<mapsto> (account_or_new h (M a))\<lparr>ac_Balance := x\<rparr>)"
| "spec_op h (OpSetNonce a n) M = M(a \<mapsto> (account_or_new h (M a))\<lparr>ac_Nonce := n\<rparr>)"
| "spec_op h (OpSetCode a code) M =
     M(a \<mapsto> (account_or_new h (M a))\<lparr>ac_CodeHash := hash_bytes (h code), ac_Code := code\<rparr>)"
| "spec_op h (OpSetState a k v) M =
     (let x = account_or_new h (M a) in M(a \<mapsto> x\<lparr>ac_Storage := (ac_Storage x)(k := v)\<rparr>))"
| "spec_op h (OpCreateAccount a) M =
     M(a \<mapsto> (new_Account h)\<lparr>ac_Balance := ac_Balance (account_or_new h (M a))\<rparr>)"
| "spec_op h (OpAttempt ops) M = M"

text \<open>The same operation on a state; a revert to an unknown snapshot would panic.\<close>

fun apply_op :: "state_op \<Rightarrow> statedb \<Rightarrow> statedb option"
  and apply_ops :: "state_op list \<Rightarrow> statedb \<Rightarrow> statedb option" where
  "apply_op (OpAddBalance a x) s = Some (AddBalance a x s)"
| "apply_op (OpSubBalance a x) s = Some (SubBalance a x s)"
| "apply_op (OpSetBalance a x) s = Some (SetBalance a x s)"
| "apply_op (OpSetNonce a n) s = Some (SetNonce a n s)"
| "apply_op (OpSetCode a code) s = Some (SetCode a code s)"
| "apply_op (OpSetState a k v) s = Some (SetState a k v s)"
| "apply_op (OpCreateAccount a) s = Some (CreateAccount a s)"
| "apply_op (OpAttempt ops) s =
     (let (revid, s1) = Snapshot s in Option.bind (apply_ops ops s1) (RevertToSnapshot revid))"
| "apply_ops [] s = Some s"
| "apply_ops (x # xs) s = Option.bind (apply_op x s) (apply_ops xs)"

subsection \<open>Objects and accounts\<close>

lemma acct_abs_sel [simp]:
  "ac_Balance (acct_abs v) = Balance (a_data v)" "ac_Nonce (acct_abs v) = Nonce (a_data v)"
  "ac_CodeHash (acct_abs v) = CodeHash (a_data v)" "ac_Code (acct_abs v) = a_code v"
  "ac_Storage (acct_abs v) = a_storage v"
  by (simp_all add: acct_abs_def)

lemma same_accounts: "same s s' \<Longrightarrow> accounts s' = accounts s"
  by (auto simp: accounts_def same_def)

lemma accounts_object:
  "s_stateObjects s a = Some o' \<Longrightarrow> \<not> so_deleted o' \<Longrightarrow>
   accounts s a = Some (acct_abs (obj_view (env_of s) (s_stateObjectsDestruct s a \<noteq> None) o'))"
  using acct_view_live[of s a o'] by (simp add: accounts_def live_acct_def)

lemma accounts_other: "acct_view s' b = acct_view s b \<Longrightarrow> accounts s' b = accounts s b"
  by (simp add: accounts_def live_acct_def)

lemma new_object_account:
  assumes "s_stateObjects s a = Some o1" and o1: "o1 = (newObject (s_hasher s) a None)\<lparr>so_created := c\<rparr>"
    and "s_stateObjectsDestruct s a = None \<Longrightarrow> fresh_env (env_of s) \<and> load_view a (env_of s) = None"
  shows "accounts s a = Some (new_Account (s_hasher s))"
proof -
  have d: "so_data o1 = NewEmptyStateAccount (s_hasher s)" "\<not> so_deleted o1" by (simp_all add: o1 newObject_def)
  show ?thesis
    using new_object_obs[OF assms] accounts_object[OF assms(1) d(2)] acct_view_live[OF assms(1)] d
    by (auto simp: account_obs_def live_acct_def accounts_def acct_abs_def new_Account_def NewEmptyStateAccount_def
      split: option.splits if_splits)
qed

lemma createObject_shape:
  assumes ok: "sdb_ok s" and o1: "o1 = (newObject (s_hasher s) a None)\<lparr>so_created := True\<rparr>"
  shows "\<exists>t prev. createObject a s = ((o1, prev), setStateObject o1 t) \<and> env_of t = env_of s \<and>
    (\<forall>b. b \<noteq> a \<longrightarrow> acct_view t b = acct_view s b) \<and>
    (s_stateObjectsDestruct t a = None \<longrightarrow> load_view a (env_of t) = None) \<and>
    map_option so_data prev = map_option a_data (live_acct (view s) a)"
proof (cases "getDeletedStateObject a s")
  case (Pair r s1)
  have wf: "sdb_wf s" using ok by (simp add: sdb_ok_def)
  show ?thesis
  proof (cases r)
    case None
    have gs: "same s s1" "load_view a (env_of s) = None" "acct_view s a = None"
      using getDeletedStateObject_spec[OF Pair[unfolded None] wf] by auto
    then have "acct_view s1 = acct_view s" "env_of s1 = env_of s" by (metis same_def view_sel)+
    then show ?thesis
      using gs createObject_None[OF Pair[unfolded None] wf o1]
      by (intro exI[of _ "j_append (createObjectChange a) s1"] exI[of _ None]) (simp add: live_acct_def)
  next
    case (Some p)
    obtain t where "createObject a s = ((o1, if so_deleted p then None else Some p), setStateObject o1 t)"
      "s_stateObjectsDestruct t a \<noteq> None" "env_of t = env_of s" "\<forall>b. b \<noteq> a \<longrightarrow> acct_view t b = acct_view s b"
      using createObject_prev[OF ok Pair[unfolded Some] o1] by blast
    then show ?thesis
      using getDeletedStateObject_spec[OF Pair[unfolded Some] wf]
      by (intro exI[of _ t] exI[of _ "if so_deleted p then None else Some p"]) (auto simp: live_acct_def)
  qed
qed

lemma createObject_accounts:
  assumes ok: "sdb_ok s" and fr: "fresh_env (env_of s)" and c: "createObject a s = ((o1, prev), s')"
  shows "accounts s' = (accounts s)(a \<mapsto> new_Account (s_hasher s))"
    and "map_option (\<lambda>p. Balance (so_data p)) prev = map_option ac_Balance (accounts s a)"
proof -
  define n where n: "n = (newObject (s_hasher s) a None)\<lparr>so_created := True\<rparr>"
  obtain t pr where t: "createObject a s = ((n, pr), setStateObject n t)" "env_of t = env_of s"
    "\<forall>b. b \<noteq> a \<longrightarrow> acct_view t b = acct_view s b"
    "s_stateObjectsDestruct t a = None \<longrightarrow> load_view a (env_of t) = None"
    "map_option so_data pr = map_option a_data (live_acct (view s) a)"
    using createObject_shape[OF ok n] by (elim exE conjE) (rule that)
  have na: "so_address n = a" by (simp add: n newObject_def)
  have h: "s_hasher t = s_hasher s" using t(2) by (metis env_of_sel(3))
  have s': "s' = setStateObject n t" "prev = pr" using t(1) c by auto
  have "accounts s' a = Some (new_Account (s_hasher s))"
    using new_object_account[of s' a n True] t(2,4) fr by (simp add: s' setStateObject_def na n h)
  moreover have "accounts s' b = accounts s b" if "b \<noteq> a" for b
    using that t(3) by (intro accounts_other) (simp add: s' acct_view_setStateObject na)
  ultimately show "accounts s' = (accounts s)(a \<mapsto> new_Account (s_hasher s))" by (auto simp: fun_eq_iff)
  have "map_option Balance (map_option so_data pr) = map_option Balance (map_option a_data (live_acct (view s) a))"
    by (simp only: t(5))
  then show "map_option (\<lambda>p. Balance (so_data p)) prev = map_option ac_Balance (accounts s a)"
    by (simp add: s' accounts_def option.map_comp comp_def)
qed

lemma ok_fresh_extends:
  "sdb_ok s \<Longrightarrow> good_step s s' \<Longrightarrow> sdb_ok s' \<and> env_of s' = env_of s"
  by (simp add: good_step_def extends_def)

lemma CreateAccount_accounts:
  assumes ok: "sdb_ok s" and fr: "fresh_env (env_of s)"
  shows "accounts (CreateAccount a s) = spec_op (s_hasher s) (OpCreateAccount a) (accounts s)"
proof -
  obtain o1 prev s' where c: "createObject a s = ((o1, prev), s')" by (metis prod.collapse)
  note ca = createObject_accounts[OF ok fr c]
  note cs = createObject_step[OF ok c]
  show ?thesis
  proof (cases prev)
    case None
    then show ?thesis using c ca by (simp add: CreateAccount_def account_or_new_def new_Account_def)
  next
    case (Some p)
    let ?o = "so_setBalance (Balance (so_data p)) o1"
    have o: "so_address ?o = a" "\<not> so_deleted ?o" using cs by (auto simp: so_setBalance_def)
    have s2: "CreateAccount a s = setStateObject ?o s'" using c Some by (simp add: CreateAccount_def)
    have "accounts (setStateObject ?o s') a = Some ((new_Account (s_hasher s))\<lparr>ac_Balance := Balance (so_data p)\<rparr>)"
      using accounts_object[of "setStateObject ?o s'" a ?o] accounts_object[of s' a o1] ca(1) cs o
      by (auto simp: setStateObject_def setBalance_view acct_abs_def new_Account_def)
    moreover have "accounts (setStateObject ?o s') b = accounts s' b" if "b \<noteq> a" for b
      using that by (intro accounts_other) (simp add: acct_view_setStateObject o)
    ultimately show ?thesis using ca Some s2
      by (auto simp: fun_eq_iff account_or_new_def split: option.splits)
  qed
qed

lemma GetOrNewStateObject_accounts:
  assumes ok: "sdb_ok s" and fr: "fresh_env (env_of s)" and g: "GetOrNewStateObject a s = (o1, s')"
  shows "accounts s' = (accounts s)(a \<mapsto> account_or_new (s_hasher s) (accounts s a))"
proof -
  obtain r s1 where r: "getStateObject a s = (r, s1)" by fastforce
  have wf: "sdb_wf s" using ok by (simp add: sdb_ok_def)
  note gs = getStateObject_live[OF r wf]
  have s1: "same s s1" "sdb_ok s1" "fresh_env (env_of s1)" "s_hasher s1 = s_hasher s"
    using gs ok fr by (auto simp: same_def sdb_ok_def) (metis env_of_sel(3))
  show ?thesis
  proof (cases r)
    case None
    then have "accounts s a = None" using gs by (simp add: accounts_def)
    moreover obtain p where "createObject a s1 = ((o1, p), s')"
      using g r None by (auto simp: GetOrNewStateObject_def split: prod.splits)
    ultimately show ?thesis
      using createObject_accounts[OF s1(2,3)] same_accounts[OF s1(1)] s1(4) by (simp add: account_or_new_def)
  next
    case (Some o')
    then have "accounts s a \<noteq> None" "s' = s1" using gs g r by (auto simp: accounts_def GetOrNewStateObject_def)
    then show ?thesis using same_accounts[OF s1(1)] by (auto simp: account_or_new_def)
  qed
qed

text \<open>What a method of an object does to the account it stands for.\<close>

definition account_step :: "env \<Rightarrow> (Account \<Rightarrow> Account) \<Rightarrow> (stateObject \<Rightarrow> statedb \<Rightarrow> stateObject \<times> statedb) \<Rightarrow> bool" where
  "account_step e F f \<longleftrightarrow>
     (\<forall>s a o' o1 s1. sdb_ok s \<longrightarrow> env_of s = e \<longrightarrow> s_stateObjects s a = Some o' \<longrightarrow> \<not> so_deleted o' \<longrightarrow> f o' s = (o1, s1) \<longrightarrow>
        so_address o1 = a \<and> \<not> so_deleted o1 \<and> env_of s1 = e \<and> acct_view s1 = acct_view s \<and>
        s_stateObjectsDestruct s1 = s_stateObjectsDestruct s \<and>
        (let d = (s_stateObjectsDestruct s a \<noteq> None)
         in acct_abs (obj_view e d o1) = F (acct_abs (obj_view e d o'))))"

lemma with_object_accounts:
  assumes ok: "sdb_ok s" and fr: "fresh_env (env_of s)" and f: "account_step (env_of s) F f"
  shows "accounts (with_object f a s) = (accounts s)(a \<mapsto> F (account_or_new (s_hasher s) (accounts s a)))"
proof -
  obtain o1 s1 where g: "GetOrNewStateObject a s = (o1, s1)" by fastforce
  obtain o2 s2 where r: "f o1 s1 = (o2, s2)" by fastforce
  note gs = GetOrNewStateObject_step[OF ok g]
  note ga = GetOrNewStateObject_accounts[OF ok fr g]
  have e: "env_of s1 = env_of s" using gs by (simp add: extends_def)
  have fs: "so_address o2 = a" "\<not> so_deleted o2" "env_of s2 = env_of s1" "acct_view s2 = acct_view s1"
    "s_stateObjectsDestruct s2 = s_stateObjectsDestruct s1"
    "acct_abs (obj_view (env_of s1) (s_stateObjectsDestruct s1 a \<noteq> None) o2) =
     F (acct_abs (obj_view (env_of s1) (s_stateObjectsDestruct s1 a \<noteq> None) o1))"
    using f gs r e unfolding account_step_def Let_def by metis+
  have w: "with_object f a s = setStateObject o2 s2" by (simp add: with_object_def g r)
  have "accounts (setStateObject o2 s2) a = Some (F (account_or_new (s_hasher s) (accounts s a)))"
    using accounts_object[of "setStateObject o2 s2" a o2] accounts_object[of s1 a o1] gs ga fs
    by (auto simp: setStateObject_def fs(3))
  moreover have "accounts (setStateObject o2 s2) b = accounts s b" if "b \<noteq> a" for b
    using that accounts_other[of "setStateObject o2 s2" b s1] ga fs by (simp add: acct_view_setStateObject)
  ultimately show ?thesis unfolding w by (auto simp: fun_eq_iff)
qed

lemma acct_abs_set [simp]:
  "acct_abs (obj_view e d (so_setBalance b o')) = (acct_abs (obj_view e d o'))\<lparr>ac_Balance := b\<rparr>"
  "acct_abs (obj_view e d (so_setNonce n o')) = (acct_abs (obj_view e d o'))\<lparr>ac_Nonce := n\<rparr>"
  "acct_abs (obj_view e d (so_setState k x o')) =
     (acct_abs (obj_view e d o'))\<lparr>ac_Storage := (ac_Storage (acct_abs (obj_view e d o')))(k := x)\<rparr>"
  by (simp_all add: setBalance_view setNonce_view setState_view acct_abs_def del: obj_view_sel(5))

lemma acct_abs_setCode:
  assumes "code = [] \<Longrightarrow> h = e_hasher e []"
  shows "acct_abs (obj_view e d (so_setCode h code o')) =
    (acct_abs (obj_view e d o'))\<lparr>ac_CodeHash := hash_bytes h, ac_Code := code\<rparr>"
proof -
  have "code_view e (so_setCode h code o') = code"
    using assms by (auto simp: code_view_def so_setCode_def EmptyCodeHash_def)
  then show ?thesis by (simp add: setCode_view acct_abs_def del: obj_view_sel(5))
qed

lemma so_set_sel [simp]:
  "so_address (so_setBalance b o') = so_address o'" "so_deleted (so_setBalance b o') = so_deleted o'"
  "so_address (so_setNonce n o') = so_address o'" "so_deleted (so_setNonce n o') = so_deleted o'"
  "so_address (so_setState k x o') = so_address o'" "so_deleted (so_setState k x o') = so_deleted o'"
  "so_address (so_setCode h code o') = so_address o'" "so_deleted (so_setCode h code o') = so_deleted o'"
  by (simp_all add: so_setBalance_def so_setNonce_def so_setState_def so_setCode_def)

lemma account_step_simple:
  "account_step e (\<lambda>v. v\<lparr>ac_Balance := x\<rparr>) (so_SetBalance x)"
  "account_step e (\<lambda>v. v\<lparr>ac_Balance := ac_Balance v + x\<rparr>) (so_AddBalance x)"
  "account_step e (\<lambda>v. v\<lparr>ac_Balance := ac_Balance v - x\<rparr>) (so_SubBalance x)"
  "account_step e (\<lambda>v. v\<lparr>ac_Nonce := n\<rparr>) (so_SetNonce n)"
  by (auto simp: account_step_def so_SetBalance_def so_AddBalance_def so_SubBalance_def so_SetNonce_def so_touch_def
      Let_def dest: live_wf(1))

lemma err_only_sel:
  "err_only s s' \<Longrightarrow> env_of s' = env_of s \<and> acct_view s' = acct_view s \<and> s_stateObjectsDestruct s' = s_stateObjectsDestruct s"
  by (auto simp: err_only_def)

lemma account_step_SetState:
  "account_step e (\<lambda>v. v\<lparr>ac_Storage := (ac_Storage v)(k := x)\<rparr>) (so_SetState k x)"
  unfolding account_step_def
proof (intro allI impI, goal_cases)
  case (1 s a o' o1 s1)
  obtain prev oc s2 where g: "so_GetState k o' s = (prev, oc, s2)" by (metis prod.collapse)
  have a: "so_address o' = a" using live_wf 1 by blast
  let ?d = "s_stateObjectsDestruct s a \<noteq> None"
  have c: "cached (env_of s) ?d o' oc" "err_only s s2" "prev = a_storage (obj_view (env_of s) ?d o') k"
    using so_GetState_spec[OF g refl] a by auto
  show ?case
    using 1 a c(3) cached_sel[OF c(1)] err_only_sel[OF c(2)] g
    by (auto simp: so_SetState_def Let_def simp del: obj_view_sel split: if_splits)
qed

lemma account_step_SetCode:
  assumes "code = [] \<Longrightarrow> h = e_hasher e []"
  shows "account_step e (\<lambda>v. v\<lparr>ac_CodeHash := hash_bytes h, ac_Code := code\<rparr>) (so_SetCode h code)"
  unfolding account_step_def
proof (intro allI impI, goal_cases)
  case (1 s a o' o1 s1)
  obtain prev oc s2 where g: "so_Code o' s = (prev, oc, s2)" by (metis prod.collapse)
  have a: "so_address o' = a" using live_wf 1 by blast
  let ?d = "s_stateObjectsDestruct s a \<noteq> None"
  have c: "cached (env_of s) ?d o' oc" "err_only s s2"
    using so_Code_spec[OF g, of ?d] by auto
  show ?case
    using 1 a cached_sel[OF c(1)] err_only_sel[OF c(2)] g acct_abs_setCode[OF assms, where d = ?d]
    by (auto simp: so_SetCode_def Let_def simp del: obj_view_sel)
qed

subsection \<open>The refinement\<close>

lemma op_accounts:
  assumes "sdb_ok s" "fresh_env (env_of s)"
  shows "accounts (AddBalance a x s) = spec_op (s_hasher s) (OpAddBalance a x) (accounts s)"
    "accounts (SubBalance a x s) = spec_op (s_hasher s) (OpSubBalance a x) (accounts s)"
    "accounts (SetBalance a x s) = spec_op (s_hasher s) (OpSetBalance a x) (accounts s)"
    "accounts (SetNonce a n s) = spec_op (s_hasher s) (OpSetNonce a n) (accounts s)"
    "accounts (SetCode a code s) = spec_op (s_hasher s) (OpSetCode a code) (accounts s)"
    "accounts (SetState a k v s) = spec_op (s_hasher s) (OpSetState a k v) (accounts s)"
  unfolding AddBalance_def SubBalance_def SetBalance_def SetNonce_def SetCode_def SetState_def
  by (simp_all add: with_object_accounts[OF assms account_step_simple(1)] with_object_accounts[OF assms account_step_simple(2)]
      with_object_accounts[OF assms account_step_simple(3)] with_object_accounts[OF assms account_step_simple(4)]
      with_object_accounts[OF assms account_step_SetState] with_object_accounts[OF assms account_step_SetCode] Let_def)

lemma attempt_accounts:
  assumes ok: "sdb_ok s" and snap: "Snapshot s = (i, s1)" and step: "good_step s1 s2"
  shows "\<exists>s3. RevertToSnapshot i s2 = Some s3 \<and> good_step s s3 \<and> view s3 = view s"
proof -
  have "sdb_ok s1" using good_Snapshot[of s] snap ok by (simp add: good_step_def)
  then have "extends s1 s2" "sdb_wf s2" using step by (auto simp: good_step_def sdb_ok_def)
  from RevertToSnapshot_restores[OF ok snap this] obtain s3 where "RevertToSnapshot i s2 = Some s3" "view s3 = view s"
    by blast
  then show ?thesis using good_revert[OF snap step] by blast
qed

theorem apply_ops_refines:
  "sdb_ok s \<Longrightarrow> fresh_env (env_of s) \<Longrightarrow>
   \<exists>s'. apply_op x s = Some s' \<and> good_step s s' \<and> accounts s' = spec_op (s_hasher s) x (accounts s)"
  "sdb_ok s \<Longrightarrow> fresh_env (env_of s) \<Longrightarrow>
   \<exists>s'. apply_ops xs s = Some s' \<and> good_step s s' \<and> accounts s' = fold (spec_op (s_hasher s)) xs (accounts s)"
proof (induction x s and xs s rule: apply_op_apply_ops.induct)
  case (8 ops s)
  obtain i s1 where snap: "Snapshot s = (i, s1)" by fastforce
  have g: "good_step s s1" using good_Snapshot[of s] snap by simp
  have s1: "sdb_ok s1" "env_of s1 = env_of s" using ok_fresh_extends[OF 8(2) g] by auto
  obtain s2 where s2: "apply_ops ops s1 = Some s2" "good_step s1 s2" using 8(1)[OF snap[symmetric] refl] s1 8(3) by auto
  show ?case using attempt_accounts[OF 8(2) snap s2(2)] s2(1) snap by (auto simp: accounts_def)
next
  case (10 x xs s)
  obtain s1 where s1: "apply_op x s = Some s1" "good_step s s1" "accounts s1 = spec_op (s_hasher s) x (accounts s)"
    using 10 by blast
  have e: "sdb_ok s1" "env_of s1 = env_of s" using ok_fresh_extends[OF 10(3) s1(2)] by auto
  then have "s_hasher s1 = s_hasher s" by (metis env_of_sel(3))
  then show ?case using 10(2)[OF s1(1)] s1 e 10(4) by (auto intro: good_step_trans)
qed (auto simp: op_accounts CreateAccount_accounts good_AddBalance good_SubBalance good_SetBalance good_SetNonce good_SetCode
      good_SetState good_CreateAccount simp del: spec_op.simps)

end
