(* ===== verification/VMInvariants.thy ===== *)
theory VMInvariants
  imports StateOps
begin

text \<open>
  What an execution keeps of the state. \<open>view_relation\<close> asks for a relation on views that every
  operation of the virtual machine respects; it gives a relation on states that executions respect,
  because a revert restores the view. Its instances: addresses in the access list stay there, the sum
  of all balances stays the same, and the code of a contract does not change.
\<close>

definition good_and :: "(bool \<Rightarrow> world \<Rightarrow> world \<Rightarrow> bool) \<Rightarrow> bool \<Rightarrow> statedb \<Rightarrow> statedb \<Rightarrow> bool" where
  "good_and Q ro s s' \<longleftrightarrow>
     good_step s s' \<and> (sdb_ok s \<longrightarrow> fresh_env (env_of s) \<longrightarrow> Q ro (view s) (view s'))"

lemma good_andI:
  "good_step s s' \<Longrightarrow> (sdb_ok s \<Longrightarrow> fresh_env (env_of s) \<Longrightarrow> Q ro (view s) (view s')) \<Longrightarrow> good_and Q ro s s'"
  by (simp add: good_and_def)

locale view_relation =
  fixes emptyHash :: hash and Q :: "bool \<Rightarrow> world \<Rightarrow> world \<Rightarrow> bool"
  assumes Q_refl: "Q ro w w"
    and Q_trans: "Q ro w w' \<Longrightarrow> Q ro w' w'' \<Longrightarrow> Q ro w w''"
    and Q_weaken: "Q True w w' \<Longrightarrow> Q False w w'"
    and Q_warm_address: "Q ro (view s) (view (AddAddressToAccessList a s))"
    and Q_warm_slot: "sdb_ok s \<Longrightarrow> Q ro (view s) (view (AddSlotToAccessList a sl s))"
    and Q_preimage: "Q ro (view s) (view (AddPreimage h p s))"
    and Q_add_refund: "Q ro (view s) (view (AddRefund g s))"
    and Q_sub_refund: "SubRefund g s = Some s' \<Longrightarrow> Q ro (view s) (view s')"
    and Q_touch_add: "sdb_ok s \<Longrightarrow> fresh_env (env_of s) \<Longrightarrow> Q ro (view s) (view (AddBalance a 0 s))"
    and Q_touch_sub: "sdb_ok s \<Longrightarrow> fresh_env (env_of s) \<Longrightarrow> Q ro (view s) (view (SubBalance a 0 s))"
    and Q_appear: "sdb_ok s \<Longrightarrow> fresh_env (env_of s) \<Longrightarrow> accounts s a = None \<Longrightarrow> Q ro (view s) (view (CreateAccount a s))"
    and Q_set_state: "sdb_ok s \<Longrightarrow> fresh_env (env_of s) \<Longrightarrow> Q False (view s) (view (SetState a k v s))"
    and Q_set_nonce: "sdb_ok s \<Longrightarrow> fresh_env (env_of s) \<Longrightarrow> n \<noteq> 0 \<Longrightarrow> Q False (view s) (view (SetNonce a n s))"
    and Q_begin_create: "sdb_ok s \<Longrightarrow> fresh_env (env_of s) \<Longrightarrow> vacant emptyHash a s \<Longrightarrow>
          Q False (view s) (view (SetNonce a 1 (CreateAccount a s)))"
    and Q_end_create: "sdb_ok t \<Longrightarrow> fresh_env (env_of t) \<Longrightarrow> sdb_ok s \<Longrightarrow> vacant emptyHash a s \<Longrightarrow> Q False (view s) (view t) \<Longrightarrow>
          deployable code \<Longrightarrow> Q False (view s) (view (SetCode a code t))"
    and Q_add_log: "Q False (view s) (view (AddLog l s))"
    and Q_transfer: "sdb_ok s \<Longrightarrow> fresh_env (env_of s) \<Longrightarrow> Q False (view s) (view (Transfer a b x s))"
begin

lemma good_and_trans: "good_and Q ro s s' \<Longrightarrow> good_and Q ro s' s'' \<Longrightarrow> good_and Q ro s s''"
  unfolding good_and_def using good_step_trans[of s s' s''] Q_trans ok_fresh_extends[of s s'] by metis

lemma good_and_cache: "(sdb_wf s \<Longrightarrow> same s s') \<Longrightarrow> good_and Q ro s s'"
  using good_cache[of s s'] Q_refl by (auto simp: good_and_def sdb_ok_def same_def)

lemma good_and_revert:
  assumes "Snapshot s = (i, s1)" "good_and Q ro s1 s2" "RevertToSnapshot i s2 = Some s3"
  shows "good_and Q ro s s3"
proof (rule good_andI)
  have g: "good_step s1 s2" using assms(2) by (simp add: good_and_def)
  then show "good_step s s3" by (rule good_revert[OF assms(1) _ assms(3)])
  assume "sdb_ok s"
  then show "Q ro (view s) (view s3)" using attempt_accounts[OF _ assms(1) g] assms(3) Q_refl by fastforce
qed

lemma good_and_appear:
  assumes "\<not> fst (Exist a s)"
  shows "good_and Q ro s (CreateAccount a (snd (Exist a s)))"
proof -
  let ?t = "snd (Exist a s)"
  have t: "same s ?t" if "sdb_wf s" using that Exist_read by blast
  have "Q ro (view ?t) (view (CreateAccount a ?t))" if "sdb_ok s" "fresh_env (env_of s)"
    using that assms Exist_read[of s a] t
    by (intro Q_appear) (auto simp: sdb_ok_def same_def accounts_def)
  then show ?thesis
    using good_step_trans[OF good_cache good_CreateAccount, of s ?t a] t
    by (auto simp: good_and_def same_def sdb_ok_def)
qed

lemma good_and_end:
  assumes "vacant emptyHash a s" "good_and Q False s t" "deployable code"
  shows "good_and Q False s (SetCode a code t)"
proof (rule good_andI)
  have g: "good_step s t" using assms(2) by (simp add: good_and_def)
  then show "good_step s (SetCode a code t)" by (rule good_step_trans) (rule good_SetCode)
  assume "sdb_ok s" "fresh_env (env_of s)"
  then show "Q False (view s) (view (SetCode a code t))"
    using assms ok_fresh_extends[OF _ g] by (intro Q_end_create) (auto simp: good_and_def)
qed

end

sublocale view_relation \<subseteq> state_relation emptyHash "good_and Q"
proof unfold_locales
  show "\<not> sdb_ok s \<Longrightarrow> good_and Q ro s s'" for ro s s' by (simp add: good_and_def good_step_def)
  show "good_and Q True s s' \<Longrightarrow> good_and Q False s s'" for s s' by (auto simp: good_and_def Q_weaken)
  show "good_and Q ro s (snd (Snapshot s))" for ro s
    using good_Snapshot[of s] Q_refl by (auto simp: good_and_def Snapshot_def)
qed (erule (1) good_and_trans | erule good_and_cache | erule (2) good_and_revert | erule good_and_appear | erule (2) good_and_end
  | (rule good_andI;
     simp add: good_AddAddressToAccessList good_AddSlotToAccessList good_AddPreimage good_AddRefund good_SubRefund
         good_AddBalance good_SubBalance good_Transfer good_SetState good_SetNonce good_AddLog
         good_step_trans[OF good_CreateAccount good_SetNonce]
         Q_warm_address Q_warm_slot Q_preimage Q_add_refund Q_sub_refund Q_touch_add Q_touch_sub Q_set_state Q_set_nonce
         Q_begin_create Q_add_log Q_transfer; fail))+

subsection \<open>What the operations leave alone\<close>

lemma accessList_load [simp]:
  "s_accessList (snd (getDeletedStateObject a s)) = s_accessList s"
  "s_accessList (snd (getStateObject a s)) = s_accessList s"
  by (auto simp: getStateObject_def getDeletedStateObject_def load_account_def load_trie_def setStateObject_def
      setError_def Let_def split: option.splits sum.splits prod.splits)

lemma accessList_create [simp]: "s_accessList (snd (createObject a s)) = s_accessList s"
  by (auto simp: createObject_def setStateObject_def Let_def case_prod_unfold split: option.splits)

lemma accessList_GetOrNew [simp]: "s_accessList (snd (GetOrNewStateObject a s)) = s_accessList s"
  using accessList_load(2)[of a s] accessList_create[of a "snd (getStateObject a s)"]
  by (auto simp: GetOrNewStateObject_def Let_def case_prod_unfold split: option.splits)

lemma accessList_with_object:
  "(\<And>o' t. s_accessList (snd (f o' t)) = s_accessList t) \<Longrightarrow> s_accessList (with_object f a s) = s_accessList s"
  by (simp add: with_object_def case_prod_unfold Let_def setStateObject_def)

lemma accessList_err: "err_only s s' \<Longrightarrow> s_accessList s' = s_accessList s"
  by (auto simp: err_only_def)

lemma accessList_object [simp]:
  "s_accessList (snd (so_AddBalance x o' s)) = s_accessList s" "s_accessList (snd (so_SubBalance x o' s)) = s_accessList s"
  "s_accessList (snd (so_SetNonce n o' s)) = s_accessList s" "s_accessList (snd (so_SetState k v o' s)) = s_accessList s"
  "s_accessList (snd (so_SetCode h code o' s)) = s_accessList s"
  using accessList_err conjunct2[OF conjunct2[OF so_GetState_spec[OF _ refl]], of k o' s]
    conjunct2[OF conjunct2[OF so_Code_spec], of o' s]
  by (auto simp: so_AddBalance_def so_SubBalance_def so_SetBalance_def so_SetNonce_def so_SetState_def so_SetCode_def
      so_touch_def split: prod.splits)

lemma accessList_ops [simp]:
  "s_accessList (AddBalance a x s) = s_accessList s" "s_accessList (SubBalance a x s) = s_accessList s"
  "s_accessList (SetNonce a n s) = s_accessList s" "s_accessList (SetState a k v s) = s_accessList s"
  "s_accessList (SetCode a code s) = s_accessList s" "s_accessList (Transfer a b x s) = s_accessList s"
  by (simp_all add: AddBalance_def SubBalance_def SetNonce_def SetState_def SetCode_def Transfer_def accessList_with_object)

lemma accessList_CreateAccount [simp]: "s_accessList (CreateAccount a s) = s_accessList s"
  by (auto simp: CreateAccount_def setStateObject_def case_prod_unfold Let_def split: option.splits)

lemma accessList_quiet [simp]:
  "s_accessList (AddPreimage h p s) = s_accessList s" "s_accessList (AddRefund g s) = s_accessList s"
  "s_accessList (AddLog l s) = s_accessList s" "SubRefund g s = Some s' \<Longrightarrow> s_accessList s' = s_accessList s"
  by (auto simp: AddPreimage_def AddRefund_def AddLog_def SubRefund_def Let_def split: if_splits)

subsection \<open>The access list grows\<close>

definition warm_kept :: "world \<Rightarrow> world \<Rightarrow> bool" where
  "warm_kept w w' \<longleftrightarrow> (\<forall>a. ContainsAddress (w_accessList w) a \<longrightarrow> ContainsAddress (w_accessList w') a)"

lemma fst_Contains: "fst (Contains al a k) = ContainsAddress al a"
  by (auto simp: Contains_def ContainsAddress_def split: option.splits)

lemma ContainsAddress_AddSlot:
  "al_wf al \<Longrightarrow> ContainsAddress (snd (AddSlot a sl al)) b \<longleftrightarrow> b = a \<or> ContainsAddress al b"
  using arg_cong[OF Contains_AddSlot[of al a sl b undefined], of fst] by (simp add: fst_Contains)

lemma accessList_warm [simp]:
  "s_accessList (AddAddressToAccessList a s) = snd (AddAddress a (s_accessList s))"
  "s_accessList (AddSlotToAccessList a sl s) = snd (AddSlot a sl (s_accessList s))"
  by (auto simp: AddAddressToAccessList_def AddSlotToAccessList_def Let_def split: prod.splits)

interpretation warmth: view_relation h "\<lambda>_. warm_kept" for h
  by unfold_locales
    (auto simp: warm_kept_def ContainsAddress_AddAddress ContainsAddress_AddSlot sdb_ok_def view_ok_def)

lemma warmth_trans: "good_and (\<lambda>_. warm_kept) ro s s' \<Longrightarrow> sdb_ok s \<Longrightarrow> fresh_env (env_of s) \<Longrightarrow>
    AddressInAccessList a s \<Longrightarrow> AddressInAccessList a s'"
  by (simp add: good_and_def warm_kept_def AddressInAccessList_def)

subsection \<open>Accounts\<close>

definition accounts_of :: "world \<Rightarrow> address \<Rightarrow> Account option" where
  "accounts_of w a = map_option acct_abs (live_acct w a)"

lemma accounts_view: "accounts_of (view s) = accounts s"
  by (simp add: accounts_of_def accounts_def fun_eq_iff)

lemma accounts_quiet:
  "accounts (AddAddressToAccessList a s) = accounts s" "accounts (AddSlotToAccessList a k s) = accounts s"
  "accounts (AddPreimage h p s) = accounts s" "accounts (AddRefund g s) = accounts s"
  "accounts (AddLog l s) = accounts s" "SubRefund g s = Some s' \<Longrightarrow> accounts s' = accounts s"
  by (intro ext accounts_other acct_view_cong[THEN fun_cong];
      auto simp: AddAddressToAccessList_def AddSlotToAccessList_def AddPreimage_def AddRefund_def AddLog_def
        SubRefund_def case_prod_unfold Let_def split: if_splits)+

lemma accounts_Transfer:
  assumes "sdb_ok s" "fresh_env (env_of s)"
  shows "accounts (Transfer a b x s) =
    spec_op (s_hasher s) (OpAddBalance b x) (spec_op (s_hasher s) (OpSubBalance a x) (accounts s))"
proof -
  have e: "sdb_ok (SubBalance a x s)" "env_of (SubBalance a x s) = env_of s"
    using ok_fresh_extends[OF assms(1) good_SubBalance] by auto
  then have "s_hasher (SubBalance a x s) = s_hasher s" by (metis env_of_sel(3))
  then show ?thesis using op_accounts(1)[OF e(1)] op_accounts(2)[OF assms] e(2) assms(2)
    by (simp add: Transfer_def del: spec_op.simps)
qed

lemma accounts_begin_create:
  assumes "sdb_ok s" "fresh_env (env_of s)"
  shows "accounts (SetNonce a n (CreateAccount a s)) =
    spec_op (s_hasher s) (OpSetNonce a n) (spec_op (s_hasher s) (OpCreateAccount a) (accounts s))"
proof -
  have e: "sdb_ok (CreateAccount a s)" "env_of (CreateAccount a s) = env_of s"
    using ok_fresh_extends[OF assms(1) good_CreateAccount] by auto
  then have "s_hasher (CreateAccount a s) = s_hasher s" by (metis env_of_sel(3))
  then show ?thesis using op_accounts(4)[OF e(1)] CreateAccount_accounts[OF assms] e(2) assms(2)
    by (simp del: spec_op.simps)
qed

subsection \<open>The sum of all balances\<close>

definition balance :: "(address \<Rightarrow> Account option) \<Rightarrow> address \<Rightarrow> int" where
  "balance M a = (case M a of None \<Rightarrow> 0 | Some v \<Rightarrow> ac_Balance v)"

definition total_supply :: "(address \<Rightarrow> Account option) \<Rightarrow> int" where
  "total_supply M = (\<Sum>a\<in>UNIV. balance M a)"

lemma balance_or_new: "ac_Balance (account_or_new h (M a)) = balance M a"
  by (simp add: balance_def account_or_new_def new_Account_def split: option.splits)

lemma balance_spec:
  "balance (spec_op h (OpAddBalance a x) M) = (balance M)(a := balance M a + x)"
  "balance (spec_op h (OpSubBalance a x) M) = (balance M)(a := balance M a - x)"
  "balance (spec_op h (OpSetNonce a n) M) = balance M" "balance (spec_op h (OpSetCode a code) M) = balance M"
  "balance (spec_op h (OpSetState a k v) M) = balance M" "balance (spec_op h (OpCreateAccount a) M) = balance M"
  by (auto simp: Let_def balance_or_new fun_eq_iff) (auto simp: balance_def balance_or_new[unfolded balance_def])

lemma sum_upd: "(\<Sum>b\<in>UNIV. (f(a := f a + x)) b) = (\<Sum>b\<in>UNIV. f b) + (x :: int)" for a :: address
  by (subst (1 2) sum.remove[of UNIV a]) (auto intro!: sum.cong)

lemma supply_spec:
  "total_supply (spec_op h (OpAddBalance a x) M) = total_supply M + x" "total_supply (spec_op h (OpSubBalance a x) M) = total_supply M - x"
  "total_supply (spec_op h (OpSetNonce a n) M) = total_supply M" "total_supply (spec_op h (OpSetCode a code) M) = total_supply M"
  "total_supply (spec_op h (OpSetState a k v) M) = total_supply M" "total_supply (spec_op h (OpCreateAccount a) M) = total_supply M"
  unfolding total_supply_def balance_spec using sum_upd[of "balance M" a x] sum_upd[of "balance M" a "- x"] by simp_all

definition supply_kept :: "world \<Rightarrow> world \<Rightarrow> bool" where
  "supply_kept w w' \<longleftrightarrow> total_supply (accounts_of w') = total_supply (accounts_of w)"

interpretation conserved: view_relation h "\<lambda>_. supply_kept" for h
  by unfold_locales
    (auto simp: supply_kept_def accounts_view accounts_quiet accounts_Transfer accounts_begin_create op_accounts
      CreateAccount_accounts supply_spec simp del: spec_op.simps)

subsection \<open>The code of contracts\<close>

text \<open>An address that \<open>create\<close> would not take, because it has a nonce or code.\<close>

definition occupied :: "hash \<Rightarrow> Account \<Rightarrow> bool" where
  "occupied h v \<longleftrightarrow> ac_Nonce v \<noteq> 0 \<or> BytesToHash (ac_CodeHash v) \<noteq> 0 \<and> BytesToHash (ac_CodeHash v) \<noteq> h"

definition code_kept :: "hash \<Rightarrow> (address \<Rightarrow> Account option) \<Rightarrow> (address \<Rightarrow> Account option) \<Rightarrow> bool" where
  "code_kept h M M' \<longleftrightarrow>
     (\<forall>a v. M a = Some v \<longrightarrow> occupied h v \<longrightarrow>
        (\<exists>v'. M' a = Some v' \<and> occupied h v' \<and> ac_Code v' = ac_Code v \<and> ac_CodeHash v' = ac_CodeHash v))"

text \<open>Code that was not there before is code that may be deployed.\<close>

definition code_checked :: "(address \<Rightarrow> Account option) \<Rightarrow> (address \<Rightarrow> Account option) \<Rightarrow> bool" where
  "code_checked M M' \<longleftrightarrow>
     (\<forall>a v'. M' a = Some v' \<longrightarrow>
        deployable (ac_Code v') \<or> (\<exists>v. M a = Some v \<and> ac_Code v = ac_Code v'))"

lemma vacant_not_occupied:
  assumes "sdb_wf s" "vacant h a s" "accounts s a = Some v"
  shows "\<not> occupied h v"
  using assms GetNonce_read[OF assms(1), of a] GetCodeHash_read[OF assms(1), of a]
  by (auto simp: vacant_def occupied_def accounts_def split: option.splits)

lemma deployable_Nil: "deployable []"
  by (simp add: deployable_def)

lemma ac_Code_or_new: "ac_Code (account_or_new h x) = (case x of None \<Rightarrow> [] | Some v \<Rightarrow> ac_Code v)"
  by (simp add: account_or_new_def new_Account_def split: option.splits)

lemma code_kept_refl: "code_kept h M M"
  by (auto simp: code_kept_def)

lemma code_kept_trans: "code_kept h M M' \<Longrightarrow> code_kept h M' M'' \<Longrightarrow> code_kept h M M''"
  unfolding code_kept_def by fastforce

lemma code_kept_upd:
  "code_kept h M M' \<Longrightarrow>
   (\<And>v. M' a = Some v \<Longrightarrow> occupied h v \<Longrightarrow> occupied h v' \<and> ac_Code v' = ac_Code v \<and> ac_CodeHash v' = ac_CodeHash v) \<Longrightarrow>
   code_kept h M (M'(a \<mapsto> v'))"
  unfolding code_kept_def by fastforce

lemma code_kept_vacant:
  "code_kept h M M' \<Longrightarrow> (\<And>v. M a = Some v \<Longrightarrow> \<not> occupied h v) \<Longrightarrow> code_kept h M (M'(a \<mapsto> v'))"
  unfolding code_kept_def by fastforce

lemma code_kept_spec:
  "code_kept h M (spec_op k (OpAddBalance a x) M)" "code_kept h M (spec_op k (OpSubBalance a x) M)"
  "n \<noteq> 0 \<Longrightarrow> code_kept h M (spec_op k (OpSetNonce a n) M)" "code_kept h M (spec_op k (OpSetState a key v) M)"
  "M a = None \<Longrightarrow> code_kept h M (spec_op k (OpCreateAccount a) M)"
  by (simp_all add: Let_def)
    (rule code_kept_upd, rule code_kept_refl, simp add: occupied_def account_or_new_def)+

lemma code_checked_upd:
  "code_checked M M' \<Longrightarrow> deployable (ac_Code v') \<or> (\<exists>v. M' a = Some v \<and> ac_Code v = ac_Code v') \<Longrightarrow>
   code_checked M (M'(a \<mapsto> v'))"
  unfolding code_checked_def by (auto simp del: split_paired_All) (metis+)

lemma code_checked_refl: "code_checked M M"
  by (auto simp: code_checked_def)

lemma code_checked_trans: "code_checked M M' \<Longrightarrow> code_checked M' M'' \<Longrightarrow> code_checked M M''"
  unfolding code_checked_def by fastforce

lemma code_checked_spec:
  "code_checked M (spec_op k (OpAddBalance a x) M)" "code_checked M (spec_op k (OpSubBalance a x) M)"
  "code_checked M (spec_op k (OpSetNonce a n) M)" "code_checked M (spec_op k (OpSetState a key v) M)"
  "code_checked M (spec_op k (OpCreateAccount a) M)"
  by (simp_all add: Let_def)
    (rule code_checked_upd, rule code_checked_refl,
      simp add: ac_Code_or_new deployable_Nil new_Account_def split: option.split)+

definition code_rel :: "hash \<Rightarrow> world \<Rightarrow> world \<Rightarrow> bool" where
  "code_rel h w w' \<longleftrightarrow>
     code_kept h (accounts_of w) (accounts_of w') \<and> code_checked (accounts_of w) (accounts_of w')"

interpretation immutable: view_relation h "\<lambda>_. code_rel h" for h
proof unfold_locales
  show "code_rel h (view s) (view (SetNonce a 1 (CreateAccount a s)))"
    if "sdb_ok s" "fresh_env (env_of s)" "vacant h a s" for s a
  proof -
    have "\<not> occupied h v" if "accounts s a = Some v" for v
      using vacant_not_occupied \<open>sdb_ok s\<close> \<open>vacant h a s\<close> that by (auto simp: sdb_ok_def)
    then have "code_kept h (accounts s) (accounts (SetNonce a 1 (CreateAccount a s)))"
      unfolding accounts_begin_create[OF that(1,2)] spec_op.simps fun_upd_upd
      by (intro code_kept_vacant code_kept_refl)
    then show ?thesis
      unfolding code_rel_def accounts_view accounts_begin_create[OF that(1,2)]
      using code_checked_trans[OF code_checked_spec(5) code_checked_spec(3)] by blast
  qed
  show "code_rel h (view s) (view (SetCode a code t))"
    if "sdb_ok t" "fresh_env (env_of t)" "sdb_ok s" "vacant h a s" "code_rel h (view s) (view t)" "deployable code"
    for s t a code
  proof -
    have "\<not> occupied h v" if "accounts s a = Some v" for v
      using vacant_not_occupied \<open>sdb_ok s\<close> \<open>vacant h a s\<close> that by (auto simp: sdb_ok_def)
    then show ?thesis using that(5,6)
      unfolding code_rel_def accounts_view op_accounts(5)[OF that(1,2)] spec_op.simps
      by (auto intro!: code_kept_vacant code_checked_upd)
  qed
qed (auto simp: code_rel_def accounts_view accounts_quiet accounts_Transfer op_accounts CreateAccount_accounts
    code_kept_refl code_checked_refl code_kept_spec code_checked_spec simp del: spec_op.simps
    intro: code_kept_trans code_checked_trans code_kept_trans[OF code_kept_spec(2) code_kept_spec(1)]
      code_checked_trans[OF code_checked_spec(2) code_checked_spec(1)])

end
