(* ===== verification/VMFine.thy ===== *)
theory VMFine
  imports VMInvariants
begin

text \<open>
  Tools for showing that the virtual machine does not panic: a predicate on outcomes that composes
  along the calls, the invariants of the memory and of the machine, and what they give for the
  accesses the instructions make.

  Two panics are not excluded here. The refund counter below zero (\<open>PanicRefund\<close>) depends on the history
  of the storage slots, and an index outside of a cached bitmap (\<open>PanicBitmap\<close>) on the code hash being
  free of collisions.
\<close>

subsection \<open>Outcomes\<close>

definition fine :: "('a \<Rightarrow> bool) \<Rightarrow> 'a outcome \<Rightarrow> bool" where
  "fine P x = (case x of Ok y \<Rightarrow> P y | Panic p \<Rightarrow> p = PanicRefund \<or> p = PanicBitmap | NoFuel \<Rightarrow> False)"

lemma fine_Ok [simp]: "fine P (Ok y) = P y"
  by (simp add: fine_def)

lemma fine_Panic [simp]: "fine P (Panic p) \<longleftrightarrow> p = PanicRefund \<or> p = PanicBitmap"
  by (simp add: fine_def)

lemma fine_NoFuel [simp]: "\<not> fine P NoFuel"
  by (simp add: fine_def)

lemma fine_bind: "fine Q x \<Longrightarrow> (\<And>y. x = Ok y \<Longrightarrow> Q y \<Longrightarrow> fine P (f y)) \<Longrightarrow> fine P (bind_outcome x f)"
  by (cases x) auto

lemma fine_mono: "fine Q x \<Longrightarrow> (\<And>y. x = Ok y \<Longrightarrow> Q y \<Longrightarrow> P y) \<Longrightarrow> fine P x"
  by (cases x) auto

lemma fine_of_option: "fine P (of_option p x) \<longleftrightarrow> (case x of None \<Rightarrow> p = PanicRefund \<or> p = PanicBitmap | Some y \<Rightarrow> P y)"
  by (simp add: of_option_def split: option.splits)

lemma fine_Some: "x = Some y \<Longrightarrow> P y \<Longrightarrow> fine P (of_option p x)"
  by (simp add: of_option_def)

lemma fine_with_back: "n < length st \<Longrightarrow> fine P (f (st ! n)) \<Longrightarrow> fine P (with_back n st f)"
  by (simp add: with_back_def stack_Back_def of_option_def)

lemma with_back_nth: "n < length st \<Longrightarrow> with_back n st f = f (st ! n)"
  by (simp add: with_back_def stack_Back_def of_option_def)

subsection \<open>Words and numbers\<close>

lemma u64_of_nat: "n < 2 ^ 64 \<Longrightarrow> unat (word_of_nat n :: u64) = n"
  by (simp add: unat_of_nat)

lemma u64_add: "unat x + unat y < 2 ^ 64 \<Longrightarrow> unat (x + y) = unat x + unat y" for x y :: u64
  by (simp add: unat_word_ariths)

lemma u64_add_wrap: "2 ^ 64 \<le> unat x + unat y \<Longrightarrow> unat (x + y) = unat x + unat y - 2 ^ 64" for x y :: u64
  using unat_u64_less[of x] unat_u64_less[of y] by (simp add: unat_word_ariths le_mod_geq)

lemma u64_sub: "unat y \<le> unat x \<Longrightarrow> unat (x - y) = unat x - unat y" for x y :: u64
  by (simp add: unat_sub word_le_nat_alt)

lemma u64_sub_wrap: "unat x < unat y \<Longrightarrow> unat (x - y) = 2 ^ 64 + unat x - unat y" for x y :: u64
  using unat_u64_less[of y] by (simp add: unat_sub_if_size word_size word_le_nat_alt)

lemma u64_mul: "unat x * unat y < 2 ^ 64 \<Longrightarrow> unat (x * y) = unat x * unat y" for x y :: u64
  by (simp add: unat_word_ariths)

lemmas u64_less = word_less_nat_alt word_le_nat_alt

lemma unat_eq_zero: "(x = 0) = (unat x = 0)" for x :: u64
  by (simp add: unat_eq_0)

lemma Max_u64: "unat MaxUint64 = 2 ^ 64 - 1"
  by (simp add: MaxUint64_def unsigned_minus_1_eq_mask mask_eq_exp_minus_1)

lemma add_gas_Inr: "add_gas x y = Inr z \<longleftrightarrow> unat x + unat y < 2 ^ 64 \<and> z = x + y"
  by (auto simp: add_gas_def SafeAdd_def div_eq_0_iff)

lemma mul_gas_Inr: "mul_gas x y = Inr z \<longleftrightarrow> unat x * unat y < 2 ^ 64 \<and> z = x * y"
  by (auto simp: mul_gas_def SafeMul_def div_eq_0_iff)

subsection \<open>The price of memory\<close>

text \<open>What memory of \<open>w\<close> words costs in total.\<close>

definition memory_fee :: "nat \<Rightarrow> nat" where
  "memory_fee w = 3 * w + w * w div 512"

definition max_memory :: nat where
  "max_memory = 0x1FFFFFFFE0"

definition mem_ok :: "Memory \<Rightarrow> bool" where
  "mem_ok mem \<longleftrightarrow>
     32 dvd length (store mem) \<and> length (store mem) \<le> max_memory \<and>
     unat (lastGasCost mem) = memory_fee (length (store mem) div 32)"

lemma mem_ok_New: "mem_ok NewMemory"
  by (simp add: mem_ok_def NewMemory_def memory_fee_def)

lemma memory_fee_mono: "v \<le> w \<Longrightarrow> memory_fee v \<le> memory_fee w"
  unfolding memory_fee_def by (intro add_mono mult_le_mono div_le_mono) auto

lemma memory_fee_bound: "w \<le> max_memory div 32 \<Longrightarrow> memory_fee w < 2 ^ 56"
proof -
  assume "w \<le> max_memory div 32"
  then have "memory_fee w \<le> memory_fee (max_memory div 32)" by (rule memory_fee_mono)
  also have "\<dots> < 2 ^ 56" by (simp add: memory_fee_def max_memory_def)
  finally show ?thesis .
qed

lemma unat_mem_len: "mem_ok mem \<Longrightarrow> unat (mem_len mem) = length (store mem)"
  by (simp add: mem_ok_def mem_len_def max_memory_def u64_of_nat)

lemma toWordSize_unat: "unat (toWordSize sz) = (unat sz + 31) div 32"
proof (cases "sz > MaxUint64 - 31")
  case True
  have m: "unat (MaxUint64 - 31) = 2 ^ 64 - 32" by (simp add: u64_sub Max_u64)
  have "unat (MaxUint64 div 32) = 2 ^ 59 - 1" by (simp add: unat_div Max_u64)
  then have "unat (MaxUint64 div 32 + 1) = 2 ^ 59" by (subst u64_add) simp_all
  moreover have "2 ^ 64 - 32 < unat sz" using True m by (simp add: u64_less)
  then have "(unat sz + 31) div 32 = 2 ^ 59" using unat_u64_less[of sz] by simp
  ultimately show ?thesis using True by (simp add: toWordSize_def)
next
  case False
  have m: "unat (MaxUint64 - 31) = 2 ^ 64 - 32" by (simp add: u64_sub Max_u64)
  then have "unat sz + unat (31 :: u64) < 2 ^ 64" using False by (simp add: u64_less)
  then show ?thesis using False by (simp add: toWordSize_def unat_div u64_add)
qed

definition words_after :: "Memory \<Rightarrow> u64 \<Rightarrow> nat" where
  "words_after mem n = max (length (store mem) div 32) ((unat n + 31) div 32)"

lemma memoryGasCost_Inr:
  assumes ok: "mem_ok mem" and r: "memoryGasCost mem n = (Inr fee, mem1)"
  shows "unat n \<le> max_memory \<and> store mem1 = store mem \<and>
    unat fee = memory_fee (words_after mem n) - memory_fee (length (store mem) div 32) \<and>
    unat (lastGasCost mem1) = memory_fee (words_after mem n)"
proof (cases "n = 0")
  case True
  then show ?thesis using r ok by (auto simp: memoryGasCost_def words_after_def mem_ok_def)
next
  case False
  define w where "w = toWordSize n"
  have small: "unat n \<le> max_memory" using False r
    by (auto simp: memoryGasCost_def max_memory_def u64_less split: if_splits)
  have w: "unat w = (unat n + 31) div 32" by (simp add: w_def toWordSize_unat)
  then have wb: "unat w \<le> max_memory div 32" using small by (simp add: max_memory_def)
  have len: "unat (mem_len mem) = length (store mem)" by (rule unat_mem_len[OF ok])
  have w32: "unat (w * 32) = unat w * 32" using wb by (subst u64_mul) (simp_all add: max_memory_def)
  have fee: "unat (w * MemoryGas + w * w div QuadCoeffDiv) = memory_fee (unat w)"
  proof -
    have sq: "unat w * unat w \<le> 4294967295 * 4294967295" using wb by (intro mult_le_mono) (simp_all add: max_memory_def)
    then have "unat (w * w) = unat w * unat w" by (intro u64_mul) simp
    moreover have "unat (w * 3) = unat w * 3" using wb by (subst u64_mul) (simp_all add: max_memory_def)
    moreover have "unat w * 3 + unat w * unat w div 512 < 2 ^ 64" using sq wb by (simp add: max_memory_def)
    ultimately show ?thesis by (subst u64_add) (simp_all add: unat_div memory_fee_def)
  qed
  show ?thesis
  proof (cases "length (store mem) < unat w * 32")
    case True
    have mono: "memory_fee (length (store mem) div 32) \<le> memory_fee (unat w)"
      using True by (intro memory_fee_mono) simp
    have wa: "words_after mem n = unat w" using True by (simp add: words_after_def w[symmetric])
    show ?thesis using r False small ok True fee mono w32 len
      by (auto simp: memoryGasCost_def w_def[symmetric] Let_def u64_less wa u64_sub mem_ok_def max_memory_def split: if_splits)
  next
    case le: False
    have "unat w \<le> length (store mem) div 32" using le by simp
    then have wa: "words_after mem n = length (store mem) div 32" by (simp add: words_after_def w[symmetric])
    have "fee = 0 \<and> mem1 = mem" using r False small le w32 len
      by (auto simp: memoryGasCost_def w_def[symmetric] Let_def u64_less max_memory_def split: if_splits)
    then show ?thesis using ok small by (simp add: wa mem_ok_def)
  qed
qed

lemma memoryGasCost_store: "memoryGasCost mem n = (r, mem1) \<Longrightarrow> store mem1 = store mem"
  by (auto simp: memoryGasCost_def Let_def split: if_splits)

lemma memoryGasCost_bound:
  assumes "mem_ok mem" "memoryGasCost mem n = (Inr fee, mem1)"
  shows "unat fee < 2 ^ 56"
proof -
  have "words_after mem n \<le> max_memory div 32"
    using memoryGasCost_Inr[OF assms] assms(1) by (auto simp: words_after_def mem_ok_def max_memory_def)
  then show ?thesis using memoryGasCost_Inr[OF assms] memory_fee_bound[of "words_after mem n"] by simp
qed

text \<open>After paying, the memory is grown, to a whole number of words.\<close>

lemma mem_ok_Resize:
  assumes ok: "mem_ok mem" and r: "memoryGasCost mem n = (Inr fee, mem1)" and n: "32 dvd unat n"
  shows "mem_ok (if n > 0 then mem_Resize n mem1 else mem1) \<and>
    unat n \<le> length (store (if n > 0 then mem_Resize n mem1 else mem1))"
proof -
  note m = memoryGasCost_Inr[OF ok r]
  have len: "unat (mem_len mem1) = length (store mem1)" using m ok by (simp add: mem_ok_def mem_len_def max_memory_def u64_of_nat)
  have w: "words_after mem n = max (length (store mem) div 32) (unat n div 32)"
    using n by (auto simp: words_after_def elim!: dvdE)
  show ?thesis
  proof (cases "length (store mem) < unat n")
    case True
    then have "unat (n - mem_len mem1) = unat n - length (store mem1)" using m by (simp add: u64_sub len)
    then show ?thesis using True m ok n w
      by (auto simp: mem_Resize_def mem_ok_def u64_less len max_def div_le_mono)
  next
    case False
    then have "words_after mem n = length (store mem) div 32" unfolding w by (simp add: div_le_mono)
    then show ?thesis using False m ok n by (simp add: mem_Resize_def mem_ok_def u64_less len)
  qed
qed

subsection \<open>The memory an instruction asks for, and what it accesses\<close>

text \<open>Memory of \<open>n\<close> bytes holds the range of \<open>l\<close> bytes at \<open>off\<close>.\<close>

definition covers :: "nat \<Rightarrow> u256 \<Rightarrow> u256 \<Rightarrow> bool" where
  "covers n off l \<longleftrightarrow> unat l < 2 ^ 64 \<and> (l = 0 \<or> unat off + unat l \<le> n)"

lemma covers_mono: "covers n off l \<Longrightarrow> n \<le> k \<Longrightarrow> covers k off l"
  by (auto simp: covers_def)

definition same_size :: "Memory \<Rightarrow> Memory \<Rightarrow> bool" where
  "same_size mem mem' \<longleftrightarrow> length (store mem') = length (store mem) \<and> lastGasCost mem' = lastGasCost mem"

lemma same_size_refl [simp]: "same_size mem mem"
  by (simp add: same_size_def)

lemma mem_ok_same_size: "mem_ok mem \<Longrightarrow> same_size mem mem' \<Longrightarrow> mem_ok mem'"
  by (simp add: mem_ok_def same_size_def)

lemma length_copy_at: "i + min n (length src) \<le> length dst \<Longrightarrow> length (copy_at i n src dst) = length dst"
  by (simp add: copy_at_def)

lemma sint_u64: "unat x < 2 ^ 63 \<Longrightarrow> sint x = int (unat x)" for x :: u64
proof -
  assume a: "unat x < 2 ^ 63"
  have u: "uint x = int (unat x)" by simp
  have "int (unat x) < int (2 ^ 63)" using a by (simp only: of_nat_less_iff)
  then have b: "uint x < 2 ^ 63" by (simp only: u of_nat_power of_nat_numeral)
  have "sint x = sint (word_of_int (uint x) :: u64)" by simp
  also have "\<dots> = (uint x + 2 ^ 63) mod 2 ^ 64 - 2 ^ 63" by (subst int_word_sint) simp
  also have "\<dots> = uint x" using b by (subst mod_pos_pos_trivial) simp_all
  finally show ?thesis using u by (simp only:)
qed

lemma ucast_u64_u256: "ucast (ucast (l :: u64) :: u256) = l"
  by transfer simp

lemma mem_GetPtr_nat:
  "off + n \<le> length (store mem) \<Longrightarrow> 0 < n \<Longrightarrow>
   mem_GetPtr (int off) (int n) mem = Some (take n (drop off (store mem)))"
  by (simp add: mem_GetPtr_def mem_slice_def)

context uint256
begin

lemma u64_zero: "u_Uint64 U 0 = 0"
  by (simp add: Uint64)

lemma Uint64_eq_0: "unat l < 2 ^ 64 \<Longrightarrow> u_Uint64 U l = 0 \<longleftrightarrow> l = 0"
proof -
  assume "unat l < 2 ^ 64"
  then have "unat (u_Uint64 U l) = unat l" by (rule ucast_u64_exact)
  then show ?thesis by (simp only: word_unat_eq_iff unsigned_0)
qed

lemma calcMemSize64_covers:
  assumes "calcMemSize64 U off l = (n, False)"
  shows "covers (unat n) off l"
proof (cases "l = 0")
  case False
  have l: "unat l < 2 ^ 64" using assms by (auto simp: calcMemSize64_def IsUint64 split: if_splits)
  then have "u_Uint64 U l \<noteq> 0" using False by (simp add: Uint64_eq_0)
  then have o: "unat off < 2 ^ 64" "n = ucast off + u_Uint64 U l" "\<not> n < ucast off"
    using assms l by (auto simp: calcMemSize64_def calcMemSize64WithUint_def Uint64WithOverflow Let_def IsUint64 split: if_splits)
  have u: "unat (ucast off :: u64) = unat off" using ucast_u64_exact[OF o(1)] by (simp add: Uint64)
  have "unat off + unat l < 2 ^ 64"
  proof (rule ccontr)
    assume big: "\<not> unat off + unat l < 2 ^ 64"
    then have "unat n = unat off + unat l - 2 ^ 64" using u ucast_u64_exact[OF l] by (subst o(2), subst u64_add_wrap) auto
    moreover have "unat off \<le> unat n" using o(3) u by (simp add: u64_less)
    ultimately show False using l big by linarith
  qed
  then show ?thesis using o u l ucast_u64_exact[OF l] by (simp add: covers_def u64_add)
qed (simp add: covers_def)

lemma calcMemSize64WithUint_covers:
  assumes "calcMemSize64WithUint U off l = (n, False)"
  shows "covers (unat n) off (ucast l)"
proof -
  have "unat l < 2 ^ 256" using unat_u64_less[of l] by (rule less_trans) simp
  then have l: "unat (ucast l :: u256) = unat l" by (simp add: unsigned_ucast_eq take_bit_nat_eq_self)
  then have "unat (ucast l :: u256) < 2 ^ 64" using unat_u64_less[of l] by simp
  moreover note ucast_u64_u256[of l]
  ultimately have "calcMemSize64 U off (ucast l) = (n, False)"
    using assms by (simp add: calcMemSize64_def IsUint64 Uint64)
  then show ?thesis by (rule calcMemSize64_covers)
qed

lemma covers_u64:
  assumes "covers n off l" "l \<noteq> 0" "n \<le> max_memory"
  shows "unat (u_Uint64 U off) = unat off" "unat (u_Uint64 U l) = unat l"
    "unat off + unat l \<le> n" "sint (u_Uint64 U off) = int (unat off)" "sint (u_Uint64 U l) = int (unat l)"
proof -
  have c: "unat off + unat l \<le> n" "unat l < 2 ^ 64" using assms by (auto simp: covers_def)
  then have o: "unat off < 2 ^ 63" "unat l < 2 ^ 63" using assms(3) by (auto simp: max_memory_def)
  show e: "unat (u_Uint64 U off) = unat off" "unat (u_Uint64 U l) = unat l"
    using o by (auto intro!: ucast_u64_exact)
  show "unat off + unat l \<le> n" by (rule c)
  show "sint (u_Uint64 U off) = int (unat off)" "sint (u_Uint64 U l) = int (unat l)"
    using o e by (simp_all add: sint_u64)
qed

lemma mem_GetPtr_covers:
  assumes "covers (length (store mem)) off l" "mem_ok mem"
  shows "\<exists>b. mem_GetPtr (sint (u_Uint64 U off)) (sint (u_Uint64 U l)) mem = Some b \<and> length b \<le> max_memory"
proof (cases "l = 0")
  case False
  have m: "length (store mem) \<le> max_memory" using assms(2) by (simp add: mem_ok_def)
  note c = covers_u64[OF assms(1) False m]
  have "0 < unat l" using False by (simp add: unat_gt_0)
  then show ?thesis using m unfolding c(4,5) by (subst mem_GetPtr_nat[OF c(3)]) auto
qed (simp add: u64_zero mem_GetPtr_def)

lemma get_ptr_fine:
  assumes "covers (length (store mem)) off l" "mem_ok mem"
  shows "fine (\<lambda>b. length b \<le> max_memory) (get_ptr U off l mem)" "fine (\<lambda>b. length b \<le> max_memory) (get_copy U off l mem)"
  using mem_GetPtr_covers[OF assms] by (auto simp: get_ptr_def get_copy_def mem_GetCopy_def mem_GetPtr_def of_option_def)

lemma mem_Set_covers:
  assumes "covers (length (store mem)) off l" "mem_ok mem"
  shows "\<exists>mem'. mem_Set (u_Uint64 U off) (u_Uint64 U l) val mem = Some mem' \<and> same_size mem mem'"
proof (cases "l = 0")
  case False
  have m: "length (store mem) \<le> max_memory" using assms(2) by (simp add: mem_ok_def)
  note c = covers_u64[OF assms(1) False m]
  have s: "unat (u_Uint64 U off + u_Uint64 U l) = unat off + unat l" using c m by (subst u64_add) (simp_all add: max_memory_def)
  have "length (copy_at (unat off) (unat l) val (store mem)) = length (store mem)"
    using c(3) by (intro length_copy_at) simp
  then show ?thesis using c s unat_mem_len[OF assms(2)] False
    by (auto simp: mem_Set_def u64_less same_size_def unat_gt_0)
qed (simp add: u64_zero mem_Set_def)

lemma mem_Set32_covers:
  assumes "covers (length (store mem)) off 32" "mem_ok mem"
  shows "\<exists>mem'. mem_Set32 U (u_Uint64 U off) val mem = Some mem' \<and> same_size mem mem'"
proof -
  have m: "length (store mem) \<le> max_memory" using assms(2) by (simp add: mem_ok_def)
  note c = covers_u64[OF assms(1) _ m]
  have o: "unat (u_Uint64 U off) = unat off" "unat off + 32 \<le> length (store mem)" using c by auto
  then have s: "unat (u_Uint64 U off + 32) = unat off + 32" using m by (subst u64_add) (simp_all add: max_memory_def)
  have "length (copy_at (unat off) (length (store mem) - unat off) (hash_bytes (u_Bytes32 U val)) (store mem)) = length (store mem)"
    using o(2) by (intro length_copy_at) simp
  then show ?thesis using o s unat_mem_len[OF assms(2)]
    by (auto simp: mem_Set32_def u64_less same_size_def)
qed

end

subsection \<open>The invariant of the state\<close>

definition state_inv :: "statedb \<Rightarrow> bool" where
  "state_inv s \<longleftrightarrow>
     sdb_ok s \<and> fresh_env (env_of s) \<and> (\<forall>a v. accounts s a = Some v \<longrightarrow> length (ac_Code v) < 2 ^ 63)"

definition lasting :: "hash \<Rightarrow> world \<Rightarrow> world \<Rightarrow> bool" where
  "lasting h w w' \<longleftrightarrow> warm_kept w w' \<and> code_rel h w w'"

interpretation lasting_view: view_relation h "\<lambda>_. lasting h" for h
proof unfold_locales
  show "lasting h w w' \<Longrightarrow> lasting h w' w'' \<Longrightarrow> lasting h w w''" for w w' w''
    unfolding lasting_def by (meson warmth.Q_trans immutable.Q_trans)
qed (simp_all add: lasting_def warmth.Q_refl immutable.Q_refl warmth.Q_warm_address immutable.Q_warm_address
    warmth.Q_warm_slot immutable.Q_warm_slot warmth.Q_preimage immutable.Q_preimage warmth.Q_add_refund
    immutable.Q_add_refund warmth.Q_sub_refund immutable.Q_sub_refund warmth.Q_touch_add immutable.Q_touch_add
    warmth.Q_touch_sub immutable.Q_touch_sub warmth.Q_appear immutable.Q_appear warmth.Q_set_state immutable.Q_set_state
    warmth.Q_set_nonce immutable.Q_set_nonce warmth.Q_begin_create immutable.Q_begin_create warmth.Q_end_create
    immutable.Q_end_create warmth.Q_add_log immutable.Q_add_log warmth.Q_transfer immutable.Q_transfer)

text \<open>The relation on states that every execution respects, and what it keeps.\<close>

abbreviation lasts :: "hash \<Rightarrow> bool \<Rightarrow> statedb \<Rightarrow> statedb \<Rightarrow> bool" where
  "lasts h \<equiv> good_and (\<lambda>_. lasting h)"

lemma lasts_inv:
  assumes "lasts h ro s s'" "state_inv s"
  shows "state_inv s'" "AddressInAccessList a s \<Longrightarrow> AddressInAccessList a s'"
proof -
  have l: "lasting h (view s) (view s')" "sdb_ok s'" "env_of s' = env_of s"
    using assms ok_fresh_extends[of s s'] by (auto simp: good_and_def state_inv_def)
  have "length (ac_Code v) < 2 ^ 63" if "accounts s' a = Some v" for a v
  proof -
    have "deployable (ac_Code v) \<or> (\<exists>w. accounts s a = Some w \<and> ac_Code w = ac_Code v)"
      using l(1) that by (auto simp: lasting_def code_rel_def code_checked_def accounts_view)
    then show ?thesis
    proof
      assume "\<exists>w. accounts s a = Some w \<and> ac_Code w = ac_Code v"
      then show ?thesis using assms(2) unfolding state_inv_def by metis
    qed (simp add: deployable_def)
  qed
  then show "state_inv s'" using l assms(2) by (auto simp: state_inv_def)
  show "AddressInAccessList a s \<Longrightarrow> AddressInAccessList a s'"
    using l(1) by (simp add: lasting_def warm_kept_def AddressInAccessList_def)
qed

lemma state_inv_wf: "state_inv s \<Longrightarrow> sdb_wf s" "state_inv s \<Longrightarrow> sdb_ok s" "state_inv s \<Longrightarrow> fresh_env (env_of s)"
  by (simp_all add: state_inv_def sdb_ok_def)

lemma same_state_inv: "same s s' \<Longrightarrow> state_inv s \<Longrightarrow> state_inv s' \<and> AddressInAccessList a s' = AddressInAccessList a s"
proof -
  assume s: "same s s'" "state_inv s"
  have "w_accessList (view s') = w_accessList (view s)" using s(1) unfolding same_def by simp
  then have "s_accessList s' = s_accessList s" by simp
  moreover have "sdb_ok s'" "env_of s' = env_of s" using s by (simp_all add: sdb_ok_def same_def state_inv_def)
  ultimately show ?thesis
    using s(2) unfolding state_inv_def AddressInAccessList_def same_accounts[OF s(1)] by simp
qed

lemma code_length: "state_inv s \<Longrightarrow> length (fst (GetCode a s)) < 2 ^ 63"
proof -
  assume s: "state_inv s"
  then have c: "fst (GetCode a s) = (case live_acct (view s) a of None \<Rightarrow> [] | Some v \<Rightarrow> a_code v)"
    using GetCode_read[of s a] by (simp add: state_inv_wf)
  show ?thesis
  proof (cases "live_acct (view s) a")
    case (Some v)
    then have "accounts s a = Some (acct_abs v)" by (simp add: accounts_def)
    then have "length (ac_Code (acct_abs v)) < 2 ^ 63" using s unfolding state_inv_def by blast
    then show ?thesis using c Some by simp
  qed (use c in simp)
qed

end
