(* ===== verification/VMGasSafe.thy ===== *)
theory VMGasSafe
  imports VMFine
begin

text \<open>
  The gas functions do not panic, do not change what they should not, and charge enough: memory is paid
  for before it is used, what an instruction forwards to a callee is part of its price, and an
  instruction without a constant price has a dynamic one.
\<close>

definition env_ok :: "vm_env \<Rightarrow> bool" where
  "env_ok E \<longleftrightarrow> uint256 (e_U E) \<and> ctx_Random (e_Context E) \<noteq> None \<and> ctx_BaseFee (e_Context E) \<noteq> None"

definition same_contract :: "Contract \<Rightarrow> Contract \<Rightarrow> bool" where
  "same_contract c c' \<longleftrightarrow> c_Code c' = c_Code c \<and> c_Input c' = c_Input c \<and> c_self c' = c_self c"

lemma same_contract_refl [simp]: "same_contract c c" "same_contract c (c\<lparr>c_Gas := g\<rparr>)"
  by (simp_all add: same_contract_def)

subsection \<open>Sizes of memory\<close>

definition asks :: "memorySizeFunc \<Rightarrow> nat \<Rightarrow> (nat \<Rightarrow> stack \<Rightarrow> bool) \<Rightarrow> bool" where
  "asks f k C \<longleftrightarrow>
     (\<forall>U st. uint256 U \<longrightarrow> k \<le> length st \<longrightarrow> (\<exists>n ov. f U st = Ok (n, ov) \<and> (\<not> ov \<longrightarrow> C (unat n) st)))"

lemma asks_at: "i < k \<Longrightarrow> j < k \<Longrightarrow> asks (mem_size_at i j) k (\<lambda>n st. covers n (st ! i) (st ! j))"
  using uint256.calcMemSize64_covers
  by (auto simp: asks_def mem_size_at_def with_back_nth) (metis prod.collapse)

lemma asks_const: "i < k \<Longrightarrow> asks (mem_size_const i l) k (\<lambda>n st. covers n (st ! i) (ucast l))"
  using uint256.calcMemSize64WithUint_covers
  by (auto simp: asks_def mem_size_const_def with_back_nth) (metis prod.collapse)

lemma asks_max:
  assumes "asks f k (\<lambda>n st. covers n (a st) (b st))" "asks g k (\<lambda>n st. covers n (c st) (d st))"
  shows "asks (mem_size_max f g) k (\<lambda>n st. covers n (a st) (b st) \<and> covers n (c st) (d st))"
  unfolding asks_def
proof (intro allI impI)
  fix U and st :: stack assume u: "uint256 U" "k \<le> length st"
  obtain x ox where x: "f U st = Ok (x, ox)" "\<not> ox \<longrightarrow> covers (unat x) (a st) (b st)"
    using assms(1) u unfolding asks_def by blast
  obtain y oy where y: "g U st = Ok (y, oy)" "\<not> oy \<longrightarrow> covers (unat y) (c st) (d st)"
    using assms(2) u unfolding asks_def by blast
  show "\<exists>n ov. mem_size_max f g U st = Ok (n, ov) \<and> (\<not> ov \<longrightarrow> covers (unat n) (a st) (b st) \<and> covers (unat n) (c st) (d st))"
    using x y covers_mono[of "unat x" "a st" "b st" "unat y"] covers_mono[of "unat y" "c st" "d st" "unat x"]
    by (cases ox; cases oy; cases "unat y < unat x") (auto simp: mem_size_max_def u64_less)
qed

lemma needed_memory_fine:
  assumes "op_memorySize o' = Some f" "asks f k C" "uint256 (e_U E)" "k \<le> length st"
  shows "\<exists>r. needed_memory E o' st = Ok r \<and>
    (\<forall>n. r = Inr n \<longrightarrow> 32 dvd unat n \<and> (\<exists>n0. C n0 st \<and> n0 \<le> unat n))"
proof -
  obtain n ov where n: "f (e_U E) st = Ok (n, ov)" "\<not> ov \<longrightarrow> C (unat n) st"
    using assms unfolding asks_def by blast
  have "unat (toWordSize n * 32) = (unat n + 31) div 32 * 32 \<and> unat n \<le> (unat n + 31) div 32 * 32"
    if "unat (toWordSize n) * unat (32 :: u64) < 2 ^ 64"
    using that by (simp add: u64_mul toWordSize_unat)
  then show ?thesis using n assms(1)
    by (cases ov) (auto simp: needed_memory_def mul_gas_Inr intro!: exI[of _ "unat n"])
qed

subsection \<open>Prices\<close>

text \<open>
  \<open>k\<close> operands are there; \<open>mm\<close> says whether the function charges for memory; \<open>X\<close> is a lower bound of
  the price, or another fact about the machine after the function has run.
\<close>

definition gas_post ::
  "bool \<Rightarrow> (QRVM \<Rightarrow> nat \<Rightarrow> bool) \<Rightarrow> QRVM \<Rightarrow> Contract \<Rightarrow> Memory \<Rightarrow> u64 \<Rightarrow>
   (vm_error + u64) \<times> QRVM \<times> Contract \<times> Memory \<Rightarrow> bool" where
  "gas_post mm X m c mem sz = (\<lambda>(r, m1, c1, mem1).
     m_returnData m1 = m_returnData m \<and> same_contract c c1 \<and> unat (c_Gas c1) \<le> unat (c_Gas c) \<and>
     (\<forall>cost. r = Inr cost \<longrightarrow> c_Gas c1 = c_Gas c \<and>
        (if mm then \<exists>fee. memoryGasCost mem sz = (Inr fee, mem1) else mem1 = mem) \<and> X m1 (unat cost)))"

definition gas_safe :: "nat \<Rightarrow> bool \<Rightarrow> (vm_env \<Rightarrow> QRVM \<Rightarrow> stack \<Rightarrow> nat \<Rightarrow> bool) \<Rightarrow> gasFunc \<Rightarrow> bool" where
  "gas_safe k mm X g \<longleftrightarrow>
     (\<forall>E m c st mem sz. env_ok E \<longrightarrow> state_inv (m_StateDB m) \<longrightarrow> AddressInAccessList (c_self c) (m_StateDB m) \<longrightarrow>
        k \<le> length st \<longrightarrow> mem_ok mem \<longrightarrow> unat (c_Gas c) < 2 ^ 63 \<longrightarrow>
        fine (gas_post mm (\<lambda>m1. X E m1 st) m c mem sz) (g E m c st mem sz))"

definition no_bound :: "vm_env \<Rightarrow> QRVM \<Rightarrow> stack \<Rightarrow> nat \<Rightarrow> bool" where
  "no_bound E m st cost \<longleftrightarrow> True"

definition at_least :: "nat \<Rightarrow> vm_env \<Rightarrow> QRVM \<Rightarrow> stack \<Rightarrow> nat \<Rightarrow> bool" where
  "at_least b E m st cost \<longleftrightarrow> b \<le> cost"

lemma gas_safeI:
  assumes "\<And>E m c st mem sz. env_ok E \<Longrightarrow> state_inv (m_StateDB m) \<Longrightarrow> AddressInAccessList (c_self c) (m_StateDB m) \<Longrightarrow>
        k \<le> length st \<Longrightarrow> (0 < k \<Longrightarrow> st \<noteq> []) \<Longrightarrow> mem_ok mem \<Longrightarrow> unat (c_Gas c) < 2 ^ 63 \<Longrightarrow>
        fine (gas_post mm (\<lambda>m1. X E m1 st) m c mem sz) (g E m c st mem sz)"
  shows "gas_safe k mm X g"
  unfolding gas_safe_def by (intro allI impI assms) auto

lemma gas_post_Inl [simp]:
  "gas_post mm X m c mem sz (Inl e, m1, c1, mem1) \<longleftrightarrow>
     m_returnData m1 = m_returnData m \<and> same_contract c c1 \<and> unat (c_Gas c1) \<le> unat (c_Gas c)"
  by (simp add: gas_post_def)

lemma gas_post_same:
  "m_returnData m1 = m_returnData m \<Longrightarrow> (\<And>cost. r = Inr cost \<Longrightarrow> X m1 (unat cost)) \<Longrightarrow>
   (if mm then \<exists>fee. memoryGasCost mem sz = (Inr fee, mem1) else mem1 = mem) \<Longrightarrow>
   gas_post mm X m c mem sz (r, m1, c, mem1)"
  by (simp add: gas_post_def)

lemma add_gas_unat: "add_gas x y = Inr z \<Longrightarrow> unat z = unat x + unat y"
  by (auto simp: add_gas_Inr u64_add)

lemma bind_sum_Inr: "bind_sum x f = Inr y \<longleftrightarrow> (\<exists>z. x = Inr z \<and> f z = Inr y)"
  by (cases x) auto

lemma gas_safe_memory_and: "pos < k \<Longrightarrow> gas_safe k True no_bound (lift_gas (memory_and pos f))"
  by (rule gas_safeI)
    (auto simp: no_bound_def lift_gas_def memory_and_def with_back_nth split: prod.split sum.split intro!: gas_post_same)

lemma gas_safe_pure: "gas_safe k True no_bound (lift_gas pureMemoryGascost)"
  by (rule gas_safeI)
    (auto simp: no_bound_def lift_gas_def pureMemoryGascost_def gas_post_def split: prod.split)

lemma gas_safe_exp: "1 < k \<Longrightarrow> gas_safe k False (at_least 10) (lift_gas gasExpEIP158)"
  by (rule gas_safeI)
    (auto simp: at_least_def lift_gas_def gasExpEIP158_def with_back_nth Let_def intro!: gas_post_same dest: add_gas_unat)

lemma log_cost:
  "bind_sum (add_gas gas LogGas) (\<lambda>gas. bind_sum (add_gas gas t) (\<lambda>gas.
     bind_sum (mul_gas r d) (\<lambda>x. add_gas gas x))) = Inr cost \<Longrightarrow> 375 \<le> unat cost"
  by (auto simp: bind_sum_Inr dest!: add_gas_unat)

lemma gas_safe_log: "1 < k \<Longrightarrow> gas_safe k True (at_least 375) (lift_gas (makeGasLog n))"
  by (rule gas_safeI)
    (auto simp: at_least_def lift_gas_def makeGasLog_def with_back_nth Let_def log_cost
      simp del: params_defs split: prod.split sum.split intro!: gas_post_same)

lemma gas_safe_sload: "0 < k \<Longrightarrow> gas_safe k False (at_least 100) gasSLoadEIP2929"
  by (rule gas_safeI)
    (auto simp: at_least_def gasSLoadEIP2929_def with_back_nth Let_def split: prod.split intro!: gas_post_same)

lemma gas_safe_account: "0 < k \<Longrightarrow> gas_safe k False no_bound gasEip2929AccountCheck"
  by (rule gas_safeI) (auto simp: no_bound_def gasEip2929AccountCheck_def with_back_nth Let_def intro!: gas_post_same)

lemma gas_safe_extcodecopy: "3 < k \<Longrightarrow> gas_safe k True no_bound gasExtCodeCopyEIP2929"
  by (rule gas_safeI)
    (auto simp: no_bound_def gasExtCodeCopyEIP2929_def gasExtCodeCopy_def memoryCopierGas_def memory_and_def
      with_back_nth Let_def split: prod.split sum.split intro!: gas_post_same)

lemma fst_SlotInAccessList: "fst (SlotInAccessList a k s) = AddressInAccessList a s"
  by (simp add: SlotInAccessList_def AddressInAccessList_def fst_Contains)

lemma gas_safe_sstore: "1 < k \<Longrightarrow> gas_safe k False (at_least 100) gasSStoreEIP3529"
proof (rule gas_safeI)
  fix E :: vm_env and m :: QRVM and c :: Contract and st :: stack and mem :: Memory and sz :: u64
  assume a: "state_inv (m_StateDB m)" "AddressInAccessList (c_self c) (m_StateDB m)" "1 < k" "k \<le> length st" "0 < k \<Longrightarrow> st \<noteq> []"
  let ?k = "u_Bytes32 (e_U E) (st ! 0)"
  let ?s = "snd (GetState (c_self c) ?k (m_StateDB m))"
  have "AddressInAccessList (c_self c) ?s"
    using a(1,2) GetState_read[of "m_StateDB m" "c_self c" ?k] same_state_inv by (auto simp: state_inv_wf)
  then obtain present where p: "SlotInAccessList (c_self c) ?k ?s = (True, present)"
    by (metis fst_SlotInAccessList prod.collapse)
  have post: "fine (gas_post False (\<lambda>m1. at_least 100 E m1 st) m c mem sz) (Ok (Inr cost, m\<lparr>m_StateDB := s\<rparr>, c, mem))"
    if "100 \<le> unat cost" for cost s
    using that by (simp add: gas_post_def at_least_def)
  have stop: "fine (gas_post False (\<lambda>m1. at_least 100 E m1 st) m c mem sz) (Ok (Inl e, m, c, mem))" for e by simp
  have read: "with_back 1 st f = f (st ! 1)" "with_back 0 st f = f (st ! 0)" for f :: "u256 \<Rightarrow> 'a outcome"
    using a by (simp_all add: with_back_nth)
  show "fine (gas_post False (\<lambda>m1. at_least 100 E m1 st) m c mem sz) (gasSStoreEIP3529 E m c st mem sz)"
    unfolding gasSStoreEIP3529_def makeGasSStoreFunc_def read Let_def case_prod_unfold p
    by (cases present)
      (auto simp: of_option_def post stop simp del: fine_Ok split: option.split)
qed

subsection \<open>Calls\<close>

context uint256
begin

lemma callGas_63_64:
  assumes "unat base \<le> unat avail"
  shows "unat (callGas U avail base x) =
    min (unat x) ((unat avail - unat base) - (unat avail - unat base) div 64)"
proof -
  define a where "a = unat avail - unat base"
  have a: "unat (avail - base) = a" using assms by (simp add: u64_sub a_def)
  have d: "unat ((avail - base) div 64) = a div 64" by (simp add: unat_div a)
  have g: "unat ((avail - base) - (avail - base) div 64) = a - a div 64" by (subst u64_sub) (simp_all add: a d)
  have "unat (u_Uint64 U x) = unat x" if "unat x < 2 ^ 64" using that by (rule ucast_u64_exact)
  moreover have "a - a div 64 < 2 ^ 64" using unat_u64_less[of avail] by (simp add: a_def less_imp_diff_less)
  ultimately show ?thesis
    using g by (auto simp: callGas_def Let_def IsUint64 u64_less a_def[symmetric] min_def)
qed

lemma callGas_le: "unat (callGas U avail base x) \<le> unat (avail - base) - unat (avail - base) div 64"
proof -
  have "unat ((avail - base) - (avail - base) div 64) = unat (avail - base) - unat (avail - base) div 64"
    by (subst u64_sub) (simp_all add: unat_div)
  then show ?thesis by (auto simp: callGas_def Let_def u64_less)
qed

end

text \<open>The whole price of a call: the base and what is forwarded, far from the limit of the type.\<close>

lemma call_price:
  assumes "uint256 U" "unat base < 2 ^ 57" "unat avail < 2 ^ 63" "add_gas base (callGas U avail base x) = Inr cost"
  shows "unat cost = unat base + unat (callGas U avail base x)" "unat cost < 2 ^ 64 - 2500"
proof -
  show c: "unat cost = unat base + unat (callGas U avail base x)" by (rule add_gas_unat[OF assms(4)])
  note le = uint256.callGas_le[OF assms(1), of avail base x]
  show "unat cost < 2 ^ 64 - 2500"
  proof (cases "unat base \<le> unat avail")
    case True
    then have "unat (avail - base) = unat avail - unat base" by (rule u64_sub)
    then have "unat cost \<le> unat avail" using c le True by linarith
    then show ?thesis using assms(3) by simp
  next
    case False
    define w where "w = unat (avail - base)"
    have w: "w + unat base = 2 ^ 64 + unat avail" using False unat_u64_less[of base] u64_sub_wrap[of avail base] unfolding w_def by simp
    define q where "q = w div 64"
    have "w \<le> 64 * q + 63" "q \<le> w" by (simp_all add: q_def)
    moreover have "unat cost \<le> unat base + (w - q)" using c le unfolding w_def[symmetric] q_def by simp
    ultimately have "64 * unat cost + w \<le> 64 * (unat base + w) + 63" by simp
    then show ?thesis using w False assms(2) by simp
  qed
qed

definition call_bound :: "bool \<Rightarrow> vm_env \<Rightarrow> QRVM \<Rightarrow> stack \<Rightarrow> nat \<Rightarrow> bool" where
  "call_bound val E m st cost \<longleftrightarrow>
     unat (m_callGasTemp m) + (if val \<and> st ! 2 \<noteq> 0 then 9000 else 0) \<le> cost \<and>
     AddressInAccessList (u_Bytes20 (e_U E) (st ! 1)) (m_StateDB m)"

text \<open>What the inner functions have to guarantee for the surcharge of a cold account to be safe.\<close>

definition inner_bound :: "bool \<Rightarrow> vm_env \<Rightarrow> QRVM \<Rightarrow> stack \<Rightarrow> nat \<Rightarrow> bool" where
  "inner_bound val E m st cost \<longleftrightarrow> call_bound val E m st cost \<and> cost < 2 ^ 64 - 2500"

definition call_gas_safe :: "bool \<Rightarrow> nat \<Rightarrow> gasFunc \<Rightarrow> bool" where
  "call_gas_safe val k g \<longleftrightarrow>
     (\<forall>E m c st mem sz. env_ok E \<longrightarrow> state_inv (m_StateDB m) \<longrightarrow>
        AddressInAccessList (u_Bytes20 (e_U E) (st ! 1)) (m_StateDB m) \<longrightarrow>
        k \<le> length st \<longrightarrow> mem_ok mem \<longrightarrow> unat (c_Gas c) < 2 ^ 63 \<longrightarrow>
        fine (gas_post True (\<lambda>m1. inner_bound val E m1 st) m c mem sz) (g E m c st mem sz))"

lemma forward_gas_safe:
  assumes "env_ok E" "st \<noteq> []" "AddressInAccessList (u_Bytes20 (e_U E) (st ! 1)) (m_StateDB m)"
    "unat (c_Gas c) < 2 ^ 63" "unat base < 2 ^ 57" "val \<and> st ! 2 \<noteq> 0 \<longrightarrow> 9000 \<le> unat base"
    "memoryGasCost mem sz = (Inr fee, mem1)" "m_returnData m = m_returnData m0"
  shows "fine (gas_post True (\<lambda>m1. inner_bound val E m1 st) m0 c mem sz) (forward_gas base E m c st mem1 sz)"
proof -
  have u: "uint256 (e_U E)" using assms(1) by (simp add: env_ok_def)
  show ?thesis
    using assms call_price[OF u assms(5,4)]
    by (auto simp: forward_gas_def with_back_nth Let_def inner_bound_def call_bound_def intro!: gas_post_same)
qed

lemma call_gas_safe_simple: "0 < k \<Longrightarrow> call_gas_safe False k gasDelegateCall" "0 < k \<Longrightarrow> call_gas_safe False k gasStaticCall"
proof -
  have "call_gas_safe False k g" if "0 < k" "g = gasDelegateCall \<or> g = gasStaticCall" for g
    unfolding call_gas_safe_def
  proof (intro allI impI, goal_cases)
    case (1 E m c st mem sz)
    have st: "st \<noteq> []" using 1 that by auto
    obtain r mem1 where r: "memoryGasCost mem sz = (r, mem1)" by fastforce
    show ?case
    proof (cases r)
      case (Inr fee)
      have "unat fee < 2 ^ 57" using memoryGasCost_bound[OF 1(5) r[unfolded Inr]] by simp
      then have "fine (gas_post True (\<lambda>m1. inner_bound False E m1 st) m c mem sz) (forward_gas fee E m c st mem1 sz)"
        using forward_gas_safe[OF 1(1) st 1(3,6) _ _ r[unfolded Inr] HOL.refl, of fee False] by simp
      then show ?thesis using that(2) r Inr by (auto simp: gasDelegateCall_def gasStaticCall_def)
    qed (use that(2) r in \<open>auto simp: gasDelegateCall_def gasStaticCall_def\<close>)
  qed
  then show "0 < k \<Longrightarrow> call_gas_safe False k gasDelegateCall" "0 < k \<Longrightarrow> call_gas_safe False k gasStaticCall" by auto
qed

lemma call_gas_safe_value: "2 < k \<Longrightarrow> call_gas_safe True k gasCall"
  unfolding call_gas_safe_def
proof (intro allI impI, goal_cases)
  case (1 E m c st mem sz)
  have st: "st \<noteq> []" using 1 by auto
  have U: "uint256 (e_U E)" using 1(2) by (simp add: env_ok_def)
  let ?a = "u_Bytes20 (e_U E) (st ! 1)"
  define tv where "tv = (st ! 2 \<noteq> 0)"
  define em where "em = (if tv then Empty ?a (m_StateDB m) else (False, m_StateDB m))"
  define g where "g = (if tv then (if fst em then CallNewAccountGas else 0) + CallValueTransferGas else 0)"
  define m1 where "m1 = m\<lparr>m_StateDB := snd em\<rparr>"
  have warm: "AddressInAccessList ?a (m_StateDB m1)"
    using 1 Empty_read[of "m_StateDB m" ?a] same_state_inv by (auto simp: m1_def em_def state_inv_wf)
  have g: "unat g \<le> 34000" "tv \<longrightarrow> 9000 \<le> unat g" by (auto simp: g_def)
  obtain r mem1 where r: "memoryGasCost mem sz = (r, mem1)" by fastforce
  have call: "gasCall E m c st mem sz = (case r of Inl err \<Rightarrow> Ok (Inl err, m1, c, mem1)
      | Inr memoryGas \<Rightarrow> (case add_gas g memoryGas of
          Inl err \<Rightarrow> Ok (Inl err, m1, c, mem1) | Inr gas \<Rightarrow> forward_gas gas E m1 c st mem1 sz))"
    using 1(1,5) uint256.IsZero[OF U]
    by (cases "tv") (auto simp: gasCall_def with_back_nth Let_def r g_def m1_def em_def tv_def case_prod_unfold split: sum.split)
  have "fine (gas_post True (\<lambda>m1. inner_bound True E m1 st) m c mem sz) (forward_gas gas E m1 c st mem1 sz)"
    if "r = Inr fee" "add_gas g fee = Inr gas" for fee gas
  proof -
    have "unat gas < 2 ^ 57" "st ! 2 \<noteq> 0 \<longrightarrow> 9000 \<le> unat gas"
      using memoryGasCost_bound[OF 1(6) r[unfolded that(1)]] g add_gas_unat[OF that(2)] by (auto simp: tv_def)
    then show ?thesis
      using forward_gas_safe[OF 1(2) st warm 1(7) _ _ r[unfolded that(1)], of gas True m] by (simp add: m1_def)
  qed
  then show ?case by (auto simp: call m1_def split: sum.split)
qed

lemma gas_safe_variant:
  assumes "call_gas_safe val k g" "1 < k"
  shows "gas_safe k True (call_bound val) (makeCallVariantGasCallEIP2929 g)"
proof (rule gas_safeI)
  fix E :: vm_env and m :: QRVM and c :: Contract and st :: stack and mem :: Memory and sz :: u64
  assume a: "env_ok E" "state_inv (m_StateDB m)" "k \<le> length st" "mem_ok mem" "unat (c_Gas c) < 2 ^ 63"
  let ?a = "u_Bytes20 (e_U E) (st ! 1)"
  show "fine (gas_post True (\<lambda>m1. call_bound val E m1 st) m c mem sz) (makeCallVariantGasCallEIP2929 g E m c st mem sz)"
  proof (cases "AddressInAccessList ?a (m_StateDB m)")
    case True
    then have "fine (gas_post True (\<lambda>m1. inner_bound val E m1 st) m c mem sz) (g E m c st mem sz)"
      using assms a unfolding call_gas_safe_def by blast
    then show ?thesis using True assms(2) a(3)
      by (auto simp: makeCallVariantGasCallEIP2929_def with_back_nth Let_def inner_bound_def gas_post_def split: sum.splits
          intro!: fine_bind)
  next
    case False
    let ?m = "m\<lparr>m_StateDB := AddAddressToAccessList ?a (m_StateDB m)\<rparr>"
    have "state_inv (m_StateDB ?m)"
      using lasts_inv(1)[OF lasting_view.warm_address[of undefined False] a(2)] by simp
    moreover have "AddressInAccessList ?a (m_StateDB ?m)"
      by (simp add: AddressInAccessList_def ContainsAddress_AddAddress)
    ultimately have inner: "fine (gas_post True (\<lambda>m1. inner_bound val E m1 st) ?m (c\<lparr>c_Gas := c_Gas c - 2500\<rparr>) mem sz)
        (g E ?m (c\<lparr>c_Gas := c_Gas c - 2500\<rparr>) st mem sz)" if "2500 \<le> unat (c_Gas c)"
      using assms a that u64_sub[of 2500 "c_Gas c"] unfolding call_gas_safe_def by simp
    have cold: "ColdAccountAccessCostEIP2929 - WarmStorageReadCostEIP2929 = 2500" by simp
    have sum: "unat (gas + 2500) = unat gas + 2500" if "unat gas < 2 ^ 64 - 2500" for gas :: u64
      using that by (subst u64_add) simp_all
    show ?thesis
    proof (cases "2500 \<le> unat (c_Gas c)")
      case enough: True
      have less: "unat (c_Gas c - 2500) \<le> unat (c_Gas c)" using enough by (simp add: u64_sub)
      have "fine (gas_post True (\<lambda>m1. call_bound val E m1 st) m c mem sz)
          (bind_outcome (g E ?m (c\<lparr>c_Gas := c_Gas c - 2500\<rparr>) st mem sz) (\<lambda>(r, m2, c2, mem2).
             case r of Inl err \<Rightarrow> Ok (Inl err, m2, c2, mem2)
             | Inr gas \<Rightarrow> Ok (Inr (gas + 2500), m2, c2\<lparr>c_Gas := c_Gas c2 + 2500\<rparr>, mem2)))"
        using less
        by (intro fine_bind[OF inner[OF enough]])
          (auto simp: gas_post_def same_contract_def inner_bound_def call_bound_def sum split: sum.splits)
      then show ?thesis using False enough assms(2) a(3)
        by (simp add: makeCallVariantGasCallEIP2929_def with_back_nth Let_def cold UseGas_def u64_less
            del: params_defs cong: sum.case_cong)
    qed (use False assms(2) a(3) in
        \<open>simp add: makeCallVariantGasCallEIP2929_def with_back_nth Let_def cold UseGas_def u64_less del: params_defs\<close>)
  qed
qed

end
