(* ===== verification/PrecompileSafe.thy ===== *)
theory PrecompileSafe
  imports VMFine
begin

text \<open>
  The precompiled contracts of \<open>src/core/vm/contracts.go\<close>: with gas below \<open>2 ^ 63\<close> none of them panics, and
  what is returned fits in a slice. For modular exponentiation this rests on its price: lengths that would
  overflow the slices cost more than any such amount of gas.
\<close>

lemma getData_fine:
  assumes "length data < 2 ^ 63" "unat sz < 2 ^ 63"
  shows "\<exists>b. getData data start sz = Some b \<and> length b = unat sz"
proof -
  define len :: u64 where "len = word_of_nat (length data)"
  define s where "s = (if start > len then len else start)"
  have len: "unat len = length data" using assms(1) by (simp add: len_def u64_of_nat)
  have s: "unat s \<le> length data" using len by (auto simp: s_def u64_less)
  have sum: "unat (s + sz) = unat s + unat sz" using s assms by (intro u64_add) simp
  define e where "e = min (s + sz) len"
  have e: "unat e = min (unat s + unat sz) (length data)"
    using sum len by (auto simp: e_def min_def u64_less)
  have "\<not> e < s" using e s by (simp add: u64_less)
  moreover have "sint sz = int (unat sz)" by (rule sint_u64[OF assms(2)])
  moreover have "length (take (unat e - unat s) (drop (unat s) data)) \<le> unat sz" using e s by simp
  ultimately show ?thesis
    using length_RightPadBytes[of "take (unat e - unat s) (drop (unat s) data)" "int (unat sz)"]
    by (auto simp: getData_def Let_def len_def[symmetric] s_def[symmetric] e_def[symmetric] max_def)
qed

lemma get_data_fine:
  "length data < 2 ^ 63 \<Longrightarrow> unat sz < 2 ^ 63 \<Longrightarrow> fine (\<lambda>b. length b = unat sz) (get_data data start sz)"
  using getData_fine[of data sz start] by (auto simp: get_data_def of_option_def)

lemma get_big_fine:
  assumes "length data < 2 ^ 63" "unat sz < 2 ^ 63"
  shows "fine (\<lambda>x. 0 \<le> x \<and> nat x < 256 ^ unat sz) (get_big data start sz)"
  unfolding get_big_def
  by (rule fine_bind[OF get_data_fine[OF assms]]) (simp, metis bytes_to_nat_bound)

lemma depositroot_fine: "length input < 2 ^ 63 \<Longrightarrow> fine (\<lambda>r. \<forall>b. r = Inr b \<longrightarrow> length b = 32) (depositroot_Run E input)"
  unfolding depositroot_Run_def
  by (intro fine_bind[OF get_data_fine]) (auto simp: HashTreeRoot_def Let_def)

subsection \<open>Modular exponentiation\<close>

lemma length_min_bytes_le: "n < 256 ^ k \<Longrightarrow> length (min_bytes n) \<le> k"
proof -
  assume "n < 256 ^ k"
  then have "n < 2 ^ (8 * k)" by (simp add: power_mult)
  then have "bitlen n \<le> 8 * k" by (simp add: bitlen_le_iff)
  then show ?thesis by (simp add: min_bytes_def)
qed

text \<open>The price as a number, before it is cut to 64 bits.\<close>

definition modexp_price :: "int \<Rightarrow> int \<Rightarrow> int \<Rightarrow> nat \<Rightarrow> int" where
  "modexp_price baseLen expLen modLen msb =
     ((max modLen baseLen + 7) div 8) * ((max modLen baseLen + 7) div 8) *
     max ((if expLen > 32 then 8 * (expLen - 32) else 0) + int msb) 1 div 3"

lemma modexp_lengths:
  assumes "0 \<le> b" "0 \<le> e" "0 \<le> m" "b \<noteq> 0 \<or> m \<noteq> 0" "modexp_price b e m msb < 2 ^ 63"
  shows "b < 2 ^ 36" "m < 2 ^ 36" "e < 2 ^ 62"
proof -
  define q where "q = (max m b + 7) div 8"
  define a where "a = max ((if e > 32 then 8 * (e - 32) else 0) + int msb) 1"
  have q: "1 \<le> q" "max m b \<le> 8 * q" using assms(1-4) by (auto simp: q_def)
  have a: "1 \<le> a" "8 * (e - 32) \<le> a" by (auto simp: a_def)
  have "q * q * a div 3 < 2 ^ 63" using assms(5) by (simp add: modexp_price_def q_def a_def)
  then have p: "q * q * a < 3 * 2 ^ 63" by simp
  have "q * q * 1 \<le> q * q * a" using q a by (intro mult_left_mono) auto
  then have "q * q < 3 * 2 ^ 63" using p by simp
  moreover have "2 ^ 33 * 2 ^ 33 \<le> q * q" if "2 ^ 33 \<le> q" using that by (intro mult_mono) auto
  ultimately have "q < 2 ^ 33" by force
  then show "b < 2 ^ 36" "m < 2 ^ 36" using q by auto
  have "1 * 1 \<le> q * q" using q by (intro mult_mono) auto
  then have "1 * a \<le> q * q * a" using a by (intro mult_right_mono) auto
  then have "8 * (e - 32) < 3 * 2 ^ 63" using p a by linarith
  then show "e < 2 ^ 62" by simp
qed

lemma modexp_price_nonneg: "0 \<le> modexp_price b e m msb"
  unfolding modexp_price_def by (subst pos_imp_zdiv_nonneg_iff) (auto intro!: mult_nonneg_nonneg)

lemma small_word: "0 \<le> n \<Longrightarrow> n < 2 ^ 64 \<Longrightarrow> unat (word_of_int n :: u64) = nat n"
  by (cases n) (simp_all add: u64_of_nat)

lemma cut_price:
  assumes "(if bitlen (nat p) > 64 then Ok MaxUint64 else if (word_of_int p :: u64) < 200 then Ok 200
            else Ok (word_of_int p)) = Ok g" "unat g < 2 ^ 63" "0 \<le> p"
  shows "p < 2 ^ 63"
proof -
  have "\<not> bitlen (nat p) > 64" using assms(1,2) by (auto simp: Max_u64)
  then have "nat p < 2 ^ 64" by (simp add: bitlen_le_iff[symmetric] not_less del: power_numeral)
  then have u: "unat (word_of_int p :: u64) = nat p" using assms(3) by (intro small_word) auto
  have "unat (word_of_int p :: u64) < 2 ^ 63"
    using assms(1,2) \<open>\<not> bitlen (nat p) > 64\<close> by (auto simp: u64_less split: if_splits)
  then show ?thesis using u by simp
qed

lemma modexp_gas:
  assumes gas: "modexp_RequiredGas input = Ok g" "unat g < 2 ^ 63"
    and b: "get_big input 0 32 = Ok b" and e: "get_big input 32 32 = Ok e" and m: "get_big input 64 32 = Ok m"
  obtains msb where "modexp_price b e m msb < 2 ^ 63"
proof -
  obtain z where "(let n = bitlen (nat z); p = modexp_price b e m (if n > 0 then n - 1 else 0)
      in if bitlen (nat p) > 64 then Ok MaxUint64 else if (word_of_int p :: u64) < 200 then Ok 200
            else Ok (word_of_int p)) = Ok g"
    using gas(1) unfolding modexp_RequiredGas_def b e m Let_def modexp_price_def bind_outcome.simps
    by (elim bind_OkE) blast
  then show ?thesis using cut_price[OF _ gas(2) modexp_price_nonneg] that unfolding Let_def by blast
qed

lemma modexp_RequiredGas_fine:
  assumes "length input < 2 ^ 63"
  shows "fine (\<lambda>_. True) (modexp_RequiredGas input)"
proof -
  have big: "fine (\<lambda>x. 0 \<le> x) (get_big input start 32)" for start
    by (rule fine_mono[OF get_big_fine]) (use assms in auto)
  have e: "fine (\<lambda>_. True) (if P then Ok 0 else if 32 < z then get_big rest start 32 else get_big rest start (word_of_int z))"
    if "0 \<le> z" "length rest < 2 ^ 63" for P z rest start
  proof -
    have "unat (word_of_int z :: u64) < 2 ^ 63" if "\<not> 32 < z" using \<open>0 \<le> z\<close> that by (simp add: small_word)
    then show ?thesis using that(2) by (auto intro!: fine_mono[OF get_big_fine])
  qed
  show ?thesis unfolding modexp_RequiredGas_def Let_def
    by (intro fine_bind[OF big] fine_bind[OF e])
       (use assms in \<open>auto simp only: fine_Ok length_drop list.size zero_less_power split: if_splits\<close>)
qed

lemma modexp_Run_fine:
  assumes len: "length input < 2 ^ 63" and gas: "modexp_RequiredGas input = Ok g" "unat g < 2 ^ 63"
  shows "fine (\<lambda>r. \<forall>out. r = Inr out \<longrightarrow> length out < 2 ^ 63) (modexp_Run input)"
proof -
  define rest where "rest = (if length input > 96 then drop 96 input else [])"
  have rest: "length rest < 2 ^ 63" using len by (auto simp: rest_def)
  have big: "fine (\<lambda>x. 0 \<le> x) (get_big input start 32)" for start
    by (rule fine_mono[OF get_big_fine]) (use len in auto)
  show ?thesis unfolding modexp_Run_def
  proof (intro fine_bind[OF big], goal_cases)
    case (1 b e m)
    define bl el ml :: u64 where "bl = word_of_int b" and "el = word_of_int e" and "ml = word_of_int m"
    obtain msb where price: "modexp_price b e m msb < 2 ^ 63" using modexp_gas[OF gas] 1 by metis
    have sizes: "unat bl < 2 ^ 63" "unat el < 2 ^ 63" "unat ml = nat m" "unat ml < 2 ^ 63" if "bl \<noteq> 0 \<or> ml \<noteq> 0"
    proof -
      have "b \<noteq> 0 \<or> m \<noteq> 0" using that by (auto simp: bl_def ml_def)
      note l = modexp_lengths[OF \<open>0 \<le> b\<close> \<open>0 \<le> e\<close> \<open>0 \<le> m\<close> this price]
      show "unat bl < 2 ^ 63" "unat el < 2 ^ 63" "unat ml = nat m" "unat ml < 2 ^ 63"
        using l 1 small_word[of b] small_word[of e] small_word[of m] by (simp_all add: bl_def el_def ml_def)
    qed
    have out: "length (LeftPadBytes bs (sint ml)) < 2 ^ 63"
      if "length bs \<le> unat ml" "bl \<noteq> 0 \<or> ml \<noteq> 0" for bs
      using sizes[OF that(2)] that(1) sint_u64[of ml] by (simp add: LeftPadBytes_def)
    have fits: "length (min_bytes (nat (v mod x))) \<le> unat ml" if "0 \<le> x" "nat x < 256 ^ unat ml" "bitlen (nat x) \<noteq> 0" for v x
    proof -
      have "x \<noteq> 0" using that(3) by auto
      then have "0 \<le> v mod x" "v mod x < x" using that(1) by auto
      then show ?thesis using that(2) by (intro length_min_bytes_le) linarith
    qed
    show ?case unfolding Let_def rest_def[symmetric] bl_def[symmetric] el_def[symmetric] ml_def[symmetric]
    proof (cases "bl = 0 \<and> ml = 0")
      case False
      then have nz: "bl \<noteq> 0 \<or> ml \<noteq> 0" by simp
      note get = fine_bind[OF get_big_fine[OF rest]]
      show "fine (\<lambda>r. \<forall>out. r = Inr out \<longrightarrow> length out < 2 ^ 63)
        (if bl = 0 \<and> ml = 0 then Ok (Inr []) else
           bind_outcome (get_big rest 0 bl) (\<lambda>base. bind_outcome (get_big rest bl el) (\<lambda>exp.
           bind_outcome (get_big rest (bl + el) ml) (\<lambda>mod'.
             if bitlen (nat mod') = 0 then Ok (Inr (LeftPadBytes [] (sint ml)))
             else Ok (Inr (LeftPadBytes (min_bytes (nat (if bitlen (nat base) = 1 then base mod mod'
                                                         else base ^ nat exp mod mod'))) (sint ml)))))))"
        unfolding if_not_P[OF False]
        by (intro get sizes[OF nz]) (auto intro!: out nz fits simp del: power_numeral)
    qed simp
  qed
qed

lemma RunPrecompiledContract_fine:
  assumes "length input < 2 ^ 63" "unat gas < 2 ^ 63"
  shows "fine (\<lambda>(ret, g, err). length ret < 2 ^ 63 \<and> unat g \<le> unat gas) (RunPrecompiledContract E p input gas)"
proof -
  have "fine (\<lambda>_. True) (RequiredGas p input)"
    using modexp_RequiredGas_fine[OF assms(1)] by (cases p) simp_all
  then show ?thesis unfolding RunPrecompiledContract_def
  proof (rule fine_bind)
    fix cost assume c: "RequiredGas p input = Ok cost"
    have run: "fine (\<lambda>r. \<forall>out. r = Inr out \<longrightarrow> length out < 2 ^ 63) (precompile_Run E p input)" if "\<not> gas < cost"
    proof (cases p)
      case depositroot
      then show ?thesis by (simp del: power_numeral) (rule fine_mono[OF depositroot_fine[OF assms(1)]], auto)
    next
      case bigModExp
      have "unat cost < 2 ^ 63" using that assms(2) by (simp add: u64_less)
      then show ?thesis using modexp_Run_fine[OF assms(1)] c bigModExp by simp
    qed (use assms(1) in \<open>simp_all\<close>)
    have le: "unat (gas - cost) \<le> unat gas" if "\<not> gas < cost" using that by (simp add: u64_less u64_sub)
    show "fine (\<lambda>(ret, g, err). length ret < 2 ^ 63 \<and> unat g \<le> unat gas)
       (if gas < cost then Ok ([], 0, Some ErrOutOfGas)
        else bind_outcome (precompile_Run E p input) (\<lambda>r. case r of Inl err \<Rightarrow> Ok ([], gas - cost, Some err)
           | Inr output \<Rightarrow> Ok (output, gas - cost, None)))"
      by (cases "gas < cost") (auto intro!: fine_bind[OF run] le split: sum.split)
  qed
qed

text \<open>The only panic a precompiled contract could raise is the one of \<open>getData\<close>.\<close>

definition slice_only :: "'a outcome \<Rightarrow> bool" where
  "slice_only x \<longleftrightarrow> (\<forall>q. x = Panic q \<longrightarrow> q = PanicSlice)"

lemma slice_only_simps [simp]: "slice_only (Ok y)" "slice_only (get_data d a n)"
  by (simp_all add: slice_only_def get_data_def of_option_def split: option.split)

lemma slice_only_bind: "slice_only x \<Longrightarrow> (\<And>y. slice_only (f y)) \<Longrightarrow> slice_only (bind_outcome x f)"
  by (cases x) (auto simp: slice_only_def)

lemma slice_only_if: "slice_only x \<Longrightarrow> slice_only y \<Longrightarrow> slice_only (if b then x else y)"
  by simp

lemma slice_only_get_big [simp]: "slice_only (get_big d a n)"
  by (simp add: get_big_def slice_only_bind)

lemma slice_only_precompile: "slice_only (RequiredGas p input)" "slice_only (precompile_Run E p input)"
proof -
  have m: "slice_only (modexp_RequiredGas input)" "slice_only (modexp_Run input)" "slice_only (depositroot_Run E input)"
    unfolding modexp_RequiredGas_def modexp_Run_def depositroot_Run_def Let_def
    by (intro slice_only_bind slice_only_if slice_only_simps slice_only_get_big)+
  show "slice_only (RequiredGas p input)" "slice_only (precompile_Run E p input)" by (cases p; simp add: m)+
qed

lemma fine_Ok_ex: "fine P x \<Longrightarrow> slice_only x \<Longrightarrow> \<exists>y. x = Ok y \<and> P y"
  by (cases x) (auto simp: slice_only_def)

lemma RunPrecompiledContract_total:
  assumes "length input < 2 ^ 63" "unat gas < 2 ^ 63"
  shows "\<exists>ret g err. RunPrecompiledContract E p input gas = Ok (ret, g, err) \<and> length ret < 2 ^ 63 \<and> unat g \<le> unat gas"
proof -
  have "slice_only (RunPrecompiledContract E p input gas)"
    unfolding RunPrecompiledContract_def
    by (auto intro!: slice_only_bind slice_only_precompile split: sum.split)
  from fine_Ok_ex[OF RunPrecompiledContract_fine[OF assms] this] show ?thesis by auto
qed

end
