(* ===== verification/CallBranches.thy ===== *)
theory CallBranches
  imports VMFine
begin

text \<open>
  What the calls of \<open>src/core/vm/qrvm.go\<close> do on the branches that run no code: the depth limit, a missing
  balance, a call of nothing, a plain transfer, and precompiled contracts.
\<close>

lemma fst_CanTransfer: "sdb_wf s \<Longrightarrow> fst (CanTransfer a x s) \<longleftrightarrow> x \<le> balance (accounts s) a"
  using GetBalance_read[of s a]
  by (auto simp: CanTransfer_def case_prod_unfold balance_def accounts_def split: option.splits)

lemma same_CanTransfer: "sdb_wf s \<Longrightarrow> same s (snd (CanTransfer a x s))"
  using GetBalance_read[of s a] by (simp add: CanTransfer_def case_prod_unfold)

lemma fst_Exist: "sdb_wf s \<Longrightarrow> fst (Exist a s) \<longleftrightarrow> accounts s a \<noteq> None"
  using Exist_read[of s a] by (simp add: accounts_def)

definition code_of :: "(address \<Rightarrow> Account option) \<Rightarrow> address \<Rightarrow> bytes" where
  "code_of M a = (case M a of None \<Rightarrow> [] | Some v \<Rightarrow> ac_Code v)"

lemma fst_GetCode: "sdb_wf s \<Longrightarrow> fst (GetCode a s) = code_of (accounts s) a"
  using GetCode_read[of s a] by (auto simp: code_of_def accounts_def split: option.splits)

lemma Call_depth: "1024 < m_depth m \<Longrightarrow> Call E run caller addr input gas val m = Ok ([], gas, Some ErrDepth, m)"
  by (simp add: Call_def)

lemma Call_insufficient:
  assumes "sdb_wf (m_StateDB m)" "m_depth m \<le> 1024" "val \<noteq> 0" "balance (accounts (m_StateDB m)) (ref_Address caller) < val"
  shows "\<exists>s'. Call E run caller addr input gas val m = Ok ([], gas, Some ErrInsufficientBalance, m\<lparr>m_StateDB := s'\<rparr>) \<and>
    view s' = view (m_StateDB m)"
  using assms fst_CanTransfer[OF assms(1), of "ref_Address caller" val] same_CanTransfer[OF assms(1), of "ref_Address caller" val]
  by (auto simp: Call_def Let_def case_prod_unfold same_def)

text \<open>The state a call has built when it starts to run the callee.\<close>

definition before_run :: "address \<Rightarrow> address \<Rightarrow> int \<Rightarrow> statedb \<Rightarrow> int \<times> statedb" where
  "before_run self addr val s =
     (let s0 = (if val \<noteq> 0 then snd (CanTransfer self val s) else s);
          (i, s1) = Snapshot s0; (exist, s2) = Exist addr s1
      in (i, Transfer self addr val (if \<not> exist then CreateAccount addr s2 else s2)))"

lemma before_run_step:
  assumes "sdb_ok s" "before_run self addr val s = (i, s4)"
  obtains s0 s1 where "same s s0" "sdb_ok s0" "Snapshot s0 = (i, s1)" "good_step s1 s4"
proof -
  define s0 where "s0 = (if val \<noteq> 0 then snd (CanTransfer self val s) else s)"
  have wf: "sdb_wf s" using assms(1) by (simp add: sdb_ok_def)
  have s: "same s s0" using same_CanTransfer[OF wf] by (simp add: s0_def)
  then have ok0: "sdb_ok s0" using assms(1) by (simp add: sdb_ok_def same_def)
  define s1 where "s1 = snd (Snapshot s0)"
  have snap: "Snapshot s0 = (i, s1)"
    using assms(2) by (simp add: before_run_def s0_def[symmetric] s1_def Let_def case_prod_unfold prod_eq_iff)
  have s2: "good_step s1 (snd (Exist addr s1))" using good_cache[of s1 "snd (Exist addr s1)"] Exist_read[of s1 addr] by auto
  have "s4 = Transfer self addr val (if \<not> fst (Exist addr s1) then CreateAccount addr (snd (Exist addr s1)) else snd (Exist addr s1))"
    using assms(2) snap by (auto simp: before_run_def s0_def[symmetric] Let_def case_prod_unfold)
  then have "good_step s1 s4"
    using s2 by (auto intro: good_step_trans[OF _ good_Transfer] good_step_trans[OF _ good_CreateAccount])
  then show thesis using that s ok0 snap by blast
qed

lemma spec_new_transfer:
  assumes "M addr = None" "self \<noteq> addr"
  shows "spec_op h (OpAddBalance addr x) (spec_op h (OpSubBalance self x) (spec_op h (OpCreateAccount addr) M)) =
    spec_op h (OpAddBalance addr x) (spec_op h (OpSubBalance self x) M)"
  using assms by (auto simp: Let_def account_or_new_def new_Account_def fun_eq_iff)

lemma before_run_accounts:
  assumes ok: "sdb_ok s" and fr: "fresh_env (env_of s)" and bal: "0 < val" "val \<le> balance (accounts s) self"
    and b: "before_run self addr val s = (i, s4)"
  shows "accounts s4 = spec_op (s_hasher s) (OpAddBalance addr val) (spec_op (s_hasher s) (OpSubBalance self val) (accounts s)) \<and>
    sdb_ok s4 \<and> env_of s4 = env_of s"
proof -
  define s0 where "s0 = snd (CanTransfer self val s)"
  define s1 where "s1 = snd (Snapshot s0)"
  have snap: "Snapshot s0 = (i, s1)"
    using b bal(1) by (simp add: before_run_def s0_def[symmetric] s1_def Let_def case_prod_unfold prod_eq_iff)
  define s2 where "s2 = snd (Exist addr s1)"
  have wf: "sdb_wf s" using ok by (simp add: sdb_ok_def)
  have s0: "same s s0" unfolding s0_def by (rule same_CanTransfer[OF wf])
  then have ok0: "sdb_ok s0" "env_of s0 = env_of s" "accounts s0 = accounts s"
    using ok same_accounts[OF s0] by (simp_all add: sdb_ok_def same_def)
  have s1: "sdb_ok s1" "env_of s1 = env_of s" "view s1 = view s0"
    using good_Snapshot[of s0] ok_fresh_extends[OF ok0(1), of s1] ok0(2) by (simp_all add: s1_def) (simp add: Snapshot_def)
  then have wf1: "sdb_wf s1" by (simp add: sdb_ok_def)
  have s2: "same s1 s2" using Exist_read[OF wf1, of addr] by (simp add: s2_def)
  have acc: "accounts s1 = accounts s" using s1(3) ok0(3) by (simp add: accounts_def fun_eq_iff)
  have ok2: "sdb_ok s2" "env_of s2 = env_of s" "accounts s2 = accounts s"
    using s1 s2 acc same_accounts[OF s2] by (simp_all add: sdb_ok_def same_def)
  have ex: "fst (Exist addr s1) \<longleftrightarrow> accounts s addr \<noteq> None" using fst_Exist[OF wf1] acc by simp
  have s4: "s4 = Transfer self addr val (if accounts s addr = None then CreateAccount addr s2 else s2)"
    using b bal(1) by (auto simp: before_run_def s0_def[symmetric] s1_def s2_def ex[unfolded s1_def] Let_def case_prod_unfold)
  define s3 where "s3 = (if accounts s addr = None then CreateAccount addr s2 else s2)"
  have ok3: "sdb_ok s3" "env_of s3 = env_of s"
    using ok2 ok_fresh_extends[OF ok2(1) good_CreateAccount[of s2 addr]] by (simp_all add: s3_def)
  have h: "s_hasher s3 = s_hasher s" "s_hasher s2 = s_hasher s" using env_of_sel(3)[of s2] env_of_sel(3)[of s3] env_of_sel(3)[of s] ok2(2) ok3(2) by simp_all
  have ok4: "sdb_ok s4" "env_of s4 = env_of s"
    using ok_fresh_extends[OF ok3(1) good_Transfer] ok3 s4 by (simp_all add: s3_def)
  have "accounts s3 = (if accounts s addr = None then spec_op (s_hasher s) (OpCreateAccount addr) (accounts s) else accounts s)"
    using CreateAccount_accounts[OF ok2(1)] ok2 fr h by (simp add: s3_def del: spec_op.simps)
  then have "accounts s4 = spec_op (s_hasher s) (OpAddBalance addr val) (spec_op (s_hasher s) (OpSubBalance self val)
      (if accounts s addr = None then spec_op (s_hasher s) (OpCreateAccount addr) (accounts s) else accounts s))"
    using accounts_Transfer[OF ok3(1)] ok3 fr h s4 by (simp add: s3_def[symmetric] del: spec_op.simps)
  moreover have "self \<noteq> addr" if "accounts s addr = None" using that bal by (auto simp: balance_def)
  ultimately show ?thesis
    using ok4 spec_new_transfer[of "accounts s" addr self] by (simp del: spec_op.simps)
qed

lemma Call_transfer:
  assumes ok: "sdb_ok (m_StateDB m)" "fresh_env (env_of (m_StateDB m))" "m_depth m \<le> 1024"
    and bal: "0 < val" "val \<le> balance (accounts (m_StateDB m)) (ref_Address caller)"
    and no: "precompile addr = None" "code_of (accounts (m_StateDB m)) addr = []"
  shows "\<exists>s'. Call E run caller addr input gas val m = Ok ([], gas, None, m\<lparr>m_StateDB := s'\<rparr>) \<and> sdb_ok s' \<and>
    accounts s' = spec_op (s_hasher (m_StateDB m)) (OpAddBalance addr val)
      (spec_op (s_hasher (m_StateDB m)) (OpSubBalance (ref_Address caller) val) (accounts (m_StateDB m)))"
proof -
  let ?s = "m_StateDB m" and ?self = "ref_Address caller"
  obtain i s4 where b: "before_run ?self addr val ?s = (i, s4)" by fastforce
  have acc: "accounts s4 = spec_op (s_hasher ?s) (OpAddBalance addr val) (spec_op (s_hasher ?s) (OpSubBalance ?self val) (accounts ?s))"
    "sdb_ok s4" "env_of s4 = env_of ?s" using before_run_accounts[OF ok(1,2) bal b] by blast+
  have wf: "sdb_wf ?s" "sdb_wf s4" using ok(1) acc(2) by (simp_all add: sdb_ok_def)
  have "code_of (accounts s4) addr = code_of (accounts ?s) addr"
    unfolding acc(1) by (auto simp: code_of_def account_or_new_def new_Account_def Let_def split: option.splits)
  then have code: "fst (GetCode addr s4) = []" using fst_GetCode[OF wf(2)] no(2) by simp
  have s5: "same s4 (snd (GetCode addr s4))" using GetCode_read[OF wf(2)] by simp
  have "Call E run caller addr input gas val m = Ok ([], gas, None, m\<lparr>m_StateDB := snd (GetCode addr s4)\<rparr>)"
    using ok(3) bal no(1) fst_CanTransfer[OF wf(1), of ?self val] b code
    by (auto simp: Call_def before_run_def Let_def case_prod_unfold finish_call_def)
  moreover have "sdb_ok (snd (GetCode addr s4))" using s5 acc(2) by (simp add: sdb_ok_def same_def)
  ultimately show ?thesis
    using acc(1) same_accounts[OF s5] by (intro exI[of _ "snd (GetCode addr s4)"]) (simp del: spec_op.simps)
qed

lemma Call_precompile_fails:
  assumes "sdb_ok (m_StateDB m)" "m_depth m \<le> 1024" "val \<le> balance (accounts (m_StateDB m)) (ref_Address caller)"
    "precompile addr = Some p" "RequiredGas p input = Ok cost" "gas < cost"
  shows "\<exists>m'. Call E run caller addr input gas val m = Ok ([], 0, Some ErrOutOfGas, m')"
proof -
  let ?s = "m_StateDB m" and ?self = "ref_Address caller"
  obtain i s4 where b: "before_run ?self addr val ?s = (i, s4)" by fastforce
  have wf: "sdb_wf ?s" using assms(1) by (simp add: sdb_ok_def)
  obtain s5 where "RevertToSnapshot i s4 = Some s5"
    using before_run_step[OF assms(1) b] attempt_accounts by metis
  then show ?thesis
    using assms(2-) fst_CanTransfer[OF wf, of ?self val] b
    by (auto simp: Call_def before_run_def Let_def case_prod_unfold run_precompile_def RunPrecompiledContract_def finish_call_def
        of_option_def split: if_splits)
qed

lemma Call_error_gas:
  assumes "sdb_wf (m_StateDB m)" "Call E run caller addr input gas val m = Ok (ret, g, Some err, m')"
  shows "g = 0 \<or> err = ErrExecutionReverted \<or>
    g = gas \<and> (err = ErrDepth \<and> 1024 < m_depth m \<or>
      err = ErrInsufficientBalance \<and> balance (accounts (m_StateDB m)) (ref_Address caller) < val)"
  using assms(2) fst_CanTransfer[OF assms(1), of "ref_Address caller" val]
  by (auto simp: Call_def Let_def case_prod_unfold finish_call_def split: if_splits elim!: bind_OkE)

lemma StaticCall_copy:
  "m_depth m \<le> 1024 \<Longrightarrow>
   \<exists>m'. StaticCall E run caller 4 [] 100 m = Ok ([], 85, None, m')"
  by (simp add: StaticCall_def Let_def case_prod_unfold precompile_def run_precompile_def RunPrecompiledContract_def words_of_def
      finish_call_def u64_less)

subsection \<open>Creating a contract\<close>

lemma fst_GetNonce: "sdb_wf s \<Longrightarrow> fst (GetNonce a s) = (case accounts s a of None \<Rightarrow> 0 | Some v \<Rightarrow> ac_Nonce v)"
  using GetNonce_read[of s a] by (auto simp: accounts_def split: option.splits)

lemma fst_GetCodeHash:
  "sdb_wf s \<Longrightarrow> fst (GetCodeHash a s) = (case accounts s a of None \<Rightarrow> 0 | Some v \<Rightarrow> BytesToHash (ac_CodeHash v))"
  using GetCodeHash_read[of s a] by (auto simp: accounts_def split: option.splits)

text \<open>Creating a contract with empty init code succeeds, at any address that is free.\<close>

lemma Create_empty:
  assumes ok: "sdb_ok (m_StateDB m)" "fresh_env (env_of (m_StateDB m))" "m_depth m \<le> 1024"
    and bal: "val \<le> balance (accounts (m_StateDB m)) (ref_Address caller)"
    and nonce: "(case accounts (m_StateDB m) (ref_Address caller) of None \<Rightarrow> 0 | Some v \<Rightarrow> ac_Nonce v) = n" "\<not> n + 1 < n"
    and free: "accounts (m_StateDB m) (CreateAddress E (ref_Address caller) n) = None"
      "CreateAddress E (ref_Address caller) n \<noteq> ref_Address caller"
  shows "\<exists>m'. Create E (Run (Suc d) E) caller [] gas val m = Ok ([], CreateAddress E (ref_Address caller) n, gas, None, m')"
proof -
  let ?s = "m_StateDB m" and ?self = "ref_Address caller" and ?a = "CreateAddress E (ref_Address caller) n"
  define s0 where "s0 = snd (GetNonce ?self ?s)"
  define s1 where "s1 = snd (CanTransfer ?self val s0)"
  define s2 where "s2 = snd (GetNonce ?self s1)"
  have wf: "sdb_wf ?s" using ok(1) by (simp add: sdb_ok_def)
  have s0: "same ?s s0" using GetNonce_read[OF wf] by (simp add: s0_def)
  then have wf0: "sdb_wf s0" using wf by (simp add: same_def)
  have s1: "same ?s s1" using same_trans[OF s0 same_CanTransfer[OF wf0]] by (simp add: s1_def)
  then have wf1: "sdb_wf s1" using wf by (simp add: same_def)
  have s2: "same ?s s2" using same_trans[OF s1] GetNonce_read[OF wf1] by (simp add: s2_def)
  have ok2: "sdb_ok s2" "fresh_env (env_of s2)" "accounts s2 = accounts ?s"
    using s2 ok same_accounts[OF s2] by (simp_all add: same_def sdb_ok_def)
  define s3 where "s3 = AddAddressToAccessList ?a (SetNonce ?self (n + 1) s2)"
  have "sdb_ok s3" using ok2(1) good_step_trans[OF good_SetNonce good_AddAddressToAccessList]
    unfolding good_step_def s3_def by blast
  then have wf3: "sdb_wf s3" by (simp add: sdb_ok_def)
  have a3: "accounts s3 ?a = None"
    using op_accounts(4)[OF ok2(1,2)] free ok2(3) by (simp add: s3_def accounts_quiet)
  define s4 where "s4 = snd (GetCodeHash ?a s3)"
  have s4: "same s3 s4" using GetCodeHash_read[OF wf3] by (simp add: s4_def)
  then have wf4: "sdb_wf s4" using wf3 by (simp add: same_def)
  have free3: "fst (GetCodeHash ?a s3) = 0" "fst (GetNonce ?a s4) = 0"
    using fst_GetCodeHash[OF wf3] fst_GetNonce[OF wf4] same_accounts[OF s4] a3 by simp_all
  have n: "fst (GetNonce ?self ?s) = n" "fst (GetNonce ?self s1) = n" "fst (CanTransfer ?self val s0)"
    using fst_GetNonce[OF wf] fst_GetNonce[OF wf1] fst_CanTransfer[OF wf0] same_accounts[OF s1] same_accounts[OF s0] nonce(1) bal by simp_all
  show ?thesis
    using ok(3) nonce(2) n free3
    by (simp add: Create_def create_def Let_def case_prod_unfold s0_def[symmetric] s1_def[symmetric] s2_def[symmetric] s3_def[symmetric]
        s4_def[symmetric] SetCodeOptionalHash_def deploy_def finish_create_def UseGas_def NewContract_def)
qed

end
