(* ===== verification/VMCallSafe.thy ===== *)
theory VMCallSafe
  imports VMGasSafe PrecompileSafe CallBranches
begin

text \<open>
  Calling and creating contracts (\<open>src/core/vm/qrvm.go\<close>) is safe when running a contract is: no panic, no
  fuel used up, results that fit in a slice, and no more gas returned than was given.
\<close>

text \<open>
  What a call relies on of the interpreter. \<open>d\<close> bounds the depth of the calls that the interpreter can
  still make; together with the depth that is reached it covers the limit of the machine.
\<close>

definition run_safe :: "nat \<Rightarrow> runner \<Rightarrow> bool" where
  "run_safe d run \<longleftrightarrow>
     (\<forall>c input ro m. state_inv (m_StateDB m) \<longrightarrow> AddressInAccessList (c_self c) (m_StateDB m) \<longrightarrow>
        length (c_Code c) < 2 ^ 63 \<longrightarrow> length input < 2 ^ 63 \<longrightarrow> unat (c_Gas c) < 2 ^ 63 \<longrightarrow>
        m_depth m \<le> 1024 \<longrightarrow> 1025 \<le> m_depth m + d \<longrightarrow>
        fine (\<lambda>(ret, err, c', m'). length ret < 2 ^ 63 \<and> unat (c_Gas c') \<le> unat (c_Gas c)) (run c input ro m))"

lemma run_safeD:
  "run_safe d run \<Longrightarrow> state_inv (m_StateDB m) \<Longrightarrow> AddressInAccessList (c_self c) (m_StateDB m) \<Longrightarrow>
   length (c_Code c) < 2 ^ 63 \<Longrightarrow> length input < 2 ^ 63 \<Longrightarrow> unat (c_Gas c) < 2 ^ 63 \<Longrightarrow>
   m_depth m \<le> 1024 \<Longrightarrow> 1025 \<le> m_depth m + d \<Longrightarrow>
   fine (\<lambda>(ret, err, c', m'). length ret < 2 ^ 63 \<and> unat (c_Gas c') \<le> unat (c_Gas c)) (run c input ro m)"
  unfolding run_safe_def by blast

definition call_ok :: "u64 \<Rightarrow> bytes \<times> u64 \<times> vm_error option \<times> QRVM \<Rightarrow> bool" where
  "call_ok gas = (\<lambda>(ret, g, err, m). length ret < 2 ^ 63 \<and> unat g \<le> unat gas)"

definition calls_ok :: "hash \<Rightarrow> nat \<Rightarrow> runner \<Rightarrow> QRVM \<Rightarrow> bytes \<Rightarrow> u64 \<Rightarrow> bool" where
  "calls_ok h d run m input gas \<longleftrightarrow>
     run_rel (lasts h) run \<and> run_safe d run \<and> state_inv (m_StateDB m) \<and> length input < 2 ^ 63 \<and> unat gas < 2 ^ 63 \<and>
     1025 \<le> m_depth m + d"

text \<open>The end of a call: a revert always finds its snapshot.\<close>

lemma finish_call_fine:
  assumes "sdb_ok s0" "Snapshot s0 = (i, s1)" "good_step s1 (m_StateDB m)" "call_ok gas (ret, g, err, m)"
  shows "fine (call_ok gas) (finish_call i (ret, g, err, m))"
  using attempt_accounts[OF assms(1-3)] assms(4) by (auto simp: finish_call_def call_ok_def of_option_def)

lemma run_precompile_fine:
  "length input < 2 ^ 63 \<Longrightarrow> unat gas < 2 ^ 63 \<Longrightarrow>
   fine (\<lambda>(ret, g, err, m'). call_ok gas (ret, g, err, m') \<and> m' = m) (run_precompile E p input gas m)"
  unfolding run_precompile_def
  by (rule fine_bind[OF RunPrecompiledContract_fine]) (auto simp: call_ok_def)

lemma run_contract_fine:
  assumes "calls_ok h d run m0 input (c_Gas c)" "state_inv (m_StateDB m)" "AddressInAccessList (c_self c) (m_StateDB m)"
    "length (c_Code c) < 2 ^ 63" "m_depth m = m_depth m0" "m_depth m \<le> 1024"
  shows "fine (\<lambda>(ret, g, err, m'). call_ok (c_Gas c) (ret, g, err, m') \<and> good_step (m_StateDB m) (m_StateDB m'))
    (run_contract run c input ro m)"
  unfolding run_contract_def
proof (rule fine_bind)
  show "fine (\<lambda>(ret, err, c', m'). length ret < 2 ^ 63 \<and> unat (c_Gas c') \<le> unat (c_Gas c)) (run c input ro m)"
    using assms by (intro run_safeD) (auto simp: calls_ok_def)
  fix y assume y: "run c input ro m = Ok y" "case y of (ret, err, c', m') \<Rightarrow> length ret < 2 ^ 63 \<and> unat (c_Gas c') \<le> unat (c_Gas c)"
  obtain ret err c' m' where y': "y = (ret, err, c', m')" by (cases y)
  have "good_step (m_StateDB m) (m_StateDB m')"
    using assms(1) y(1) unfolding y' by (auto simp: calls_ok_def good_and_def dest: run_relD)
  then show "fine (\<lambda>(ret, g, err, m'). call_ok (c_Gas c) (ret, g, err, m') \<and> good_step (m_StateDB m) (m_StateDB m'))
       (case y of (ret, err, c, m1) \<Rightarrow> Ok (ret, c_Gas c, err, m1))"
    using y(2) by (simp add: y' call_ok_def)
qed

text \<open>The state when the callee starts to run.\<close>

lemma before_run_lasts:
  assumes "before_run self addr val s = (i, s4)"
  obtains s0 s1 where "sdb_wf s \<longrightarrow> same s s0" "Snapshot s0 = (i, s1)" "lasts h False s0 s1" "lasts h False s1 s4"
proof -
  define s0 where "s0 = (if val \<noteq> 0 then snd (CanTransfer self val s) else s)"
  define s1 where "s1 = snd (Snapshot s0)"
  have snap: "Snapshot s0 = (i, s1)"
    using assms by (simp add: before_run_def s0_def[symmetric] s1_def Let_def case_prod_unfold prod_eq_iff)
  have s4: "s4 = Transfer self addr val (if \<not> fst (Exist addr s1) then CreateAccount addr (snd (Exist addr s1)) else snd (Exist addr s1))"
    using assms by (auto simp: before_run_def s0_def[symmetric] s1_def Let_def case_prod_unfold)
  have "lasts h False s1 (if \<not> fst (Exist addr s1) then CreateAccount addr (snd (Exist addr s1)) else snd (Exist addr s1))"
    by (simp add: lasting_view.appear lasting_view.reads)
  then have "lasts h False s1 s4" unfolding s4 by (rule lasting_view.trans) (rule lasting_view.transfer)
  moreover have "lasts h False s0 s1" unfolding s1_def by (rule lasting_view.snapshot)
  moreover have "sdb_wf s \<longrightarrow> same s s0" using same_CanTransfer by (simp add: s0_def)
  ultimately show thesis using that snap by blast
qed

lemma Call_fine:
  assumes ok: "calls_ok h d run m input gas" and warm: "AddressInAccessList addr (m_StateDB m)"
  shows "fine (call_ok gas) (Call E run caller addr input gas val m)"
proof (cases "m_depth m \<le> 1024")
  case True
  let ?s = "m_StateDB m" and ?self = "ref_Address caller"
  have inv: "state_inv ?s" "length input < 2 ^ 63" "unat gas < 2 ^ 63" using ok by (auto simp: calls_ok_def)
  obtain i s4 where b: "before_run ?self addr val ?s = (i, s4)" by fastforce
  obtain s0 s1 where s: "sdb_wf ?s \<longrightarrow> same ?s s0" "Snapshot s0 = (i, s1)" "lasts h False s0 s1" "lasts h False s1 s4"
    by (rule before_run_lasts[OF b])
  have s0: "state_inv s0" "AddressInAccessList addr s0" using s(1) inv warm same_state_inv[of ?s s0 addr] by (auto simp: state_inv_wf)
  note s1 = lasts_inv[OF s(3) s0(1)]
  note s4 = lasts_inv[OF s(4) s1(1)]
  have g4: "good_step s1 s4" using s(4) by (simp add: good_and_def)
  define s5 where "s5 = snd (GetCode addr s4)"
  define s6 where "s6 = snd (GetCodeHash addr s5)"
  have s46: "lasts h False s4 s5" "lasts h False s5 s6" unfolding s5_def s6_def by (simp_all add: lasting_view.reads)
  note s5 = lasts_inv[OF s46(1) s4(1)]
  note s6 = lasts_inv[OF s46(2) s5(1)]
  have g5: "good_step s1 s5" using good_step_trans[OF g4] s46(1) by (simp add: good_and_def)
  have g6: "good_step s1 s6" using good_step_trans[OF g5] s46(2) by (simp add: good_and_def)
  have len: "length (fst (GetCode addr s4)) < 2 ^ 63" by (rule code_length[OF s4(1)])
  define c where "c = SetCallCode addr (fst (GetCodeHash addr s5)) (fst (GetCode addr s4)) (fst (NewContract caller addr val gas (m\<lparr>m_StateDB := s5\<rparr>)))"
  have c: "c_Gas c = gas" "c_self c = addr" "length (c_Code c) < 2 ^ 63" using len by (simp_all add: c_def SetCallCode_def NewContract_def)
  define m6 where "m6 = (snd (NewContract caller addr val gas (m\<lparr>m_StateDB := s5\<rparr>)))\<lparr>m_StateDB := s6\<rparr>"
  have m6: "m_StateDB m6 = s6" "m_depth m6 = m_depth m" by (simp_all add: m6_def)
  have "fine (\<lambda>(ret, g, err, m'). call_ok gas (ret, g, err, m') \<and> good_step s1 (m_StateDB m'))
     (case precompile addr of Some p \<Rightarrow> run_precompile E p input gas (m\<lparr>m_StateDB := s4\<rparr>)
      | None \<Rightarrow> if length (fst (GetCode addr s4)) = 0 then Ok ([], gas, None, m\<lparr>m_StateDB := s5\<rparr>)
                else run_contract run c input False m6)" (is "fine ?P ?body")
  proof (cases "precompile addr")
    case None
    have "fine ?P (run_contract run c input False m6)"
    proof (rule fine_mono[OF run_contract_fine[of h d run m input c m6]])
      show "calls_ok h d run m input (c_Gas c)" using ok c by simp
      show "AddressInAccessList (c_self c) (m_StateDB m6)" unfolding m6 c by (intro s6(2) s5(2) s4(2) s1(2) s0(2))
    qed (use c m6 s6(1) True g6 in \<open>auto intro: good_step_trans\<close>)
    then show ?thesis using None g5 by (auto simp: call_ok_def)
  next
    case (Some p)
    have "fine ?P (run_precompile E p input gas (m\<lparr>m_StateDB := s4\<rparr>))"
      by (rule fine_mono[OF run_precompile_fine[OF inv(2,3)]]) (use g4 in auto)
    then show ?thesis using Some by simp
  qed
  then have body: "fine (call_ok gas) (bind_outcome ?body (finish_call i))"
    by (rule fine_bind) (use finish_call_fine[OF state_inv_wf(2)[OF s0(1)] s(2)] in auto)
  have "Call E run caller addr input gas val m = bind_outcome ?body (finish_call i) \<or>
      (\<exists>err m'. Call E run caller addr input gas val m = Ok ([], gas, err, m'))"
    using True b
    by (cases "precompile addr"; cases "val = 0")
      (auto simp: Call_def before_run_def Let_def case_prod_unfold c_def m6_def s5_def s6_def split: if_splits)
  then show ?thesis using body by (auto simp: call_ok_def)
qed (simp add: Call_def call_ok_def)

lemma DelegateCall_fine:
  assumes ok: "calls_ok h d run m input gas" and warm: "AddressInAccessList (c_self p) (m_StateDB m)"
  shows "fine (call_ok gas) (DelegateCall E run (ContractOf p) addr input gas m)"
proof (cases "m_depth m \<le> 1024")
  case True
  let ?s = "m_StateDB m"
  have inv: "state_inv ?s" "length input < 2 ^ 63" "unat gas < 2 ^ 63" using ok by (auto simp: calls_ok_def)
  obtain i s1 where snap: "Snapshot ?s = (i, s1)" by fastforce
  define s2 where "s2 = snd (GetCodeHash addr s1)"
  define s3 where "s3 = snd (GetCode addr s2)"
  have l: "lasts h False ?s s1" "lasts h False s1 s2" "lasts h False s2 s3"
    using lasting_view.snapshot[of h False ?s] snap unfolding s2_def s3_def by (simp_all add: lasting_view.reads)
  note s1 = lasts_inv[OF l(1) inv(1)]
  note s2 = lasts_inv[OF l(2) s1(1)]
  note s3 = lasts_inv[OF l(3) s2(1)]
  have g3: "good_step s1 s3" using l(2,3) good_step_trans[of s1 s2 s3] by (simp add: good_and_def)
  define c where "c = SetCallCode addr (fst (GetCodeHash addr s1)) (fst (GetCode addr s2))
      ((fst (NewContract (ContractOf p) (c_self p) 0 gas (m\<lparr>m_StateDB := s1\<rparr>)))\<lparr>c_CallerAddress := c_CallerAddress p, c_value := c_value p\<rparr>)"
  have c: "c_Gas c = gas" "c_self c = c_self p" "length (c_Code c) < 2 ^ 63"
    using code_length[OF s2(1)] by (simp_all add: c_def SetCallCode_def NewContract_def)
  define m3 where "m3 = (snd (NewContract (ContractOf p) (c_self p) 0 gas (m\<lparr>m_StateDB := s1\<rparr>)))\<lparr>m_StateDB := s3\<rparr>"
  have m3: "m_StateDB m3 = s3" "m_depth m3 = m_depth m" by (simp_all add: m3_def)
  have "fine (\<lambda>(ret, g, err, m'). call_ok gas (ret, g, err, m') \<and> good_step s1 (m_StateDB m'))
     (case precompile addr of Some q \<Rightarrow> run_precompile E q input gas (m\<lparr>m_StateDB := s1\<rparr>)
      | None \<Rightarrow> run_contract run c input False m3)" (is "fine ?P ?body")
  proof (cases "precompile addr")
    case None
    have "fine ?P (run_contract run c input False m3)"
    proof (rule fine_mono[OF run_contract_fine[of h d run m input c m3]])
      show "calls_ok h d run m input (c_Gas c)" using ok c by simp
      show "AddressInAccessList (c_self c) (m_StateDB m3)" unfolding m3 c by (intro s3(2) s2(2) s1(2) warm)
    qed (use c m3 s3(1) True g3 in \<open>auto intro: good_step_trans\<close>)
    then show ?thesis using None by simp
  next
    case (Some q)
    have "fine ?P (run_precompile E q input gas (m\<lparr>m_StateDB := s1\<rparr>))"
      by (rule fine_mono[OF run_precompile_fine[OF inv(2,3)]]) auto
    then show ?thesis using Some by simp
  qed
  then have body: "fine (call_ok gas) (bind_outcome ?body (finish_call i))"
    by (rule fine_bind) (use finish_call_fine[OF state_inv_wf(2)[OF inv(1)] snap] in auto)
  have "DelegateCall E run (ContractOf p) addr input gas m = bind_outcome ?body (finish_call i)"
    using True snap by (simp add: DelegateCall_def Let_def case_prod_unfold c_def m3_def s2_def s3_def cong: option.case_cong)
  then show ?thesis using body by simp
qed (simp add: DelegateCall_def call_ok_def)

lemma StaticCall_fine:
  assumes ok: "calls_ok h d run m input gas" and warm: "AddressInAccessList addr (m_StateDB m)"
  shows "fine (call_ok gas) (StaticCall E run caller addr input gas m)"
proof (cases "m_depth m \<le> 1024")
  case True
  let ?s = "m_StateDB m"
  have inv: "state_inv ?s" "length input < 2 ^ 63" "unat gas < 2 ^ 63" using ok by (auto simp: calls_ok_def)
  obtain i s1 where snap: "Snapshot ?s = (i, s1)" by fastforce
  define s2 where "s2 = AddBalance addr 0 s1"
  define s3 where "s3 = snd (GetCodeHash addr s2)"
  define s4 where "s4 = snd (GetCode addr s3)"
  have l: "lasts h False ?s s1" "lasts h False s1 s2" "lasts h False s2 s3" "lasts h False s3 s4"
    using lasting_view.snapshot[of h False ?s] snap unfolding s2_def s3_def s4_def
    by (simp_all add: lasting_view.reads lasting_view.touch_add)
  note s1 = lasts_inv[OF l(1) inv(1)]
  note s2 = lasts_inv[OF l(2) s1(1)]
  note s3 = lasts_inv[OF l(3) s2(1)]
  note s4 = lasts_inv[OF l(4) s3(1)]
  have g2: "good_step s1 s2" using l(2) by (simp add: good_and_def)
  have g3: "good_step s1 s3" using l(3) good_step_trans[OF g2] by (simp add: good_and_def)
  have g4: "good_step s1 s4" using l(4) good_step_trans[OF g3] by (simp add: good_and_def)
  define c where "c = SetCallCode addr (fst (GetCodeHash addr s2)) (fst (GetCode addr s3)) (fst (NewContract caller addr 0 gas (m\<lparr>m_StateDB := s2\<rparr>)))"
  have c: "c_Gas c = gas" "c_self c = addr" "length (c_Code c) < 2 ^ 63"
    using code_length[OF s3(1)] by (simp_all add: c_def SetCallCode_def NewContract_def)
  define m4 where "m4 = (snd (NewContract caller addr 0 gas (m\<lparr>m_StateDB := s2\<rparr>)))\<lparr>m_StateDB := s4\<rparr>"
  have m4: "m_StateDB m4 = s4" "m_depth m4 = m_depth m" by (simp_all add: m4_def)
  have "fine (\<lambda>(ret, g, err, m'). call_ok gas (ret, g, err, m') \<and> good_step s1 (m_StateDB m'))
     (case precompile addr of Some q \<Rightarrow> run_precompile E q input gas (m\<lparr>m_StateDB := s2\<rparr>)
      | None \<Rightarrow> run_contract run c input True m4)" (is "fine ?P ?body")
  proof (cases "precompile addr")
    case None
    have "fine ?P (run_contract run c input True m4)"
    proof (rule fine_mono[OF run_contract_fine[of h d run m input c m4]])
      show "calls_ok h d run m input (c_Gas c)" using ok c by simp
      show "AddressInAccessList (c_self c) (m_StateDB m4)" unfolding m4 c by (intro s4(2) s3(2) s2(2) s1(2) warm)
    qed (use c m4 s4(1) True g4 in \<open>auto intro: good_step_trans\<close>)
    then show ?thesis using None by simp
  next
    case (Some q)
    have "fine ?P (run_precompile E q input gas (m\<lparr>m_StateDB := s2\<rparr>))"
      by (rule fine_mono[OF run_precompile_fine[OF inv(2,3)]]) (use g2 in auto)
    then show ?thesis using Some by simp
  qed
  then have body: "fine (call_ok gas) (bind_outcome ?body (finish_call i))"
    by (rule fine_bind) (use finish_call_fine[OF state_inv_wf(2)[OF inv(1)] snap] in auto)
  have "StaticCall E run caller addr input gas m = bind_outcome ?body (finish_call i)"
    using True snap by (simp add: StaticCall_def Let_def case_prod_unfold c_def m4_def s2_def s3_def s4_def cong: option.case_cong)
  then show ?thesis using body by simp
qed (simp add: StaticCall_def call_ok_def)

subsection \<open>Creating contracts\<close>

definition create_ok :: "u64 \<Rightarrow> bytes \<times> address \<times> u64 \<times> vm_error option \<times> QRVM \<Rightarrow> bool" where
  "create_ok gas = (\<lambda>(ret, a, g, err, m). length ret < 2 ^ 63 \<and> unat g \<le> unat gas)"

lemma UseGas_le: "UseGas g c = (ok, c') \<Longrightarrow> unat (c_Gas c') \<le> unat (c_Gas c)"
  by (auto simp: UseGas_def u64_less u64_sub split: if_splits)

lemma deploy_safe:
  assumes "deploy a (ret, err, c, m) = (ret', err', c', m')"
  shows "ret' = ret \<and> unat (c_Gas c') \<le> unat (c_Gas c) \<and> good_step (m_StateDB m) (m_StateDB m')"
  using assms UseGas_le[of _ c] good_SetCode
  by (auto simp: deploy_def Let_def split: if_splits prod.splits)

lemma finish_create_fine:
  assumes "sdb_ok s0" "Snapshot s0 = (i, s1)" "good_step s1 (m_StateDB m)" "length ret < 2 ^ 63" "unat (c_Gas c) \<le> unat gas"
  shows "fine (create_ok gas) (finish_create i a (ret, err, c, m))"
proof -
  obtain s3 where "RevertToSnapshot i (m_StateDB m) = Some s3" using attempt_accounts[OF assms(1-3)] by blast
  moreover have "unat (c_Gas (snd (UseGas (c_Gas c) c))) \<le> unat gas"
    using UseGas_le[of "c_Gas c" c] assms(5) by (metis le_trans prod.collapse)
  ultimately show ?thesis using assms(4,5) by (auto simp: finish_create_def create_ok_def Let_def of_option_def)
qed

lemma create_fine:
  assumes E: "EmptyCodeHash (e_Keccak256 E) = h" and ok: "calls_ok h d run m (ch_code ch) gas"
  shows "fine (create_ok gas) (create E run caller ch gas val address m)"
proof (cases "m_depth m \<le> 1024")
  case True
  let ?s = "m_StateDB m" and ?self = "ref_Address caller"
  have inv: "state_inv ?s" "length (ch_code ch) < 2 ^ 63" "unat gas < 2 ^ 63" using ok by (auto simp: calls_ok_def)
  define s0 where "s0 = snd (CanTransfer ?self val ?s)"
  define s1 where "s1 = snd (GetNonce ?self s0)"
  define nonce where "nonce = fst (GetNonce ?self s0)"
  define s3 where "s3 = AddAddressToAccessList address (SetNonce ?self (nonce + 1) s1)"
  define s4 where "s4 = snd (GetCodeHash address s3)"
  define s5 where "s5 = snd (GetNonce address s4)"
  obtain i s6 where snap: "Snapshot s5 = (i, s6)" by fastforce
  define s7 where "s7 = Transfer ?self address val (SetNonce address 1 (CreateAccount address s6))"
  define m7 where "m7 = snd (NewContract caller address val gas (m\<lparr>m_StateDB := s7\<rparr>))"
  define c where "c = SetCodeOptionalHash address ch (fst (NewContract caller address val gas (m\<lparr>m_StateDB := s7\<rparr>)))"
  have c: "c_self c = address" "c_Code c = ch_code ch" "c_Gas c = gas" "m_StateDB m7 = s7" "m_depth m7 = m_depth m"
    by (simp_all add: c_def m7_def SetCodeOptionalHash_def NewContract_def split: ContractRef.split)
  have run: "fine (create_ok gas) (bind_outcome (run c [] False m7) (\<lambda>r. finish_create i address (deploy address r)))"
    if go: "\<not> nonce + 1 < nonce" "fst (GetNonce address s4) = 0" "fst (GetCodeHash address s3) = 0 \<or> fst (GetCodeHash address s3) = h"
  proof -
    have "nonce + 1 \<noteq> 0" using go(1) by (metis word_gt_0 add_0 zero_neq_one)
    moreover have "lasts h False ?s s0"
      unfolding s0_def by (rule lasting_view.cache) (rule same_CanTransfer)
    ultimately have "lasts h False ?s s3"
      unfolding s3_def s1_def by (intro lasting_view.then_ops(4,5) lasting_view.then_reads)
    note s3 = lasts_inv[OF this inv(1)]
    have warm3: "AddressInAccessList address s3" by (simp add: s3_def AddressInAccessList_def ContainsAddress_AddAddress)
    have "lasts h False s3 s5" unfolding s5_def s4_def by (intro lasting_view.then_reads lasting_view.refl)
    note s5 = lasts_inv[OF this s3(1)]
    have l6: "lasts h False s5 s6" using lasting_view.snapshot[of h False s5] snap by simp
    note s6 = lasts_inv[OF l6 s5(1)]
    have "view s6 = view s5" using snap by (auto simp: Snapshot_def)
    moreover have "view s5 = view s3"
      using GetCodeHash_read[OF state_inv_wf(1)[OF s3(1)], of address] GetNonce_read[of s4 address] state_inv_wf(1)[OF s3(1)]
      by (simp add: s5_def s4_def same_def)
    ultimately have vac: "vacant h address s6"
      using journalled.vacant_view[of s3 _ address _ s6 h] go(2,3) s3(1) s6(1) by (auto simp: s4_def state_inv_wf)
    have l7: "lasts h False s6 s7"
      unfolding s7_def by (rule lasting_view.trans[OF lasting_view.begin_create[OF vac] lasting_view.transfer])
    note s7 = lasts_inv[OF l7 s6(1)]
    have warm7: "AddressInAccessList address s7" by (intro s7(2) s6(2) s5(2) warm3)
    have "fine (\<lambda>(ret, err, c', m'). length ret < 2 ^ 63 \<and> unat (c_Gas c') \<le> unat (c_Gas c)) (run c [] False m7)"
      using ok s7(1) warm7 True c by (intro run_safeD) (auto simp: calls_ok_def)
    then show ?thesis
    proof (rule fine_bind)
      fix y assume y: "run c [] False m7 = Ok y" "case y of (ret, err, c', m') \<Rightarrow> length ret < 2 ^ 63 \<and> unat (c_Gas c') \<le> unat (c_Gas c)"
      obtain ret err c1 m1 where y': "y = (ret, err, c1, m1)" by (cases y)
      obtain ret' err' c2 m2 where dep: "deploy address y = (ret', err', c2, m2)" by (cases "deploy address y")
      have "good_step s7 (m_StateDB m1)"
        using ok y(1) c unfolding y' by (auto simp: calls_ok_def good_and_def dest: run_relD)
      moreover have "good_step s6 s7" using l7 by (simp add: good_and_def)
      moreover note d = deploy_safe[OF dep[unfolded y']]
      ultimately have "good_step s6 (m_StateDB m2)" by (blast intro: good_step_trans)
      then show "fine (create_ok gas) (finish_create i address (deploy address y))"
        unfolding dep by (intro finish_create_fine[OF _ snap]) (use s5(1) y(2) y' d c in \<open>auto simp: state_inv_wf\<close>)
    qed
  qed
  show ?thesis
    using True run
    by (auto simp: create_def Let_def case_prod_unfold E s0_def[symmetric] s1_def[symmetric] nonce_def[symmetric] s3_def[symmetric]
        s4_def[symmetric] s5_def[symmetric] snap s7_def[symmetric] m7_def[symmetric] c_def[symmetric] create_ok_def)
qed (simp add: create_def create_ok_def)

lemma Create_fine:
  assumes "EmptyCodeHash (e_Keccak256 E) = h" "calls_ok h d run m code gas"
  shows "fine (create_ok gas) (Create E run caller code gas val m)"
proof -
  have "state_inv (m_StateDB m)" using assms(2) by (simp add: calls_ok_def)
  then have "state_inv (snd (GetNonce (ref_Address caller) (m_StateDB m)))"
    using lasts_inv(1)[OF lasting_view.reads(7)[of h False]] by blast
  then have "calls_ok h d run (m\<lparr>m_StateDB := snd (GetNonce (ref_Address caller) (m_StateDB m))\<rparr>) code gas"
    using assms(2) by (simp add: calls_ok_def)
  then show ?thesis
    unfolding Create_def Let_def case_prod_unfold by (intro create_fine[OF assms(1)]) simp
qed

lemma Create2_fine:
  assumes "EmptyCodeHash (e_Keccak256 E) = h" "calls_ok h d run m code gas"
  shows "fine (create_ok gas) (Create2 E run caller code gas val salt m)"
  unfolding Create2_def Let_def case_prod_unfold
  by (intro create_fine[OF assms(1)]) (use assms(2) in \<open>simp add: ch_Hash_def\<close>)

end
