(* ===== verification/VMExecSafe.thy ===== *)
theory VMExecSafe
  imports VMCallSafe
begin

text \<open>
  Every instruction of \<open>src/core/vm/instructions.go\<close> is safe once its price is paid: with its operands on
  the stack and its memory in place it does not panic, it leaves memory and contract well-formed, changes
  the height of the stack by a fixed amount, and returns at most the gas it was given for a callee.
\<close>

definition scope_ok :: "ScopeContext \<Rightarrow> bool" where
  "scope_ok sc \<longleftrightarrow>
     mem_ok (sc_Memory sc) \<and> length (c_Code (sc_Contract sc)) < 2 ^ 63 \<and> length (c_Input (sc_Contract sc)) < 2 ^ 63"

definition ready :: "vm_env \<Rightarrow> nat \<Rightarrow> runner \<Rightarrow> QRVM \<Rightarrow> ScopeContext \<Rightarrow> bool" where
  "ready E d run m sc \<longleftrightarrow>
     env_ok E \<and> state_inv (m_StateDB m) \<and> AddressInAccessList (c_self (sc_Contract sc)) (m_StateDB m) \<and>
     length (m_returnData m) < 2 ^ 63 \<and> scope_ok sc \<and> unat (c_Gas (sc_Contract sc)) < 2 ^ 63 \<and>
     run_rel (lasts (EmptyCodeHash (e_Keccak256 E))) run \<and> run_safe d run \<and> 1025 \<le> m_depth m + d"

definition exec_post ::
  "nat \<Rightarrow> nat \<Rightarrow> nat \<Rightarrow> ScopeContext \<Rightarrow> bytes \<times> vm_error option \<times> u64 \<times> QRVM \<times> ScopeContext \<Rightarrow> bool" where
  "exec_post pops push x sc = (\<lambda>(res, err, pc', m', sc').
     length res < 2 ^ 63 \<and> length (m_returnData m') < 2 ^ 63 \<and> mem_ok (sc_Memory sc') \<and>
     same_contract (sc_Contract sc) (sc_Contract sc') \<and>
     unat (c_Gas (sc_Contract sc')) \<le> unat (c_Gas (sc_Contract sc)) + x \<and>
     (err = None \<longrightarrow> length (sc_Stack sc') + pops = length (sc_Stack sc) + push))"

text \<open>\<open>Pre\<close> is what charging for the instruction has established, \<open>X\<close> the gas it may forward.\<close>

type_synonym exec_pre = "vm_env \<Rightarrow> QRVM \<Rightarrow> nat \<Rightarrow> stack \<Rightarrow> bool"

definition exec_safe :: "nat \<Rightarrow> nat \<Rightarrow> exec_pre \<Rightarrow> (QRVM \<Rightarrow> stack \<Rightarrow> nat) \<Rightarrow> executionFunc \<Rightarrow> bool" where
  "exec_safe pops push Pre X f \<longleftrightarrow>
     (\<forall>E d run pc m sc. ready E d run m sc \<longrightarrow> unat pc < length (c_Code (sc_Contract sc)) \<longrightarrow>
        pops \<le> length (sc_Stack sc) \<longrightarrow> Pre E m (length (store (sc_Memory sc))) (sc_Stack sc) \<longrightarrow>
        unat (c_Gas (sc_Contract sc)) + X m (sc_Stack sc) < 2 ^ 63 \<longrightarrow>
        fine (exec_post pops push (X m (sc_Stack sc)) sc) (f E run pc m sc))"

definition no_pre :: exec_pre where
  "no_pre E m n st \<longleftrightarrow> True"

definition no_gas :: "QRVM \<Rightarrow> stack \<Rightarrow> nat" where
  "no_gas m st = 0"

lemma exec_safeI:
  assumes "\<And>E d run pc m sc. ready E d run m sc \<Longrightarrow> env_ok E \<Longrightarrow> uint256 (e_U E) \<Longrightarrow> scope_ok sc \<Longrightarrow> mem_ok (sc_Memory sc) \<Longrightarrow>
        length (m_returnData m) < 2 ^ 63 \<Longrightarrow> unat pc < length (c_Code (sc_Contract sc)) \<Longrightarrow>
        pops \<le> length (sc_Stack sc) \<Longrightarrow> Pre E m (length (store (sc_Memory sc))) (sc_Stack sc) \<Longrightarrow>
        unat (c_Gas (sc_Contract sc)) + X m (sc_Stack sc) < 2 ^ 63 \<Longrightarrow>
        fine (exec_post pops push (X m (sc_Stack sc)) sc) (f E run pc m sc)"
  shows "exec_safe pops push Pre X f"
  unfolding exec_safe_def by (intro allI impI assms) (auto simp: ready_def env_ok_def scope_ok_def)

lemma exec_post_simp [simp]:
  "exec_post pops push x sc (res, err, pc', m', sc') \<longleftrightarrow>
     length res < 2 ^ 63 \<and> length (m_returnData m') < 2 ^ 63 \<and> mem_ok (sc_Memory sc') \<and>
     same_contract (sc_Contract sc) (sc_Contract sc') \<and>
     unat (c_Gas (sc_Contract sc')) \<le> unat (c_Gas (sc_Contract sc)) + x \<and>
     (err = None \<longrightarrow> length (sc_Stack sc') + pops = length (sc_Stack sc) + push)"
  by (simp add: exec_post_def)

lemma length_ge_Suc: "Suc n \<le> length xs \<longleftrightarrow> (\<exists>x ys. xs = x # ys \<and> n \<le> length ys)"
  by (rule Suc_le_length_iff)

lemma length_ge_numeral: "numeral k \<le> length xs \<longleftrightarrow> (\<exists>x ys. xs = x # ys \<and> pred_numeral k \<le> length ys)"
  unfolding numeral_eq_Suc by (rule Suc_le_length_iff)

lemma of_option_Some [simp]: "of_option p (Some x) = Ok x"
  by (simp add: of_option_def)

lemmas shapes = length_ge_Suc length_ge_numeral

subsection \<open>Stack, arithmetic and environment\<close>

lemma safe_pure:
  "exec_safe 1 1 no_pre no_gas (unop f)" "exec_safe 2 1 no_pre no_gas (binop g)" "exec_safe 3 1 no_pre no_gas (ternop h)"
  "exec_safe 0 1 no_pre no_gas (pushop k)"
  by (rule exec_safeI; auto simp: unop_def binop_def ternop_def pushop_def cont_def stack_push_def no_gas_def shapes)+

lemma safe_reads:
  "exec_safe 1 1 no_pre no_gas opBalance" "exec_safe 1 1 no_pre no_gas opExtCodeSize" "exec_safe 1 1 no_pre no_gas opExtCodeHash"
  "exec_safe 0 1 no_pre no_gas opSelfBalance" "exec_safe 1 1 no_pre no_gas opSload" "exec_safe 1 1 no_pre no_gas opBlockhash"
  "exec_safe 1 0 no_pre no_gas opPop" "exec_safe 2 0 no_pre no_gas opSstore"
  by (rule exec_safeI;
      auto simp: opBalance_def opExtCodeSize_def opExtCodeHash_def opSelfBalance_def opSload_def opBlockhash_def opPop_def
        opSstore_def pushop_def cont_def fail_def stack_push_def no_gas_def shapes case_prod_unfold Let_def)+

lemma safe_flow:
  "exec_safe 0 1 no_pre no_gas opRandom" "exec_safe 0 1 no_pre no_gas opBaseFee" "exec_safe 0 0 no_pre no_gas opJumpdest"
  "exec_safe 0 0 no_pre no_gas opUndefined" "exec_safe 0 0 no_pre no_gas opStop" "exec_safe 0 1 no_pre no_gas opPush1"
  by (rule exec_safeI;
      auto simp: opRandom_def opBaseFee_def opJumpdest_def opUndefined_def opStop_def opPush1_def env_ok_def
        pushop_def cont_def fail_def stack_push_def no_gas_def shapes case_prod_unfold Let_def)+

lemma safe_dup: "1 \<le> n \<Longrightarrow> exec_safe n (Suc n) no_pre no_gas (makeDup n)"
  by (rule exec_safeI) (auto simp: makeDup_def stack_dup_def stack_push_def cont_def no_gas_def)

lemma safe_swap: "exec_safe (n + 1) (n + 1) no_pre no_gas (makeSwap n)"
  by (rule exec_safeI) (auto simp: makeSwap_def stack_swap_def cont_def no_gas_def)

lemma safe_push: "exec_safe 0 1 no_pre no_gas (makePush sz n)"
proof (rule exec_safeI)
  fix E d run and m :: QRVM and pc :: u64 and sc :: ScopeContext
  assume a: "scope_ok sc" "unat pc < length (c_Code (sc_Contract sc))" "mem_ok (sc_Memory sc)" "length (m_returnData m) < 2 ^ 63"
  then have small: "unat pc + 1 < 2 ^ 63" by (simp add: scope_ok_def)
  then have "unat (pc + 1) = unat pc + 1" using u64_add[of pc 1] by simp
  then have "sint (pc + 1) = int (unat pc + 1)" using sint_u64[of "pc + 1"] small by simp
  then show "fine (exec_post 0 1 (no_gas m (sc_Stack sc)) sc) (makePush sz n E run pc m sc)"
    using a by (auto simp: makePush_def Let_def cont_def stack_push_def no_gas_def min_def not_less)
qed

subsection \<open>Memory\<close>

definition covered :: "nat \<Rightarrow> nat \<Rightarrow> exec_pre" where
  "covered i j E m n st \<longleftrightarrow> covers n (st ! i) (st ! j)"

definition covered_const :: "nat \<Rightarrow> u256 \<Rightarrow> exec_pre" where
  "covered_const i l E m n st \<longleftrightarrow> covers n (st ! i) l"

lemma max_memory_less: "max_memory < 2 ^ 63"
  by (simp add: max_memory_def)

lemma ptr_fine:
  assumes "uint256 U" "covers (length (store mem)) off l" "mem_ok mem"
  shows "fine (\<lambda>b. length b < 2 ^ 63) (get_ptr U off l mem)" "fine (\<lambda>b. length b < 2 ^ 63) (get_copy U off l mem)"
  using uint256.get_ptr_fine[OF assms] max_memory_less by (auto elim!: fine_mono)

lemma safe_keccak: "exec_safe 2 1 (covered 0 1) no_gas opKeccak256"
  by (rule exec_safeI)
    (auto simp: opKeccak256_def covered_def shapes cont_def no_gas_def Let_def intro!: fine_bind[OF ptr_fine(1)])

lemma safe_return: "exec_safe 2 0 (covered 0 1) no_gas opReturn" "exec_safe 2 0 (covered 0 1) no_gas opRevert"
  by (rule exec_safeI;
      auto simp: opReturn_def opRevert_def covered_def shapes cont_def no_gas_def Let_def intro!: fine_bind[OF ptr_fine(1)])+

lemma safe_log: "exec_safe (n + 2) 0 (covered 0 1) no_gas (makeLog n)"
  by (rule exec_safeI)
    (auto simp: makeLog_def covered_def shapes cont_def fail_def no_gas_def Let_def intro!: fine_bind[OF ptr_fine(2)])

lemma safe_mload: "exec_safe 1 1 (covered_const 0 32) no_gas opMload"
proof (rule exec_safeI)
  fix E d run pc m and sc :: ScopeContext
  assume a: "uint256 (e_U E)" "mem_ok (sc_Memory sc)" "1 \<le> length (sc_Stack sc)" "length (m_returnData m) < 2 ^ 63"
    "covered_const 0 32 E m (length (store (sc_Memory sc))) (sc_Stack sc)"
  obtain v st where st: "sc_Stack sc = v # st" using a(3) by (auto simp: shapes)
  have "u_Uint64 (e_U E) 32 = 32" using uint256.Uint64[OF a(1)] by simp
  then obtain b where "mem_GetPtr (sint (u_Uint64 (e_U E) v)) 32 (sc_Memory sc) = Some b"
    using uint256.mem_GetPtr_covers[OF a(1) _ a(2), of v 32] a(5) st by (auto simp: covered_const_def)
  then show "fine (exec_post 1 1 (no_gas m (sc_Stack sc)) sc) (opMload E run pc m sc)"
    using a st by (simp add: opMload_def cont_def no_gas_def)
qed

lemma safe_mstore: "exec_safe 2 0 (covered_const 0 32) no_gas opMstore"
proof (rule exec_safeI)
  fix E d run pc m and sc :: ScopeContext
  assume a: "uint256 (e_U E)" "mem_ok (sc_Memory sc)" "2 \<le> length (sc_Stack sc)" "length (m_returnData m) < 2 ^ 63"
    "covered_const 0 32 E m (length (store (sc_Memory sc))) (sc_Stack sc)"
  obtain v w st where st: "sc_Stack sc = v # w # st" using a(3) by (auto simp: shapes)
  then obtain mem where "mem_Set32 (e_U E) (u_Uint64 (e_U E) v) w (sc_Memory sc) = Some mem" "same_size (sc_Memory sc) mem"
    using uint256.mem_Set32_covers[OF a(1) _ a(2), of v w] a(5) by (auto simp: covered_const_def)
  then show "fine (exec_post 2 0 (no_gas m (sc_Stack sc)) sc) (opMstore E run pc m sc)"
    using a st mem_ok_same_size[OF a(2)] by (simp add: opMstore_def cont_def no_gas_def)
qed

lemma safe_mstore8: "exec_safe 2 0 (covered_const 0 1) no_gas opMstore8"
proof (rule exec_safeI)
  fix E d run pc m and sc :: ScopeContext
  assume a: "uint256 (e_U E)" "mem_ok (sc_Memory sc)" "2 \<le> length (sc_Stack sc)" "length (m_returnData m) < 2 ^ 63"
    "covered_const 0 1 E m (length (store (sc_Memory sc))) (sc_Stack sc)"
  obtain v w st where st: "sc_Stack sc = v # w # st" using a(3) by (auto simp: shapes)
  have c: "covers (length (store (sc_Memory sc))) v 1" using a(5) st by (simp add: covered_const_def)
  have "unat (u_Uint64 (e_U E) v) < length (store (sc_Memory sc))"
    using uint256.covers_u64[OF a(1) c] a(2) by (simp add: mem_ok_def)
  then show "fine (exec_post 2 0 (no_gas m (sc_Stack sc)) sc) (opMstore8 E run pc m sc)"
    using a st mem_ok_same_size[OF a(2)] by (simp add: opMstore8_def cont_def no_gas_def Let_def same_size_def)
qed

lemma safe_calldataload: "exec_safe 1 1 no_pre no_gas opCallDataLoad"
  by (rule exec_safeI)
    (auto simp: opCallDataLoad_def scope_ok_def shapes cont_def no_gas_def Let_def case_prod_unfold intro!: fine_bind[OF get_data_fine])

lemma copy_data_fine:
  assumes "uint256 U" "covers (length (store mem)) off len" "mem_ok mem" "length data < 2 ^ 63"
  shows "fine (same_size mem) (copy_data U data off dataOff len mem)"
proof -
  have "unat (u_Uint64 U len) < 2 ^ 63"
  proof (cases "len = 0")
    case False
    then show ?thesis using uint256.covers_u64[OF assms(1,2) False] assms(3) max_memory_less by (simp add: mem_ok_def)
  qed (simp add: uint256.u64_zero[OF assms(1)])
  moreover have "fine (same_size mem) (of_option PanicMemory (mem_Set (u_Uint64 U off) (u_Uint64 U len) b mem))" for b
    using uint256.mem_Set_covers[OF assms(1-3), of b] by auto
  ultimately show ?thesis
    unfolding copy_data_def Let_def case_prod_unfold by (intro fine_bind[OF get_data_fine[OF assms(4)]])
qed

lemma safe_copy: "exec_safe 3 0 (covered 0 2) no_gas opCallDataCopy" "exec_safe 3 0 (covered 0 2) no_gas opCodeCopy"
  by (rule exec_safeI;
      auto simp: opCallDataCopy_def opCodeCopy_def covered_def scope_ok_def shapes cont_def no_gas_def
        intro!: fine_bind[OF copy_data_fine] elim!: mem_ok_same_size[rotated])+

lemma safe_extcodecopy: "exec_safe 4 0 (covered 1 3) no_gas opExtCodeCopy"
  by (rule exec_safeI)
    (auto simp: opExtCodeCopy_def covered_def shapes cont_def no_gas_def case_prod_unfold Let_def ready_def
        intro!: fine_bind[OF copy_data_fine] code_length elim!: mem_ok_same_size[rotated])

lemma safe_returndatacopy: "exec_safe 3 0 (covered 0 2) no_gas opReturnDataCopy"
proof (rule exec_safeI)
  fix E d run pc m and sc :: ScopeContext
  assume a: "uint256 (e_U E)" "mem_ok (sc_Memory sc)" "3 \<le> length (sc_Stack sc)" "length (m_returnData m) < 2 ^ 63"
    "covered 0 2 E m (length (store (sc_Memory sc))) (sc_Stack sc)"
  let ?U = "e_U E"
  obtain x y z st where st: "sc_Stack sc = x # y # z # st" using a(3) by (auto simp: shapes)
  have c: "covers (length (store (sc_Memory sc))) x z" using a(5) st by (simp add: covered_def)
  have set: "fine mem_ok (of_option PanicMemory (mem_Set (u_Uint64 ?U x) (u_Uint64 ?U z) b (sc_Memory sc)))" for b
    using uint256.mem_Set_covers[OF a(1) c a(2), of b] mem_ok_same_size[OF a(2)] by auto
  have order: "\<not> (ucast (y + z) :: u64) < ucast y" if "unat y < 2 ^ 64" "unat (y + z) < 2 ^ 64"
  proof -
    have "unat z < 2 ^ 64" using c by (simp add: covers_def)
    then have "unat y + unat z < 2 ^ 256" using that(1) by simp
    then have "unat (y + z) = unat y + unat z" by (simp add: unat_word_ariths)
    moreover have "unat (ucast w :: u64) = unat w" if "unat w < 2 ^ 64" for w :: u256
      using that by (simp add: unsigned_ucast_eq take_bit_nat_eq_self)
    ultimately show ?thesis using that by (simp add: u64_less)
  qed
  show "fine (exec_post 3 0 (no_gas m (sc_Stack sc)) sc) (opReturnDataCopy E run pc m sc)"
    using a(2,4) st order
    by (auto simp: opReturnDataCopy_def Let_def uint256.Uint64WithOverflow[OF a(1)] uint256.Add[OF a(1)] cont_def fail_def no_gas_def
        intro!: fine_bind[OF set])
qed

subsection \<open>Jumps\<close>

lemma code_segment_fine: "fine (\<lambda>_. True) (code_segment bits p)"
  by (simp add: code_segment_def fine_of_option split: option.split)

lemma isCode_fine:
  "fine (\<lambda>(b, c', m'). same_contract c c' \<and> c_Gas c' = c_Gas c \<and> m_returnData m' = m_returnData m) (isCode p c m)"
  using codeBitmap_marks[of "c_Code c"]
  by (auto simp: isCode_def same_contract_def intro!: fine_bind[OF code_segment_fine] split: option.split)

lemma jump_to_fine:
  "fine (\<lambda>(res, err, pc', m', sc'). res = [] \<and> m_returnData m' = m_returnData m \<and> sc_Memory sc' = sc_Memory sc \<and>
     sc_Stack sc' = sc_Stack sc \<and> same_contract (sc_Contract sc) (sc_Contract sc') \<and> c_Gas (sc_Contract sc') = c_Gas (sc_Contract sc))
     (jump_to pos E pc m sc)"
proof -
  have "fine (\<lambda>(b, c', m'). same_contract (sc_Contract sc) c' \<and> c_Gas c' = c_Gas (sc_Contract sc) \<and> m_returnData m' = m_returnData m)
     (validJumpdest (e_U E) pos (sc_Contract sc) m)"
    using isCode_fine by (auto simp: validJumpdest_def Let_def case_prod_unfold)
  then show ?thesis unfolding jump_to_def by (rule fine_bind) (auto simp: Let_def fail_def cont_def)
qed

lemma safe_jump: "exec_safe 1 0 no_pre no_gas opJump" "exec_safe 2 0 no_pre no_gas opJumpi"
  by (rule exec_safeI;
      auto simp: opJump_def opJumpi_def load_abort_def Let_def fail_def cont_def no_gas_def shapes intro!: fine_mono[OF jump_to_fine])+

subsection \<open>Creating and calling contracts\<close>

lemma ready_calls:
  "ready E d run m sc \<Longrightarrow> length input < 2 ^ 63 \<Longrightarrow> unat gas < 2 ^ 63 \<Longrightarrow>
   calls_ok (EmptyCodeHash (e_Keccak256 E)) d run m input gas"
  by (simp add: ready_def calls_ok_def)

lemma ready_warm: "ready E d run m sc \<Longrightarrow> AddressInAccessList (c_self (sc_Contract sc)) (m_StateDB m)"
  by (simp add: ready_def)

text \<open>Gas comes back to a contract that has paid for it.\<close>

lemma gas_back:
  assumes "unat (c_Gas c) + x < 2 ^ 63" "unat g \<le> x"
  shows "unat (c_Gas c + g) = unat (c_Gas c) + unat g"
  using assms by (intro u64_add) simp

lemma after_create_post:
  assumes "create_ok gas r" "unat (c_Gas c) + unat gas \<le> unat (c_Gas (sc_Contract sc))" "unat (c_Gas (sc_Contract sc)) < 2 ^ 63"
    "same_contract (sc_Contract sc) c" "mem_ok (sc_Memory sc)" "length st + pops = length (sc_Stack sc)"
  shows "fine (exec_post pops (Suc 0) 0 sc) (after_create pc st c sc E r)"
proof -
  obtain ret a g err m where r: "r = (ret, a, g, err, m)" by (cases r)
  have g: "unat g \<le> unat gas" "length ret < 2 ^ 63" using assms(1) by (simp_all add: r create_ok_def)
  have "unat (c_Gas c + g) = unat (c_Gas c) + unat g" using assms(2,3) g by (intro gas_back[where x = "unat gas"]) simp_all
  then show ?thesis using assms g by (auto simp: r after_create_def Let_def stack_push_def same_contract_def)
qed

lemma create_gas:
  fixes c :: Contract
  defines "gas \<equiv> c_Gas c - c_Gas c div 64"
  shows "unat (c_Gas (snd (UseGas gas c))) + unat gas = unat (c_Gas c)" "same_contract c (snd (UseGas gas c))"
proof -
  have g: "unat gas = unat (c_Gas c) - unat (c_Gas c) div 64" unfolding gas_def by (subst u64_sub) (simp_all add: unat_div)
  then have "\<not> c_Gas c < gas" "unat (c_Gas c - gas) = unat (c_Gas c) - unat gas" by (simp_all add: u64_less u64_sub)
  then show "unat (c_Gas (snd (UseGas gas c))) + unat gas = unat (c_Gas c)" "same_contract c (snd (UseGas gas c))"
    using g by (simp_all add: UseGas_def)
qed

lemma safe_create: "exec_safe 3 1 (covered 1 2) no_gas opCreate" "exec_safe 4 1 (covered 1 2) no_gas opCreate2"
proof -
  have gas: "unat (c_Gas c - c_Gas c div 64) < 2 ^ 63" if "unat (c_Gas c) < 2 ^ 63" for c :: Contract
    using that create_gas(1)[of c] by simp
  show "exec_safe 3 1 (covered 1 2) no_gas opCreate"
    by (rule exec_safeI)
      (auto simp: opCreate_def covered_def shapes fail_def no_gas_def Let_def create_gas
        intro!: fine_bind[OF ptr_fine(2)] fine_bind[OF Create_fine[OF HOL.refl ready_calls]] gas after_create_post)
  show "exec_safe 4 1 (covered 1 2) no_gas opCreate2"
    by (rule exec_safeI)
      (auto simp: opCreate2_def covered_def shapes fail_def no_gas_def Let_def create_gas
        intro!: fine_bind[OF ptr_fine(2)] fine_bind[OF Create2_fine[OF HOL.refl ready_calls]] gas after_create_post)
qed

lemma after_call_post:
  assumes "call_ok gas r" "unat (c_Gas (sc_Contract sc)) + unat gas < 2 ^ 63"
    "uint256 (e_U E)" "covers (length (store (sc_Memory sc))) off l" "mem_ok (sc_Memory sc)" "length st + pops = length (sc_Stack sc)"
  shows "fine (exec_post pops (Suc 0) (unat gas) sc) (after_call pc st off l sc E r)"
proof -
  obtain ret g err m where r: "r = (ret, g, err, m)" by (cases r)
  have g: "unat g \<le> unat gas" "length ret < 2 ^ 63" using assms(1) by (simp_all add: r call_ok_def)
  have set: "fine mem_ok (if err = None \<or> err = Some ErrExecutionReverted
      then of_option PanicMemory (mem_Set (u_Uint64 (e_U E) off) (u_Uint64 (e_U E) l) ret (sc_Memory sc)) else Ok (sc_Memory sc))"
    using uint256.mem_Set_covers[OF assms(3-5), of ret] mem_ok_same_size[OF assms(5)] assms(5) by auto
  have "unat (c_Gas (sc_Contract sc) + g) = unat (c_Gas (sc_Contract sc)) + unat g" by (rule gas_back[OF assms(2) g(1)])
  then show ?thesis
    unfolding r after_call_def Let_def prod.case by (intro fine_bind[OF set]) (use assms(6) g in \<open>auto simp: stack_push_def\<close>)
qed

definition callee_warm :: exec_pre where
  "callee_warm E m n st \<longleftrightarrow> AddressInAccessList (u_Bytes20 (e_U E) (st ! 1)) (m_StateDB m)"

definition both :: "exec_pre \<Rightarrow> exec_pre \<Rightarrow> exec_pre" where
  "both P Q E m n st \<longleftrightarrow> P E m n st \<and> Q E m n st"

definition forwarded :: "QRVM \<Rightarrow> stack \<Rightarrow> nat" where
  "forwarded m st = unat (m_callGasTemp m)"

text \<open>A call with a value has a stipend on top of what is forwarded.\<close>

definition forwarded_value :: "QRVM \<Rightarrow> stack \<Rightarrow> nat" where
  "forwarded_value m st = unat (m_callGasTemp m) + (if st ! 2 \<noteq> 0 then 2300 else 0)"

lemma safe_delegate: "exec_safe 6 1 (both (covered 4 5) (both (covered 2 3) callee_warm)) forwarded opDelegateCall"
  by (rule exec_safeI)
    (auto simp: opDelegateCall_def both_def covered_def shapes forwarded_def callee_warm_def
      intro!: fine_bind[OF ptr_fine(1)] fine_bind[OF DelegateCall_fine[OF ready_calls ready_warm]] after_call_post)

lemma safe_static: "exec_safe 6 1 (both (covered 4 5) (both (covered 2 3) callee_warm)) forwarded opStaticCall"
  by (rule exec_safeI)
    (auto simp: opStaticCall_def both_def covered_def shapes forwarded_def callee_warm_def
      intro!: fine_bind[OF ptr_fine(1)] fine_bind[OF StaticCall_fine[OF ready_calls]] after_call_post)

lemma safe_call: "exec_safe 7 1 (both (covered 5 6) (both (covered 3 4) callee_warm)) forwarded_value opCall"
proof (rule exec_safeI)
  fix E d run pc and m :: QRVM and sc :: ScopeContext
  assume a: "ready E d run m sc" "uint256 (e_U E)" "mem_ok (sc_Memory sc)" "7 \<le> length (sc_Stack sc)" "length (m_returnData m) < 2 ^ 63"
    "both (covered 5 6) (both (covered 3 4) callee_warm) E m (length (store (sc_Memory sc))) (sc_Stack sc)"
    "unat (c_Gas (sc_Contract sc)) + forwarded_value m (sc_Stack sc) < 2 ^ 63"
  obtain x0 x1 x2 x3 x4 x5 x6 st where st: "sc_Stack sc = x0 # x1 # x2 # x3 # x4 # x5 # x6 # st"
    using a(4) by (auto simp: shapes)
  define gas where "gas = (if \<not> u_IsZero (e_U E) x2 then m_callGasTemp m + CallStipend else m_callGasTemp m)"
  have gas: "unat gas = forwarded_value m (sc_Stack sc)"
    using a(7) uint256.IsZero[OF a(2)] u64_add[of "m_callGasTemp m" CallStipend] by (auto simp: gas_def forwarded_value_def st)
  have pre: "covers (length (store (sc_Memory sc))) x5 x6" "covers (length (store (sc_Memory sc))) x3 x4"
    "AddressInAccessList (u_Bytes20 (e_U E) x1) (m_StateDB m)"
    using a(6) by (simp_all add: both_def covered_def callee_warm_def st)
  have call: "fine (exec_post 7 (Suc 0) (unat gas) sc)
      (bind_outcome (Call E run (ContractOf (sc_Contract sc)) (u_Bytes20 (e_U E) x1) args gas v m) (after_call pc st x5 x6 sc E))"
    if "length args < 2 ^ 63" for args v
  proof (rule fine_bind)
    show "fine (call_ok gas) (Call E run (ContractOf (sc_Contract sc)) (u_Bytes20 (e_U E) x1) args gas v m)"
      using a(7) gas that by (intro Call_fine[OF ready_calls[OF a(1)] pre(3)]) simp_all
    fix r assume "call_ok gas r"
    then show "fine (exec_post 7 (Suc 0) (unat gas) sc) (after_call pc st x5 x6 sc E r)"
      using a(7) unfolding gas[symmetric] by (rule after_call_post[OF _ _ a(2) pre(1) a(3)]) (simp add: st)
  qed
  have "fine (exec_post 7 (Suc 0) (unat gas) sc) (opCall E run pc m sc)"
    unfolding opCall_def st list.case Let_def gas_def[symmetric]
    by (intro fine_bind[OF ptr_fine(1)[OF a(2) pre(2) a(3)]]) (use call a(3,5) in \<open>auto simp: fail_def\<close>)
  then show "fine (exec_post 7 1 (forwarded_value m (sc_Stack sc)) sc) (opCall E run pc m sc)" by (simp add: gas)
qed

end
