(* ===== verification/VMSafety.thy ===== *)
theory VMSafety
  imports VMExecSafe
begin

text \<open>
  The interpreter (\<open>src/core/vm/interpreter.go\<close>) comes to an end, does not panic, keeps the stack within
  its limit, and never returns more gas than it was given. Every round that goes on costs gas, so the gas
  of the contract bounds the number of rounds; the limit on the depth of calls bounds the recursion.
\<close>

definition step_with ::
  "operation \<Rightarrow> vm_env \<Rightarrow> runner \<Rightarrow> u64 \<Rightarrow> QRVM \<Rightarrow> ScopeContext \<Rightarrow> (run_result + (u64 \<times> QRVM \<times> ScopeContext)) outcome" where
  "step_with o' E run pc m sc =
     (let c = sc_Contract sc; sLen = length (sc_Stack sc) in
      if sLen < op_minStack o' then Ok (Inl ([], Some (ErrStackUnderflow sLen (op_minStack o')), c, m))
      else if sLen > op_maxStack o' then Ok (Inl ([], Some (ErrStackOverflow sLen (op_maxStack o')), c, m))
      else
        let (ok, c1) = UseGas (op_constantGas o') c in
        if \<not> ok then Ok (Inl ([], Some ErrOutOfGas, c1, m))
        else
          bind_outcome (charge_dynamic E o' m c1 (sc_Stack sc) (sc_Memory sc)) (\<lambda>r.
            case r of
              Inl (err, m2, c2) \<Rightarrow> Ok (Inl ([], Some err, c2, m2))
            | Inr (m2, c2, mem2) \<Rightarrow>
                bind_outcome (op_execute o' E run pc m2 (sc\<lparr>sc_Contract := c2, sc_Memory := mem2\<rparr>))
                  (\<lambda>(res, err, pc', m', sc').
                     case err of
                       Some e \<Rightarrow> Ok (Inl (res, if e = errStopToken then None else Some e, sc_Contract sc', m'))
                     | None \<Rightarrow> Ok (Inr (pc' + 1, m', sc')))))"

lemma step_eq: "step E run pc m sc = step_with (newZondInstructionSet (GetOp pc (sc_Contract sc))) E run pc m sc"
  by (simp add: step_def step_with_def Let_def)

definition step_post :: "ScopeContext \<Rightarrow> run_result + (u64 \<times> QRVM \<times> ScopeContext) \<Rightarrow> bool" where
  "step_post sc r =
     (case r of
        Inl (ret, err, c', m') \<Rightarrow> length ret < 2 ^ 63 \<and> unat (c_Gas c') \<le> unat (c_Gas (sc_Contract sc))
      | Inr (pc', m', sc') \<Rightarrow>
          scope_ok sc' \<and> length (m_returnData m') < 2 ^ 63 \<and> same_contract (sc_Contract sc) (sc_Contract sc') \<and>
          unat (c_Gas (sc_Contract sc')) < unat (c_Gas (sc_Contract sc)) \<and> length (sc_Stack sc') \<le> 1024)"

definition op_safe :: "operation \<Rightarrow> bool" where
  "op_safe o' \<longleftrightarrow>
     (\<forall>E d run pc m sc. op_rel (EmptyCodeHash (e_Keccak256 E)) (lasts (EmptyCodeHash (e_Keccak256 E))) o' \<longrightarrow>
        ready E d run m sc \<longrightarrow> unat pc < length (c_Code (sc_Contract sc)) \<longrightarrow>
        fine (step_post sc) (step_with o' E run pc m sc))"

text \<open>Instructions that end the run.\<close>

definition stops :: "executionFunc \<Rightarrow> bool" where
  "stops f \<longleftrightarrow> (\<forall>E run pc m sc res pc' m' sc'. f E run pc m sc \<noteq> Ok (res, None, pc', m', sc'))"

lemma stops_all: "stops opStop" "stops opUndefined" "stops opReturn" "stops opRevert"
  by (auto simp: stops_def opStop_def opUndefined_def opReturn_def opRevert_def fail_def Let_def split: list.splits if_splits elim!: bind_OkE)

lemma after_exec:
  assumes exec: "fine (exec_post pops push x sc2) (f E run pc m2 sc2)"
    and gas: "unat (c_Gas (sc_Contract sc2)) + x \<le> unat (c_Gas (sc_Contract sc))"
      "stops f \<or> unat (c_Gas (sc_Contract sc2)) + x < unat (c_Gas (sc_Contract sc))"
    and sc: "same_contract (sc_Contract sc) (sc_Contract sc2)" "sc_Stack sc2 = sc_Stack sc" "scope_ok sc"
    and stack: "length (sc_Stack sc) + push \<le> 1024 + pops"
  shows "fine (step_post sc) (bind_outcome (f E run pc m2 sc2) (\<lambda>(res, err, pc', m', sc').
     case err of
       Some e \<Rightarrow> Ok (Inl (res, if e = errStopToken then None else Some e, sc_Contract sc', m'))
     | None \<Rightarrow> Ok (Inr (pc' + 1, m', sc'))))"
proof (rule fine_bind[OF exec])
  fix y assume y: "f E run pc m2 sc2 = Ok y" "exec_post pops push x sc2 y"
  obtain res err pc' m' sc' where y': "y = (res, err, pc', m', sc')" by (cases y)
  show "fine (step_post sc) (case y of (res, err, pc', m', sc') \<Rightarrow> (case err of
       Some e \<Rightarrow> Ok (Inl (res, if e = errStopToken then None else Some e, sc_Contract sc', m'))
     | None \<Rightarrow> Ok (Inr (pc' + 1, m', sc'))))"
  proof (cases err)
    case None
    then have "\<not> stops f" using y(1) unfolding y' stops_def by blast
    then show ?thesis using y(2) gas sc stack None
      by (auto simp: y' step_post_def scope_ok_def same_contract_def)
  next
    case (Some e)
    then show ?thesis using y(2) gas by (auto simp: y' step_post_def)
  qed
qed

text \<open>Paying the constant price.\<close>

lemma constant_gas:
  assumes "\<not> c_Gas c < g"
  shows "UseGas g c = (True, c\<lparr>c_Gas := c_Gas c - g\<rparr>)" "unat (c_Gas c - g) + unat g = unat (c_Gas c)"
  using assms by (simp_all add: UseGas_def u64_less u64_sub)

lemma ready_contract:
  assumes "ready E d run m sc" "same_contract (sc_Contract sc) c" "unat (c_Gas c) \<le> unat (c_Gas (sc_Contract sc))"
  shows "ready E d run m (sc\<lparr>sc_Contract := c\<rparr>)"
  using assms by (simp add: ready_def scope_ok_def same_contract_def)

text \<open>Charging: what it leaves for the execution.\<close>

definition charge_post ::
  "vm_env \<Rightarrow> nat \<Rightarrow> runner \<Rightarrow> ScopeContext \<Rightarrow> exec_pre \<Rightarrow> (QRVM \<Rightarrow> stack \<Rightarrow> nat) \<Rightarrow> bool \<Rightarrow>
   (vm_error \<times> QRVM \<times> Contract) + (QRVM \<times> Contract \<times> Memory) \<Rightarrow> bool" where
  "charge_post E d run sc Pre X strict r =
     (case r of
        Inl (err, m2, c2) \<Rightarrow> unat (c_Gas c2) \<le> unat (c_Gas (sc_Contract sc))
      | Inr (m2, c2, mem2) \<Rightarrow>
          ready E d run m2 (sc\<lparr>sc_Contract := c2, sc_Memory := mem2\<rparr>) \<and> same_contract (sc_Contract sc) c2 \<and>
          Pre E m2 (length (store mem2)) (sc_Stack sc) \<and>
          unat (c_Gas c2) + X m2 (sc_Stack sc) \<le> unat (c_Gas (sc_Contract sc)) \<and>
          (strict \<longrightarrow> unat (c_Gas c2) + X m2 (sc_Stack sc) < unat (c_Gas (sc_Contract sc))))"

definition charge_safe :: "nat \<Rightarrow> exec_pre \<Rightarrow> (QRVM \<Rightarrow> stack \<Rightarrow> nat) \<Rightarrow> bool \<Rightarrow> operation \<Rightarrow> bool" where
  "charge_safe pops Pre X strict o' \<longleftrightarrow>
     (\<forall>E d run m sc. op_rel (EmptyCodeHash (e_Keccak256 E)) (lasts (EmptyCodeHash (e_Keccak256 E))) o' \<longrightarrow>
        ready E d run m sc \<longrightarrow> pops \<le> length (sc_Stack sc) \<longrightarrow>
        fine (charge_post E d run sc Pre X strict) (charge_dynamic E o' m (sc_Contract sc) (sc_Stack sc) (sc_Memory sc)))"

lemma same_contract_trans: "same_contract a b \<Longrightarrow> same_contract b c \<Longrightarrow> same_contract a c"
  by (simp add: same_contract_def)

lemma op_safeI:
  assumes charge: "charge_safe pops Pre X strict o'" and exec: "exec_safe pops push Pre X (op_execute o')"
    and stack: "op_minStack o' = pops" "op_maxStack o' = 1024 + pops - push" "push \<le> 1024 + pops"
    and progress: "stops (op_execute o') \<or> 0 < unat (op_constantGas o') \<or> strict"
  shows "op_safe o'"
  unfolding op_safe_def
proof (intro allI impI)
  fix E d run and pc :: u64 and m :: QRVM and sc :: ScopeContext
  assume rel: "op_rel (EmptyCodeHash (e_Keccak256 E)) (lasts (EmptyCodeHash (e_Keccak256 E))) o'"
    and r: "ready E d run m sc" "unat pc < length (c_Code (sc_Contract sc))"
  define c where "c = sc_Contract sc"
  define c1 where "c1 = c\<lparr>c_Gas := c_Gas c - op_constantGas o'\<rparr>"
  define sc1 where "sc1 = sc\<lparr>sc_Contract := c1\<rparr>"
  show "fine (step_post sc) (step_with o' E run pc m sc)"
  proof (cases "c_Gas c < op_constantGas o' \<or> length (sc_Stack sc) < pops \<or> 1024 + pops - push < length (sc_Stack sc)")
    case True
    then show ?thesis using stack(1,2) by (auto simp: step_with_def c_def Let_def UseGas_def step_post_def)
  next
    case False
    then have g: "UseGas (op_constantGas o') c = (True, c1)" "unat (c_Gas c1) + unat (op_constantGas o') = unat (c_Gas c)"
      unfolding c1_def using constant_gas[of c "op_constantGas o'"] by simp_all
    have same: "same_contract c c1" by (simp add: c1_def)
    have r1: "ready E d run m sc1"
      unfolding sc1_def by (rule ready_contract[OF r(1)]) (use same g(2) in \<open>simp_all add: c_def\<close>)
    have "fine (charge_post E d run sc1 Pre X strict) (charge_dynamic E o' m c1 (sc_Stack sc) (sc_Memory sc))"
      using charge rel r1 False unfolding charge_safe_def sc1_def by force
    then have "fine (step_post sc) (bind_outcome (charge_dynamic E o' m c1 (sc_Stack sc) (sc_Memory sc)) (\<lambda>r.
            case r of
              Inl (err, m2, c2) \<Rightarrow> Ok (Inl ([], Some err, c2, m2))
            | Inr (m2, c2, mem2) \<Rightarrow>
                bind_outcome (op_execute o' E run pc m2 (sc\<lparr>sc_Contract := c2, sc_Memory := mem2\<rparr>))
                  (\<lambda>(res, err, pc', m', sc').
                     case err of
                       Some e \<Rightarrow> Ok (Inl (res, if e = errStopToken then None else Some e, sc_Contract sc', m'))
                     | None \<Rightarrow> Ok (Inr (pc' + 1, m', sc')))))"
    proof (rule fine_bind, goal_cases)
      case (1 y)
      show ?case
      proof (cases y)
        case (Inl a)
        obtain err m2 c2 where "a = (err, m2, c2)" by (cases a)
        then show ?thesis using 1(2) g(2) Inl by (simp add: charge_post_def step_post_def sc1_def c_def)
      next
        case (Inr b)
        obtain m2 c2 mem2 where b: "b = (m2, c2, mem2)" by (cases b)
        let ?sc2 = "sc\<lparr>sc_Contract := c2, sc_Memory := mem2\<rparr>"
        have post: "ready E d run m2 ?sc2" "same_contract c1 c2" "Pre E m2 (length (store mem2)) (sc_Stack sc)"
          "unat (c_Gas c2) + X m2 (sc_Stack sc) \<le> unat (c_Gas c1)"
          "strict \<longrightarrow> unat (c_Gas c2) + X m2 (sc_Stack sc) < unat (c_Gas c1)"
          using 1(2) by (simp_all add: charge_post_def Inr b sc1_def)
        have code: "c_Code c2 = c_Code (sc_Contract sc)" using post(2) same by (simp add: same_contract_def c_def)
        have lim: "unat (c_Gas c2) + X m2 (sc_Stack sc) < 2 ^ 63" using post(4) g(2) r(1) by (simp add: ready_def c_def)
        have "fine (exec_post pops push (X m2 (sc_Stack ?sc2)) ?sc2) (op_execute o' E run pc m2 ?sc2)"
          using exec[unfolded exec_safe_def, rule_format, of E d run m2 ?sc2 pc] post(1,3) r(2) code lim False by simp
        then show ?thesis unfolding Inr b sum.case prod.case
          by (rule after_exec)
            (use post(4,5) g(2) r(1) False stack(3) progress same_contract_trans[OF same post(2)] in
              \<open>auto simp: ready_def c_def\<close>)
      qed
    qed
    then show ?thesis
      using False g(1) stack(1,2) by (simp add: step_with_def Let_def c_def)
  qed
qed

subsection \<open>Charging\<close>

lemma const_charge: "op_dynamicGas o' = None \<Longrightarrow> charge_safe pops no_pre no_gas False o'"
  by (auto simp: charge_safe_def charge_dynamic_def charge_post_def no_pre_def no_gas_def)

definition charged ::
  "bool \<Rightarrow> u64 \<Rightarrow> (QRVM \<Rightarrow> nat \<Rightarrow> bool) \<Rightarrow> QRVM \<Rightarrow> Contract \<Rightarrow> (vm_error \<times> QRVM \<times> Contract) + (QRVM \<times> Contract \<times> Memory) \<Rightarrow> bool" where
  "charged mm sz B m c r =
     (case r of
        Inl (err, m2, c2) \<Rightarrow> unat (c_Gas c2) \<le> unat (c_Gas c)
      | Inr (m2, c2, mem2) \<Rightarrow>
          m_returnData m2 = m_returnData m \<and> same_contract c c2 \<and> mem_ok mem2 \<and> (mm \<longrightarrow> unat sz \<le> length (store mem2)) \<and>
          (\<exists>cost. unat (c_Gas c2) + cost = unat (c_Gas c) \<and> B m2 cost))"

lemma charge_raw:
  assumes "needed_memory E o' st = Ok (Inr sz)" "op_dynamicGas o' = Some g" "gas_safe k mm B g" "k \<le> length st"
    "32 dvd unat sz" "\<not> mm \<longrightarrow> sz = 0" "env_ok E" "state_inv (m_StateDB m)" "AddressInAccessList (c_self c) (m_StateDB m)"
    "mem_ok mem" "unat (c_Gas c) < 2 ^ 63"
  shows "fine (charged mm sz (\<lambda>m1. B E m1 st) m c) (charge_dynamic E o' m c st mem)"
proof -
  have "fine (gas_post mm (\<lambda>m1. B E m1 st) m c mem sz) (g E m c st mem sz)"
    using assms unfolding gas_safe_def by blast
  then have "fine (charged mm sz (\<lambda>m1. B E m1 st) m c) (bind_outcome (g E m c st mem sz) (\<lambda>(r, m1, c1, mem1).
      case r of
        Inl err \<Rightarrow> Ok (Inl (ErrOutOfGas, m1, c1))
      | Inr dynamicCost \<Rightarrow>
          let (ok, c2) = UseGas dynamicCost c1 in
          if \<not> ok then Ok (Inl (ErrOutOfGas, m1, c2))
          else Ok (Inr (m1, c2, if sz > 0 then mem_Resize sz mem1 else mem1))))"
  proof (rule fine_bind, goal_cases)
    case (1 y)
    obtain r m1 c1 mem1 where y: "y = (r, m1, c1, mem1)" by (cases y)
    show ?case
    proof (cases r)
      case (Inr cost)
      have p: "m_returnData m1 = m_returnData m" "same_contract c c1" "c_Gas c1 = c_Gas c" "B E m1 st (unat cost)"
        "if mm then \<exists>fee. memoryGasCost mem sz = (Inr fee, mem1) else mem1 = mem"
        using 1(2) by (simp_all add: y Inr gas_post_def)
      have mem: "mem_ok (if sz > 0 then mem_Resize sz mem1 else mem1) \<and>
          (mm \<longrightarrow> unat sz \<le> length (store (if sz > 0 then mem_Resize sz mem1 else mem1)))"
      proof (cases mm)
        case True
        then obtain fee where "memoryGasCost mem sz = (Inr fee, mem1)" using p(5) by auto
        from mem_ok_Resize[OF assms(10) this assms(5)] show ?thesis by blast
      next
        case False
        then show ?thesis using p(5) assms(6,10) by simp
      qed
      show ?thesis
      proof (cases "c_Gas c1 < cost")
        case True
        then show ?thesis using p(3) by (simp add: y Inr UseGas_def charged_def)
      next
        case False
        have "unat (c_Gas c - cost) + unat cost = unat (c_Gas c)" using constant_gas(2)[OF False] p(3) by simp
        then show ?thesis using False p(1-4) mem constant_gas(1)[OF False]
          by (auto simp: y Inr charged_def same_contract_def)
      qed
    qed (use 1(2) in \<open>simp add: y charged_def gas_post_def\<close>)
  qed
  then show ?thesis using assms(1,2) by (simp add: charge_dynamic_def)
qed

lemma charge_ready:
  assumes rel: "op_rel (EmptyCodeHash (e_Keccak256 E)) (lasts (EmptyCodeHash (e_Keccak256 E))) o'" and r: "ready E d run m sc"
    and c: "fine (charged mm sz B m (sc_Contract sc)) (charge_dynamic E o' m (sc_Contract sc) st (sc_Memory sc))"
    and link: "\<And>m2 (mem2 :: Memory) cost. B m2 cost \<Longrightarrow> (mm \<longrightarrow> unat sz \<le> length (store mem2)) \<Longrightarrow>
       Pre E m2 (length (store mem2)) (sc_Stack sc) \<and> X m2 (sc_Stack sc) \<le> cost \<and> (strict \<longrightarrow> X m2 (sc_Stack sc) < cost)"
  shows "fine (charge_post E d run sc Pre X strict) (charge_dynamic E o' m (sc_Contract sc) st (sc_Memory sc))"
proof (rule fine_mono[OF c])
  fix y assume y: "charge_dynamic E o' m (sc_Contract sc) st (sc_Memory sc) = Ok y" "charged mm sz B m (sc_Contract sc) y"
  show "charge_post E d run sc Pre X strict y"
  proof (cases y)
    case (Inr b)
    obtain m2 c2 mem2 where b: "b = (m2, c2, mem2)" by (cases b)
    have m: "machine_step (lasts (EmptyCodeHash (e_Keccak256 E))) m m2"
      using lasting_view.charge_rel(2)[OF rel] y(1) by (simp add: Inr b)
    have "state_inv (m_StateDB m2)" "AddressInAccessList (c_self (sc_Contract sc)) (m_StateDB m2)" "m_depth m2 = m_depth m"
      using m r lasts_inv unfolding machine_step_def ready_def frame_def by blast+
    moreover obtain cost where "unat (c_Gas c2) + cost = unat (c_Gas (sc_Contract sc))" "B m2 cost"
      "m_returnData m2 = m_returnData m" "same_contract (sc_Contract sc) c2" "mem_ok mem2" "mm \<longrightarrow> unat sz \<le> length (store mem2)"
      using y(2) by (auto simp: charged_def Inr b)
    moreover from link[OF this(2) this(6)] have "Pre E m2 (length (store mem2)) (sc_Stack sc)" "X m2 (sc_Stack sc) \<le> cost"
      "strict \<longrightarrow> X m2 (sc_Stack sc) < cost" by blast+
    ultimately show ?thesis using r
      by (auto simp: charge_post_def Inr b ready_def scope_ok_def same_contract_def)
  qed (use y(2) in \<open>auto simp: charge_post_def charged_def\<close>)
qed

lemma dyn_charge:
  assumes "op_dynamicGas o' = Some g" "op_memorySize o' = None" "gas_safe k False B g"
    "\<And>E m st cost. B E m st cost \<Longrightarrow> strict \<Longrightarrow> 0 < cost"
  shows "charge_safe k no_pre no_gas strict o'"
  unfolding charge_safe_def
proof (intro allI impI)
  fix E d run m and sc :: ScopeContext
  assume rel: "op_rel (EmptyCodeHash (e_Keccak256 E)) (lasts (EmptyCodeHash (e_Keccak256 E))) o'"
    and r: "ready E d run m sc" and k: "k \<le> length (sc_Stack sc)"
  have n: "needed_memory E o' (sc_Stack sc) = Ok (Inr 0)" using assms(2) by (simp add: needed_memory_def)
  show "fine (charge_post E d run sc no_pre no_gas strict)
      (charge_dynamic E o' m (sc_Contract sc) (sc_Stack sc) (sc_Memory sc))"
    using r assms(4)
    by (intro charge_ready[OF rel r charge_raw[OF n assms(1,3) k]]) (auto simp: ready_def scope_ok_def no_pre_def no_gas_def)
qed

lemma mem_charge:
  assumes "op_dynamicGas o' = Some g" "op_memorySize o' = Some f" "gas_safe k True B g" "asks f k C"
    "\<And>n n' st. C n st \<Longrightarrow> n \<le> n' \<Longrightarrow> C n' st"
    "\<And>E m st n cost. B E m st cost \<Longrightarrow> C n st \<Longrightarrow> Pre E m n st \<and> X m st \<le> cost \<and> (strict \<longrightarrow> X m st < cost)"
  shows "charge_safe k Pre X strict o'"
  unfolding charge_safe_def
proof (intro allI impI)
  fix E d run m and sc :: ScopeContext
  assume rel: "op_rel (EmptyCodeHash (e_Keccak256 E)) (lasts (EmptyCodeHash (e_Keccak256 E))) o'"
    and r: "ready E d run m sc" and k: "k \<le> length (sc_Stack sc)"
  have u: "uint256 (e_U E)" using r by (simp add: ready_def env_ok_def)
  obtain x where x: "needed_memory E o' (sc_Stack sc) = Ok x"
    "\<forall>n. x = Inr n \<longrightarrow> 32 dvd unat n \<and> (\<exists>n0. C n0 (sc_Stack sc) \<and> n0 \<le> unat n)"
    using needed_memory_fine[OF assms(2,4) u k] by blast
  show "fine (charge_post E d run sc Pre X strict)
      (charge_dynamic E o' m (sc_Contract sc) (sc_Stack sc) (sc_Memory sc))"
  proof (cases x)
    case (Inl err)
    then show ?thesis using x(1) assms(1) by (simp add: charge_dynamic_def charge_post_def)
  next
    case (Inr n)
    have n: "32 dvd unat n" "C (unat n) (sc_Stack sc)" using x(2) Inr assms(5) by blast+
    show ?thesis
    proof (rule charge_ready[OF rel r charge_raw[OF x(1)[unfolded Inr] assms(1,3) k n(1)]])
      fix m2 and mem2 :: Memory and cost
      assume b: "B E m2 (sc_Stack sc) cost" "True \<longrightarrow> unat n \<le> length (store mem2)"
      then have "C (length (store mem2)) (sc_Stack sc)" using assms(5)[OF n(2)] by blast
      from assms(6)[OF b(1) this] show "Pre E m2 (length (store mem2)) (sc_Stack sc) \<and> X m2 (sc_Stack sc) \<le> cost \<and>
        (strict \<longrightarrow> X m2 (sc_Stack sc) < cost)" .
    qed (use r in \<open>auto simp: ready_def scope_ok_def\<close>)
  qed
qed

subsection \<open>The table of instructions\<close>

lemma simple_safe:
  "exec_safe pops push no_pre no_gas f \<Longrightarrow> push \<le> 1024 + pops \<Longrightarrow> stops f \<or> 0 < unat g \<Longrightarrow> op_safe (simple_op f g pops push)"
  by (rule op_safeI[OF const_charge]) (simp_all add: simple_op_def stack_table_defs)

lemma dyn_safe:
  "exec_safe pops push no_pre no_gas f \<Longrightarrow> push \<le> 1024 + pops \<Longrightarrow> gas_safe pops False B d \<Longrightarrow> 0 < unat g \<Longrightarrow>
   op_safe (dyn_op f g d pops push)"
  by (rule op_safeI[where strict = False, OF dyn_charge]) (simp_all add: dyn_op_def stack_table_defs)

lemma dyn_only_safe:
  "exec_safe pops push no_pre no_gas f \<Longrightarrow> push \<le> 1024 + pops \<Longrightarrow> gas_safe pops False (at_least b) d \<Longrightarrow> 0 < b \<Longrightarrow>
   op_safe (dyn_op f g d pops push)"
  by (rule op_safeI[where strict = True, OF dyn_charge[where B = "at_least b"]]) (auto simp: dyn_op_def stack_table_defs at_least_def)

lemma mem_safe:
  assumes "exec_safe k push (covered i j) no_gas f" "push \<le> 1024 + k" "gas_safe k True B d" "i < k" "j < k"
    "stops f \<or> 0 < unat g \<or> (\<exists>b. B = at_least b \<and> 0 < b)"
  shows "op_safe (mem_op f g d k push (mem_size_at i j))"
proof (rule op_safeI[where strict = "\<exists>b. B = at_least b \<and> 0 < b", OF mem_charge[OF _ _ assms(3) asks_at[OF assms(4,5)]]])
  show "covers n (st ! i) (st ! j) \<Longrightarrow> n \<le> n' \<Longrightarrow> covers n' (st ! i) (st ! j)" for n n' and st :: stack by (rule covers_mono)
qed (use assms in \<open>auto simp: mem_op_def stack_table_defs covered_def no_gas_def at_least_def\<close>)

lemma mem_const_safe:
  assumes "exec_safe k push (covered_const i (ucast l)) no_gas f" "push \<le> 1024 + k" "gas_safe k True B d" "i < k" "0 < unat g"
  shows "op_safe (mem_op f g d k push (mem_size_const i l))"
proof (rule op_safeI[where strict = False, OF mem_charge[OF _ _ assms(3) asks_const[OF assms(4)]]])
  show "covers n (st ! i) (ucast l) \<Longrightarrow> n \<le> n' \<Longrightarrow> covers n' (st ! i) (ucast l)" for n n' and st :: stack by (rule covers_mono)
qed (use assms in \<open>auto simp: mem_op_def stack_table_defs covered_const_def no_gas_def\<close>)

lemma mem_call_safe:
  assumes "exec_safe k push (both (covered i j) (both (covered i' j') callee_warm)) (if val then forwarded_value else forwarded) f"
    "push \<le> 1024 + k" "gas_safe k True (call_bound val) d" "i < k" "j < k" "i' < k" "j' < k" "0 < unat g"
  shows "op_safe (mem_op f g d k push (mem_size_max (mem_size_at i j) (mem_size_at i' j')))"
proof (rule op_safeI[where strict = False, OF mem_charge[OF _ _ assms(3) asks_max[OF asks_at[OF assms(4,5)] asks_at[OF assms(6,7)]]]])
  show "covers n (st ! i) (st ! j) \<and> covers n (st ! i') (st ! j') \<Longrightarrow> n \<le> n' \<Longrightarrow>
      covers n' (st ! i) (st ! j) \<and> covers n' (st ! i') (st ! j')" for n n' and st :: stack
    using covers_mono by blast
qed (use assms in \<open>auto simp: mem_op_def stack_table_defs covered_def both_def callee_warm_def call_bound_def
      forwarded_def forwarded_value_def\<close>)

lemmas memory_defs =
  memoryKeccak256_def memoryCallDataCopy_def memoryReturnDataCopy_def memoryCodeCopy_def memoryExtCodeCopy_def
  memoryMLoad_def memoryMStore8_def memoryMStore_def memoryCreate_def memoryCreate2_def memoryCall_def
  memoryDelegateCall_def memoryStaticCall_def memoryReturn_def memoryRevert_def memoryLog_def

lemmas memory_gas_defs =
  memoryCopierGas_def gasCallDataCopy_def gasCodeCopy_def gasReturnDataCopy_def gasKeccak256_def
  gasCreateEip3860_def gasCreate2Eip3860_def

lemma table_arithmetic_safe: "list_all (\<lambda>(b, o'). op_safe o') table_arithmetic"
  unfolding table_arithmetic_def list.pred_inject prod.case pure_op_defs
  by (intro conjI; (rule simple_safe dyn_only_safe[OF _ _ gas_safe_exp], rule safe_pure safe_flow)?; simp add: stops_all)

lemma table_environment_safe: "list_all (\<lambda>(b, o'). op_safe o') table_environment"
  unfolding table_environment_def list.pred_inject prod.case pure_op_defs memory_defs memory_gas_defs
  by (intro conjI;
      (rule simple_safe dyn_safe[OF _ _ gas_safe_account] mem_safe[OF _ _ gas_safe_memory_and] mem_safe[OF _ _ gas_safe_extcodecopy],
       rule safe_pure safe_flow safe_reads safe_keccak safe_calldataload safe_copy safe_extcodecopy)?; simp)

lemma safe_words:
  "exec_safe 1 1 (covered_const 0 (ucast (32 :: u64))) no_gas opMload"
  "exec_safe 2 0 (covered_const 0 (ucast (32 :: u64))) no_gas opMstore"
  "exec_safe 2 0 (covered_const 0 (ucast (1 :: u64))) no_gas opMstore8"
  using safe_mload safe_mstore safe_mstore8 by simp_all

lemma table_flow_safe: "list_all (\<lambda>(b, o'). op_safe o') table_flow"
  unfolding table_flow_def list.pred_inject prod.case pure_op_defs memory_defs
  by (intro conjI;
      (rule simple_safe dyn_only_safe[OF _ _ gas_safe_sload] dyn_only_safe[OF _ _ gas_safe_sstore] mem_const_safe[OF _ _ gas_safe_pure],
       rule safe_pure safe_flow safe_reads safe_jump safe_words)?; simp)

lemma table_calls_safe: "list_all (\<lambda>(b, o'). op_safe o') table_calls"
proof -
  have log: "op_safe (mem_op (makeLog n) 0 (lift_gas (makeGasLog n')) k 0 (mem_size_at 0 1))" if "k = n + 2" for n n' k
    unfolding that by (rule mem_safe[OF safe_log _ gas_safe_log]) auto
  have calls:
    "op_safe (mem_op opCall WarmStorageReadCostEIP2929 (makeCallVariantGasCallEIP2929 gasCall) 7 1
       (mem_size_max (mem_size_at 5 6) (mem_size_at 3 4)))"
    "op_safe (mem_op opDelegateCall WarmStorageReadCostEIP2929 (makeCallVariantGasCallEIP2929 gasDelegateCall) 6 1
       (mem_size_max (mem_size_at 4 5) (mem_size_at 2 3)))"
    "op_safe (mem_op opStaticCall WarmStorageReadCostEIP2929 (makeCallVariantGasCallEIP2929 gasStaticCall) 6 1
       (mem_size_max (mem_size_at 4 5) (mem_size_at 2 3)))"
    by (rule mem_call_safe[OF _ _ gas_safe_variant[OF call_gas_safe_value]]
             mem_call_safe[OF _ _ gas_safe_variant[OF call_gas_safe_simple(1)]]
             mem_call_safe[OF _ _ gas_safe_variant[OF call_gas_safe_simple(2)]];
        (simp only: if_True if_False, rule safe_call safe_delegate safe_static)?; simp)+
  show ?thesis
    unfolding table_calls_def list.pred_inject prod.case pure_op_defs memory_defs memory_gas_defs gas_variant_defs
    by (intro conjI calls;
        (rule log | (rule simple_safe mem_safe[OF _ _ gas_safe_memory_and] mem_safe[OF _ _ gas_safe_pure],
         rule safe_pure safe_create safe_return safe_returndatacopy))?; simp add: stops_all)
qed

lemma table_later_safe: "list_all (\<lambda>(b, o'). op_safe o') table_later"
  unfolding table_later_def list.pred_inject prod.case pure_op_defs memory_defs memory_gas_defs
  by (intro conjI;
      (rule simple_safe dyn_safe[OF _ _ gas_safe_account] mem_safe[OF _ _ gas_safe_memory_and],
       rule safe_pure safe_flow safe_reads safe_create)?; simp)

lemma table_safe: "op_safe (newZondInstructionSet op)"
proof (rule table_induct[where P = op_safe])
  have push: "op_safe (simple_op (makePush sz n) GasFastestStep 0 1)" for sz n
    by (rule simple_safe[OF safe_push]) simp_all
  have p: "list_all (\<lambda>(b, o'). op_safe o') (table_push_low @ table_push_high)"
    unfolding table_push_low_def table_push_high_def push_entry_def list_all_append list.pred_map
    by (auto simp: list_all_iff push[simplified])
  have dup: "op_safe \<lparr>op_execute = makeDup n, op_constantGas = GasFastestStep, op_dynamicGas = None,
      op_minStack = minDupStack n, op_maxStack = maxDupStack n, op_memorySize = None\<rparr>" if "1 \<le> n" for n
    by (rule op_safeI[OF const_charge, where pops = n and push = "Suc n"]) (use safe_dup[OF that] in \<open>simp_all add: stack_table_defs\<close>)
  have d: "list_all (\<lambda>(b, o'). op_safe o') table_dup"
    unfolding table_dup_def list.pred_map by (simp only: list_all_iff o_def prod.case) (rule ballI, rule dup, simp)
  have swap: "op_safe \<lparr>op_execute = makeSwap n, op_constantGas = GasFastestStep, op_dynamicGas = None,
      op_minStack = minSwapStack (n + 1), op_maxStack = maxSwapStack (n + 1), op_memorySize = None\<rparr>" for n
    by (rule op_safeI[OF const_charge, where pops = "n + 1" and push = "n + 1"]) (use safe_swap[of n] in \<open>simp_all add: stack_table_defs\<close>)
  have w: "list_all (\<lambda>(b, o'). op_safe o') table_swap"
    unfolding table_swap_def list.pred_map by (simp only: list_all_iff o_def prod.case) (rule ballI, rule swap)
  show "list_all (\<lambda>(b, o'). op_safe o') zond_table"
    using p d w table_arithmetic_safe table_environment_safe table_flow_safe table_calls_safe table_later_safe
    by (simp add: zond_table_def)
  show "op_safe undefined_op"
    by (rule op_safeI[OF const_charge]) (auto simp: undefined_op_def stack_table_defs safe_flow stops_all)
qed

subsection \<open>One round\<close>

lemma step_beyond:
  assumes "length (c_Code (sc_Contract sc)) \<le> unat pc"
  shows "fine (step_post sc) (step E run pc m sc)"
proof -
  have "length (c_Code (sc_Contract sc)) < 2 ^ 64" using assms unat_u64_less[of pc] by linarith
  then have "GetOp pc (sc_Contract sc) = STOP" using assms by (simp add: GetOp_def u64_less u64_of_nat)
  moreover have "newZondInstructionSet STOP = simple_op opStop 0 0 0"
    by (simp add: newZondInstructionSet_def zond_table_def table_arithmetic_def STOP_def)
  ultimately show ?thesis
    by (simp add: step_eq step_with_def simple_op_def Let_def UseGas_def charge_dynamic_def opStop_def fail_def step_post_def stack_table_defs)
qed

lemma ready_step:
  assumes r: "ready E d run m sc" and s: "step E run pc m sc = Ok (Inr (pc', m', sc'))" and post: "step_post sc (Inr (pc', m', sc'))"
  shows "ready E d run m' sc'"
proof -
  have m: "machine_step (lasts (EmptyCodeHash (e_Keccak256 E))) m m'"
    using lasting_view.step_rel(2)[OF HOL.refl _ s] r by (simp add: ready_def)
  have "state_inv (m_StateDB m')" "AddressInAccessList (c_self (sc_Contract sc)) (m_StateDB m')" "m_depth m' = m_depth m"
    using m r lasts_inv unfolding machine_step_def ready_def frame_def by blast+
  then show ?thesis using r post by (simp add: ready_def step_post_def same_contract_def)
qed

lemma step_fine:
  assumes "ready E d run m sc"
  shows "fine (\<lambda>r. step_post sc r \<and> (\<forall>pc' m' sc'. r = Inr (pc', m', sc') \<longrightarrow> ready E d run m' sc')) (step E run pc m sc)"
proof -
  have "fine (step_post sc) (step E run pc m sc)"
  proof (cases "unat pc < length (c_Code (sc_Contract sc))")
    case True
    then show ?thesis unfolding step_eq
      using table_safe[unfolded op_safe_def, rule_format, OF lasting_view.table_rel assms True] by blast
  qed (simp add: step_beyond)
  then show ?thesis by (rule fine_mono) (use ready_step[OF assms] in auto)
qed

subsection \<open>The loop and the recursion\<close>

definition run_ok :: "u64 \<Rightarrow> run_result \<Rightarrow> bool" where
  "run_ok gas = (\<lambda>(ret, err, c', m'). length ret < 2 ^ 63 \<and> unat (c_Gas c') \<le> unat gas)"

lemma loop_fine:
  "ready E d run m sc \<Longrightarrow> unat (c_Gas (sc_Contract sc)) < n \<Longrightarrow>
   fine (run_ok (c_Gas (sc_Contract sc))) (run_loop n E run pc m sc)"
proof (induction n arbitrary: pc m sc)
  case (Suc n)
  show ?case unfolding run_loop.simps
  proof (rule fine_bind[OF step_fine[OF Suc.prems(1)]], goal_cases)
    case (1 y)
    show ?case
    proof (cases y)
      case (Inl a)
      then show ?thesis using 1(2) by (cases a) (simp add: step_post_def run_ok_def)
    next
      case (Inr b)
      obtain pc' m' sc' where b: "b = (pc', m', sc')" by (cases b)
      have p: "ready E d run m' sc'" "unat (c_Gas (sc_Contract sc')) < unat (c_Gas (sc_Contract sc))"
        using 1(2) by (auto simp: Inr b step_post_def)
      have "fine (run_ok (c_Gas (sc_Contract sc'))) (run_loop n E run pc' m' sc')"
        using Suc.IH[OF p(1)] p(2) Suc.prems(2) by simp
      then have "fine (run_ok (c_Gas (sc_Contract sc))) (run_loop n E run pc' m' sc')"
        by (rule fine_mono) (use p(2) in \<open>auto simp: run_ok_def\<close>)
      then show ?thesis by (simp add: Inr b)
    qed
  qed
qed simp

definition start :: "Contract \<Rightarrow> bytes \<Rightarrow> ScopeContext" where
  "start contract input = \<lparr>sc_Memory = NewMemory, sc_Stack = [], sc_Contract = contract\<lparr>c_Input := input\<rparr>\<rparr>"

lemma start_ready:
  assumes "env_ok E" "run_safe d (Run d E)" "state_inv (m_StateDB m)" "AddressInAccessList (c_self c) (m_StateDB m)"
    "length (c_Code c) < 2 ^ 63" "length input < 2 ^ 63" "unat (c_Gas c) < 2 ^ 63" "1025 \<le> m_depth m + Suc d"
  shows "ready E d (Run d E) (enter ro m) (start c input)"
  using assms lasting_view.Run_rel[OF HOL.refl, of E d]
  by (simp add: ready_def start_def enter_def scope_ok_def mem_ok_New)

lemma Run_safe: "env_ok E \<Longrightarrow> run_safe d (Run d E)"
proof (induction d)
  case (Suc d)
  have "fine (run_ok (c_Gas c)) (Run (Suc d) E c input ro m)"
    if a: "state_inv (m_StateDB m)" "AddressInAccessList (c_self c) (m_StateDB m)"
      "length (c_Code c) < 2 ^ 63" "length input < 2 ^ 63" "unat (c_Gas c) < 2 ^ 63" "1025 \<le> m_depth m + Suc d" for c input ro m
  proof -
    have r: "ready E d (Run d E) (enter ro m) (start c input)" by (rule start_ready[OF Suc.prems Suc.IH[OF Suc.prems] a])
    have "fine (run_ok (c_Gas c)) (run_loop (Suc (unat (c_Gas c))) E (Run d E) 0 (enter ro m) (start c input))"
      using loop_fine[OF r, of "Suc (unat (c_Gas c))"] by (simp add: start_def)
    then have "fine (run_ok (c_Gas c)) (bind_outcome (run_loop (Suc (unat (c_Gas c))) E (Run d E) 0 (enter ro m) (start c input))
        (\<lambda>(ret, err, c, m2). Ok (ret, err, c, leave ro m m2)))"
      by (rule fine_bind) (auto simp: run_ok_def)
    then show ?thesis by (simp add: start_def run_ok_def Let_def del: run_loop.simps)
  qed
  then show ?case by (simp add: run_safe_def run_ok_def del: Run.simps)
qed (simp add: run_safe_def)

lemma machine_calls_ok:
  assumes "env_ok E" "state_inv (m_StateDB m)" "length input < 2 ^ 63" "unat gas < 2 ^ 63"
  shows "calls_ok (EmptyCodeHash (e_Keccak256 E)) depth_bound (Run depth_bound E) m input gas"
  using assms lasting_view.Run_rel[OF HOL.refl, of E depth_bound] Run_safe[OF assms(1), of depth_bound]
  by (simp add: calls_ok_def depth_bound_def)

lemma qrvm_Call_fine:
  assumes "env_ok E" "state_inv (m_StateDB m)" "length input < 2 ^ 63" "unat gas < 2 ^ 63" "AddressInAccessList addr (m_StateDB m)"
  shows "fine (call_ok gas) (qrvm_Call E caller addr input gas val m)"
  unfolding qrvm_Call_def by (rule Call_fine[OF machine_calls_ok[OF assms(1-4)] assms(5)])

lemma qrvm_Create_fine:
  assumes "env_ok E" "state_inv (m_StateDB m)" "length code < 2 ^ 63" "unat gas < 2 ^ 63"
  shows "fine (create_ok gas) (qrvm_Create E caller code gas val m)"
  unfolding qrvm_Create_def by (rule Create_fine[OF HOL.refl machine_calls_ok[OF assms]])

subsection \<open>States of the loop\<close>

inductive reaches :: "vm_env \<Rightarrow> runner \<Rightarrow> QRVM \<times> ScopeContext \<Rightarrow> QRVM \<times> ScopeContext \<Rightarrow> bool" for E run x where
  reaches_start: "reaches E run x x"
| reaches_step: "reaches E run x (m, sc) \<Longrightarrow> step E run pc m sc = Ok (Inr (pc', m', sc')) \<Longrightarrow> reaches E run x (m', sc')"

lemma reaches_ready:
  assumes "reaches E run x y" "ready E d run (fst x) (snd x)" "length (sc_Stack (snd x)) \<le> 1024"
  shows "ready E d run (fst y) (snd y) \<and> length (sc_Stack (snd y)) \<le> 1024 \<and>
    unat (c_Gas (sc_Contract (snd y))) \<le> unat (c_Gas (sc_Contract (snd x)))"
  using assms
proof (induction rule: reaches.induct)
  case (reaches_step m sc pc pc' m' sc')
  then have "ready E d run m sc" by simp
  from step_fine[OF this, of pc] reaches_step show ?case by (auto simp: step_post_def)
qed simp

end
