(* ===== verification/Example.thy ===== *)
theory Example
  imports CallBranches
begin

text \<open>
  A small world to run the model on: an empty chain with one funded account and two contracts, a hash
  function that is injective on short inputs, and the 256-bit integers of \<open>Uint256\<close>.
\<close>

definition ex_hasher :: "bytes \<Rightarrow> hash" where
  "ex_hasher bs = word_of_nat (bytes_to_nat (1 # bs))"

definition ex_db :: Database where
  "ex_db = \<lparr>OpenStorageTrie = (\<lambda>_ _ _. Inr (\<lambda>_ _. Inr [])), ContractCode = (\<lambda>_ _. ([], None)),
     ContractCodeSize = (\<lambda>_ _. (0, None))\<rparr>"

definition ex_genesis :: statedb where
  "ex_genesis = New EmptyRootHash ex_db (\<lambda>_. Inr None) ex_hasher None"

text \<open>\<open>PUSH1 1 PUSH1 0 SSTORE\<close>, followed by a revert in the second contract.\<close>

definition ex_code_store :: bytes where
  "ex_code_store = [0x60, 1, 0x60, 0, 0x55]"

definition ex_code_revert :: bytes where
  "ex_code_revert = ex_code_store @ [0x60, 0, 0x60, 0, 0xfd]"

definition ex_state :: statedb where
  "ex_state = SetCode 0x78 ex_code_revert (SetCode 0x77 ex_code_store (AddBalance 0x11 1000 ex_genesis))"

definition ex_warm :: statedb where
  "ex_warm = AddAddressToAccessList 0x78 (AddAddressToAccessList 0x77 (AddAddressToAccessList 0x11 ex_state))"

definition ex_env :: vm_env where
  "ex_env = \<lparr>
     e_Context = \<lparr>ctx_GetHash = (\<lambda>_. 0), ctx_Coinbase = 0xC0, ctx_GasLimit = 20000000, ctx_BlockNumber = 1,
       ctx_Time = 10, ctx_BaseFee = Some 7, ctx_Random = Some 3\<rparr>,
     e_TxContext = \<lparr>tx_Origin = 0x11, tx_GasPrice = 7\<rparr>,
     e_ChainID = 1, e_NoBaseFee = False, e_EnablePreimageRecording = False, e_abort = (\<lambda>_. False),
     e_U = uint256_words, e_Keccak256 = ex_hasher, e_Sum256 = ex_hasher, e_ssz = (\<lambda>_. 0)\<rparr>"

definition ex_machine :: QRVM where
  "ex_machine = \<lparr>m_StateDB = ex_warm, m_depth = 0, m_readOnly = False, m_returnData = [], m_callGasTemp = 0,
     m_jumpdests = Map.empty, m_loads = 0\<rparr>"

subsection \<open>The world satisfies the invariants\<close>

lemma New_ok:
  assumes "\<And>a. tr a = Inr None"
  shows "sdb_ok (New root db tr h None)" "accounts (New root db tr h None) = Map.empty"
  using assms
  by (auto simp: sdb_ok_def sdb_wf_def view_ok_def New_def env_wf_def load_view_def env_of_def newJournal_def revs_wf_def
      accounts_def live_acct_def view_def acct_view_def)

lemma ex_genesis_ok: "sdb_ok ex_genesis" "accounts ex_genesis = Map.empty" "fresh_env (env_of ex_genesis)" "s_hasher ex_genesis = ex_hasher"
  unfolding ex_genesis_def
  by (simp_all add: New_ok) (simp_all add: New_def fresh_env_def read_view_def trie_view_def ex_db_def newObject_def)

text \<open>The state is made by operations of the specification.\<close>

definition ex_ops :: "state_op list" where
  "ex_ops = [OpAddBalance 0x11 1000, OpSetCode 0x77 ex_code_store, OpSetCode 0x78 ex_code_revert]"

lemma ex_state_ops: "apply_ops ex_ops ex_genesis = Some ex_state"
  by (simp add: ex_ops_def ex_state_def)

lemma ex_state_ok:
  "good_step ex_genesis ex_state" "accounts ex_state = fold (spec_op ex_hasher) ex_ops Map.empty"
  using apply_ops_refines(2)[OF ex_genesis_ok(1,3), of ex_ops] ex_state_ops ex_genesis_ok(2,4) by auto

lemma ex_warm_ok: "good_step ex_genesis ex_warm" "accounts ex_warm = fold (spec_op ex_hasher) ex_ops Map.empty"
  using ex_state_ok unfolding ex_warm_def
  by (auto simp: accounts_quiet intro!: good_step_trans[OF _ good_AddAddressToAccessList])

lemma ex_accounts:
  "accounts ex_warm a =
     (if a = 0x78 then Some ((new_Account ex_hasher)\<lparr>ac_CodeHash := hash_bytes (ex_hasher ex_code_revert), ac_Code := ex_code_revert\<rparr>)
      else if a = 0x77 then Some ((new_Account ex_hasher)\<lparr>ac_CodeHash := hash_bytes (ex_hasher ex_code_store), ac_Code := ex_code_store\<rparr>)
      else if a = 0x11 then Some ((new_Account ex_hasher)\<lparr>ac_Balance := 1000\<rparr>) else None)"
  by (simp add: ex_warm_ok ex_ops_def account_or_new_def new_Account_def)

lemma ex_warm_inv: "sdb_ok ex_warm" "fresh_env (env_of ex_warm)" "state_inv ex_warm"
proof -
  show ok: "sdb_ok ex_warm" and fr: "fresh_env (env_of ex_warm)"
    using ok_fresh_extends[OF ex_genesis_ok(1) ex_warm_ok(1)] ex_genesis_ok(3) by simp_all
  have "length (ac_Code v) < 2 ^ 63" if "accounts ex_warm a = Some v" for a v
    using that by (auto simp: ex_accounts new_Account_def ex_code_store_def ex_code_revert_def split: if_splits)
  then show "state_inv ex_warm" using ok fr unfolding state_inv_def by blast
qed

lemma ex_machine_sel [simp]:
  "m_StateDB ex_machine = ex_warm" "m_depth ex_machine = 0" "m_readOnly ex_machine = False" "m_returnData ex_machine = []"
  by (simp_all add: ex_machine_def)

lemma ex_env_sel [simp]: "e_U ex_env = uint256_words" "e_Keccak256 ex_env = ex_hasher" "EmptyCodeHash ex_hasher = 1"
  by (simp_all add: ex_env_def EmptyCodeHash_def ex_hasher_def bytes_to_nat_def)

lemma ex_hash_bytes: "length bs \<le> 31 \<Longrightarrow> hash_bytes (ex_hasher bs) = replicate (31 - length bs) 0 @ 1 # bs"
proof -
  assume l: "length bs \<le> 31"
  let ?b = "replicate (31 - length bs) 0 @ 1 # bs"
  have "ex_hasher bs = BytesToHash ?b" using l by (simp add: ex_hasher_def BytesToHash_def bytes_to_nat_append)
  then show ?thesis using hash_bytes_BytesToHash[of ?b] l by simp
qed

lemma ex_address_bytes: "address_bytes 0x11 = replicate 19 0 @ [0x11]"
  using be_bytes_bytes_to_nat[of "replicate 19 0 @ [0x11]"] by (simp add: address_bytes_def)

lemma ex_encoded:
  "EncodeToBytes uint256_words (VSlice [VByteArray (replicate 19 0 @ [0x11]), VUint 0]) =
   Inr ([0xD6, 0x94] @ replicate 19 0 @ [0x11, 0x80])"
  by (subst EncodeToBytes_eq[OF uw.uint256_axioms]) (simp_all add: spec_str_def spec_lst_def spec_head_def)

lemma ex_CreateAddress: "CreateAddress ex_env 0x11 0 = 0x1180"
proof -
  let ?d = "[0xD6, 0x94] @ replicate 19 0 @ [0x11, 0x80]"
  have d: "drop 12 (hash_bytes (ex_hasher ?d)) = replicate 18 0 @ [0x11, 0x80]"
    by (subst ex_hash_bytes) simp_all
  have "CreateAddress ex_env 0x11 0 = BytesToAddress (replicate 18 0 @ [0x11, 0x80])"
    unfolding CreateAddress_def ex_env_sel ex_address_bytes ex_encoded Let_def sum.case d ..
  then show ?thesis by (simp add: BytesToAddress_def bytes_to_nat_append bytes_to_nat_Cons)
qed

subsection \<open>Calls in this world\<close>

lemma ex_fails: "\<exists>m'. qrvm_Call ex_env 0x11 4 [] 3 5 ex_machine = Ok ([], 0, Some ErrOutOfGas, m')"
  unfolding qrvm_Call_def
  by (rule Call_precompile_fails[where p = dataCopy and cost = 15])
     (simp_all add: ex_warm_inv balance_def ex_accounts precompile_def words_of_def u64_less)

lemma ex_warm_hasher: "s_hasher ex_warm = ex_hasher"
  using ok_fresh_extends[OF ex_genesis_ok(1) ex_warm_ok(1)] env_of_sel(3)[of ex_warm] env_of_sel(3)[of ex_genesis] ex_genesis_ok(4)
  by simp

lemma ex_warm_address: "AddressInAccessList 0x77 ex_warm"
  by (simp add: ex_warm_def AddressInAccessList_def AddAddressToAccessList_def Let_def case_prod_unfold ContainsAddress_AddAddress)

lemma ex_store_hash: "ex_hasher ex_code_store \<noteq> 0" "ex_hasher ex_code_store \<noteq> 1"
  by (simp_all add: ex_hasher_def ex_code_store_def bytes_to_nat_Cons)

lemma ex_transfer:
  "\<exists>s'. qrvm_Call ex_env 0x11 0x99 [] 21 5 ex_machine = Ok ([], 21, None, ex_machine\<lparr>m_StateDB := s'\<rparr>) \<and>
     accounts s' = spec_op ex_hasher (OpAddBalance 0x99 5) (spec_op ex_hasher (OpSubBalance 0x11 5) (accounts ex_warm))"
  using Call_transfer[of ex_machine 5 "AccountRef 0x11" "0x99" ex_env "Run depth_bound ex_env" "[]" 21] ex_warm_hasher
  by (simp add: qrvm_Call_def ex_warm_inv balance_def code_of_def ex_accounts precompile_def del: spec_op.simps) blast

lemma ex_create: "\<exists>m'. qrvm_Create ex_env 0x11 [] 100 5 ex_machine = Ok ([], 0x1180, 100, None, m')"
  using Create_empty[of ex_machine 5 "AccountRef 0x11" 0 ex_env 1024 100]
  by (simp add: qrvm_Create_def depth_bound_def ex_warm_inv ex_accounts balance_def new_Account_def ex_CreateAddress)

lemma ex_create_poor:
  "\<exists>m'. qrvm_Create ex_env 0x11 [] 100 5000 ex_machine = Ok ([], 0, 100, Some ErrInsufficientBalance, m')"
proof -
  have wf: "sdb_wf ex_warm" using ex_warm_inv(1) by (simp add: sdb_ok_def)
  let ?s = "snd (GetNonce 0x11 ex_warm)"
  have s: "same ex_warm ?s" using GetNonce_read[OF wf] by simp
  then have "sdb_wf ?s" using wf by (simp add: same_def)
  then have "\<not> fst (CanTransfer 0x11 5000 ?s)"
    by (simp add: fst_CanTransfer same_accounts[OF s] balance_def ex_accounts new_Account_def)
  then show ?thesis by (simp add: qrvm_Create_def Create_def create_def Let_def case_prod_unfold)
qed

end
