(* ===== verification/Spec2Isabelle.thy ===== *)
theory Spec2Isabelle
  imports VMSafety Example
begin

text \<open>
  A verification library for go-qrl, a node of the QRL network.
\<close>

section \<open>The world state\<close>

text \<open>
  C1. A state is a map from addresses to accounts. Any sequence of operations on a \<open>StateDB\<close>, with attempts
  that are reverted nested to any depth, does to that map what the specification of the operations says,
  whatever is cached, loaded from the database or journalled; no operation fails, and the invariant is kept.
\<close>

theorem StateDB_refines_accounts:
  assumes "sdb_ok s" "fresh_env (env_of s)"
  shows "\<exists>s'. apply_ops ops s = Some s' \<and> sdb_ok s' \<and>
    accounts s' = fold (spec_op (s_hasher s)) ops (accounts s)"
  using apply_ops_refines(2)[OF assms, of ops] ok_fresh_extends[OF assms(1)] by blast

theorem StateDB_refines_accounts_witness:
  "\<exists>s'. apply_ops [OpAddBalance 5 7, OpAttempt [OpSetNonce 5 1, OpCreateAccount 6]] ex_genesis = Some s' \<and>
     accounts s' = [5 \<mapsto> (new_Account ex_hasher)\<lparr>ac_Balance := 7\<rparr>]"
  using StateDB_refines_accounts[OF ex_genesis_ok(1,3), of "[OpAddBalance 5 7, OpAttempt [OpSetNonce 5 1, OpCreateAccount 6]]"]
  by (auto simp: ex_genesis_ok account_or_new_def new_Account_def simp del: apply_ops.simps apply_op.simps)



section \<open>Calls and creations\<close>

text \<open>
  C2. A call from outside that ends with an error, at whatever depth the error arose, leaves the state as it
  was. It also takes all the gas, except after a revert of the contract, or when the call was refused for
  its depth or for want of balance before anything was done.
\<close>

theorem failed_call_undone:
  assumes "sdb_ok (m_StateDB m)" "\<not> m_readOnly m" "qrvm_Call E caller addr input gas val m = Ok (ret, g, Some err, m')"
  shows "view (m_StateDB m') = view (m_StateDB m) \<and> sdb_ok (m_StateDB m') \<and>
    (g = 0 \<or> err = ErrExecutionReverted \<or>
     g = gas \<and> (err = ErrDepth \<and> 1024 < m_depth m \<or>
       err = ErrInsufficientBalance \<and> balance (accounts (m_StateDB m)) caller < val))"
proof -
  have "undone (\<lambda>_. good_step) (m_readOnly m) (m_StateDB m) (m_StateDB m')"
    using journalled.qrvm_Call_rel[OF refl _ assms(3)] assms(2) by (simp add: call_effect_def)
  then show ?thesis
    using undone_view[OF assms(1)] Call_error_gas[OF _ assms(3)[unfolded qrvm_Call_def]] assms(1) by (simp add: sdb_ok_def)
qed

theorem failed_call_undone_witness:
  "\<exists>m'. qrvm_Call ex_env 0x11 4 [] 3 5 ex_machine = Ok ([], 0, Some ErrOutOfGas, m') \<and> view (m_StateDB m') = view ex_warm"
  using ex_fails failed_call_undone[of ex_machine ex_env "0x11" 4 "[]" 3 5 "[]" 0 ErrOutOfGas] ex_warm_inv by auto

text \<open>
  C4. A static call changes no balance, nonce, code or storage slot of any account and adds no log, whatever
  code it runs and however deep the calls from there go.
\<close>

theorem static_call_observes_nothing:
  assumes "sdb_ok (m_StateDB m)" "fresh_env (env_of (m_StateDB m))"
    "StaticCall E (Run d E) caller addr input gas m = Ok (ret, g, err, m')"
  shows "observable (view (m_StateDB m')) = observable (view (m_StateDB m))"
  using static.StaticCall_read_only[OF static.Run_rel[OF refl] assms(3)] assms(1,2) by (simp add: keeps_obs_def)

theorem static_call_observes_nothing_witness:
  "\<exists>m'. StaticCall ex_env (Run 3 ex_env) (AccountRef 0x11) 4 [] 100 ex_machine = Ok ([], 85, None, m') \<and>
     observable (view (m_StateDB m')) = observable (view ex_warm)"
  using StaticCall_copy[of ex_machine ex_env "Run 3 ex_env" "AccountRef 0x11"] ex_warm_inv
    static_call_observes_nothing[of ex_machine ex_env 3 "AccountRef 0x11" 4 "[]" 100 "[]" 85 None] by auto

text \<open>
  C5. No call creates or destroys coins: the sum of all balances is the same after a call from outside.
\<close>

theorem call_conserves_supply:
  assumes "sdb_ok (m_StateDB m)" "fresh_env (env_of (m_StateDB m))" "\<not> m_readOnly m"
    "qrvm_Call E caller addr input gas val m = Ok (ret, g, err, m')"
  shows "total_supply (accounts (m_StateDB m')) = total_supply (accounts (m_StateDB m))"
  using conserved.qrvm_Call_rel[OF refl _ assms(4)] assms(1-3)
  by (simp add: call_effect_def machine_step_def good_and_def supply_kept_def accounts_view)

theorem call_conserves_supply_witness:
  "\<exists>m'. qrvm_Call ex_env 0x11 0x99 [] 21 5 ex_machine = Ok ([], 21, None, m') \<and>
     total_supply (accounts (m_StateDB m')) = total_supply (accounts ex_warm)"
  using ex_transfer call_conserves_supply[of ex_machine ex_env "0x11" "0x99" "[]" 21 5 "[]" 21 None] ex_warm_inv by fastforce

text \<open>
  C15. Creating a contract does not create or destroy coins either.
\<close>

theorem create_conserves_supply:
  assumes "sdb_ok (m_StateDB m)" "fresh_env (env_of (m_StateDB m))" "\<not> m_readOnly m"
    "qrvm_Create E caller code gas val m = Ok (ret, addr, g, err, m')"
  shows "total_supply (accounts (m_StateDB m')) = total_supply (accounts (m_StateDB m))"
  using conserved.qrvm_Create_rel[OF refl assms(3,4)] assms(1-3)
  by (simp add: machine_step_def good_and_def supply_kept_def accounts_view)

theorem create_conserves_supply_witness:
  "\<exists>m'. qrvm_Create ex_env 0x11 [] 100 5 ex_machine = Ok ([], 0x1180, 100, None, m') \<and>
     total_supply (accounts (m_StateDB m')) = total_supply (accounts ex_warm)"
  using ex_create create_conserves_supply[of ex_machine ex_env "0x11" "[]" 100 5 "[]" "0x1180" 100 None] ex_warm_inv by auto

text \<open>
  C6. Code is immutable: an account with code or a nonce keeps its code through any call, and new code is
  no longer than the limit and does not start with the reserved byte.
\<close>

theorem call_keeps_code:
  assumes "sdb_ok (m_StateDB m)" "fresh_env (env_of (m_StateDB m))" "\<not> m_readOnly m"
    "qrvm_Call E caller addr input gas val m = Ok (ret, g, err, m')"
  shows "code_kept (EmptyCodeHash (e_Keccak256 E)) (accounts (m_StateDB m)) (accounts (m_StateDB m')) \<and>
    code_checked (accounts (m_StateDB m)) (accounts (m_StateDB m'))"
  using immutable.qrvm_Call_rel[OF refl _ assms(4)] assms(1-3)
  by (simp add: call_effect_def machine_step_def good_and_def code_rel_def accounts_view)

theorem call_keeps_code_witness:
  "\<exists>m'. qrvm_Call ex_env 0x11 0x99 [] 21 5 ex_machine = Ok ([], 21, None, m') \<and>
     (\<exists>v. accounts (m_StateDB m') 0x77 = Some v \<and> ac_Code v = ex_code_store)"
proof -
  obtain s' where c: "qrvm_Call ex_env 0x11 0x99 [] 21 5 ex_machine = Ok ([], 21, None, ex_machine\<lparr>m_StateDB := s'\<rparr>)"
    using ex_transfer by blast
  have "code_kept 1 (accounts ex_warm) (accounts s')"
    using call_keeps_code[OF _ _ _ c] ex_warm_inv by simp
  moreover have "\<exists>v. accounts ex_warm 0x77 = Some v \<and> occupied 1 v \<and> ac_Code v = ex_code_store"
    by (simp add: ex_accounts occupied_def ex_store_hash)
  ultimately show ?thesis using c unfolding code_kept_def by fastforce
qed

text \<open>
  C16. The same for the creation of a contract: code that was there stays, code that was not there has passed
  the checks.
\<close>

theorem create_keeps_code:
  assumes "sdb_ok (m_StateDB m)" "fresh_env (env_of (m_StateDB m))" "\<not> m_readOnly m"
    "qrvm_Create E caller code gas val m = Ok (ret, addr, g, err, m')"
  shows "code_kept (EmptyCodeHash (e_Keccak256 E)) (accounts (m_StateDB m)) (accounts (m_StateDB m')) \<and>
    code_checked (accounts (m_StateDB m)) (accounts (m_StateDB m'))"
  using immutable.qrvm_Create_rel[OF refl assms(3,4)] assms(1-3)
  by (simp add: machine_step_def good_and_def code_rel_def accounts_view)

theorem create_keeps_code_witness:
  "\<exists>m'. qrvm_Create ex_env 0x11 [] 100 5 ex_machine = Ok ([], 0x1180, 100, None, m') \<and>
     code_checked (accounts ex_warm) (accounts (m_StateDB m'))"
  using ex_create create_keeps_code[of ex_machine ex_env "0x11" "[]" 100 5 "[]" "0x1180" 100 None] ex_warm_inv by auto

text \<open>
  C17. An address that was warm before a call is warm after it, also when the call fails.
\<close>

theorem call_keeps_warm:
  assumes "sdb_ok (m_StateDB m)" "fresh_env (env_of (m_StateDB m))" "\<not> m_readOnly m"
    "qrvm_Call E caller addr input gas val m = Ok (ret, g, err, m')" "AddressInAccessList a (m_StateDB m)"
  shows "AddressInAccessList a (m_StateDB m')"
  using warmth.qrvm_Call_rel[OF refl _ assms(4)] assms(1-3,5)
  by (simp add: call_effect_def machine_step_def good_and_def warm_kept_def AddressInAccessList_def)

theorem call_keeps_warm_witness:
  "\<exists>m'. qrvm_Call ex_env 0x11 0x99 [] 21 5 ex_machine = Ok ([], 21, None, m') \<and> AddressInAccessList 0x77 (m_StateDB m')"
  using ex_transfer call_keeps_warm[of ex_machine ex_env "0x11" "0x99" "[]" 21 5 "[]" 21 None _ "0x77"] ex_warm_inv ex_warm_address
  by fastforce



text \<open>
  C9. A call with a value to an address without code moves the value and uses no gas; an address without an
  account gets one.
\<close>

theorem call_transfers:
  assumes "sdb_ok (m_StateDB m)" "fresh_env (env_of (m_StateDB m))" "m_depth m \<le> 1024"
    "0 < val" "val \<le> balance (accounts (m_StateDB m)) caller" "precompile addr = None" "code_of (accounts (m_StateDB m)) addr = []"
  shows "\<exists>s'. qrvm_Call E caller addr input gas val m = Ok ([], gas, None, m\<lparr>m_StateDB := s'\<rparr>) \<and>
    accounts s' = spec_op (s_hasher (m_StateDB m)) (OpAddBalance addr val)
      (spec_op (s_hasher (m_StateDB m)) (OpSubBalance caller val) (accounts (m_StateDB m)))"
  using Call_transfer[of m val "AccountRef caller" addr E "Run depth_bound E" input gas] assms unfolding qrvm_Call_def by auto

theorem call_transfers_witness:
  "\<exists>s'. qrvm_Call ex_env 0x11 0x99 [] 21 5 ex_machine = Ok ([], 21, None, ex_machine\<lparr>m_StateDB := s'\<rparr>) \<and>
     balance (accounts s') 0x99 = 5 \<and> balance (accounts s') 0x11 = 995"
  using call_transfers[of ex_machine 5 "0x11" "0x99" ex_env "[]" 21]
  by (auto simp: ex_warm_inv balance_def code_of_def ex_accounts precompile_def account_or_new_def new_Account_def Let_def)

section \<open>Executions come to an end\<close>

lemma ex_env_ok: "env_ok ex_env"
  using uw.uint256_axioms by (simp add: env_ok_def) (simp add: ex_env_def)

text \<open>
  C3. A call from outside comes to an end, whatever code it runs: with gas below \<open>2 ^ 63\<close> one round per unit
  of gas and 1025 levels of calls are always enough. It does not panic, unless in the accounting of refunds or
  when two codes share a hash, and it returns no more gas than it was given.
\<close>

theorem call_ends:
  assumes "env_ok E" "state_inv (m_StateDB m)" "AddressInAccessList addr (m_StateDB m)" "length input < 2 ^ 63" "unat gas < 2 ^ 63"
  shows "(\<exists>ret g err m'. qrvm_Call E caller addr input gas val m = Ok (ret, g, err, m') \<and> unat g \<le> unat gas) \<or>
    qrvm_Call E caller addr input gas val m \<in> {Panic PanicRefund, Panic PanicBitmap}"
  using qrvm_Call_fine[OF assms(1,2,4,5,3), of caller val]
  by (cases "qrvm_Call E caller addr input gas val m") (auto simp: call_ok_def)

theorem call_ends_witness:
  "(\<exists>ret g err m'. qrvm_Call ex_env 0x11 0x77 [1, 2] 100000 5 ex_machine = Ok (ret, g, err, m') \<and> unat g \<le> 100000) \<or>
    qrvm_Call ex_env 0x11 0x77 [1, 2] 100000 5 ex_machine \<in> {Panic PanicRefund, Panic PanicBitmap}"
  using call_ends[OF ex_env_ok, of ex_machine "0x77" "[1, 2]" 100000 "0x11" 5] ex_warm_inv ex_warm_address by simp

text \<open>
  C10. The same for the creation of a contract, whatever its initialisation code does.
\<close>

theorem create_ends:
  assumes "env_ok E" "state_inv (m_StateDB m)" "length code < 2 ^ 63" "unat gas < 2 ^ 63"
  shows "(\<exists>ret a g err m'. qrvm_Create E caller code gas val m = Ok (ret, a, g, err, m') \<and> unat g \<le> unat gas) \<or>
    qrvm_Create E caller code gas val m \<in> {Panic PanicRefund, Panic PanicBitmap}"
  using qrvm_Create_fine[OF assms, of caller val]
  by (cases "qrvm_Create E caller code gas val m") (auto simp: create_ok_def)

theorem create_ends_witness:
  "(\<exists>ret a g err m'. qrvm_Create ex_env 0x11 ex_code_revert 100000 5 ex_machine = Ok (ret, a, g, err, m') \<and> unat g \<le> 100000) \<or>
    qrvm_Create ex_env 0x11 ex_code_revert 100000 5 ex_machine \<in> {Panic PanicRefund, Panic PanicBitmap}"
  using create_ends[OF ex_env_ok, of ex_machine ex_code_revert 100000 "0x11" 5] ex_warm_inv
  by (simp add: ex_code_revert_def ex_code_store_def)







section \<open>Gas, memory and jumps\<close>

text \<open>
  C19. Expanding memory costs the difference of the quadratic price before and after, and memory stays a
  whole number of words whose price has been paid.
\<close>

theorem memory_price:
  assumes "mem_ok mem" "32 dvd unat n" "memoryGasCost mem n = (Inr fee, mem')"
  shows "unat fee = memory_fee (max (length (store mem) div 32) (unat n div 32)) - memory_fee (length (store mem) div 32) \<and>
    mem_ok (if n > 0 then mem_Resize n mem' else mem') \<and>
    unat n \<le> length (store (if n > 0 then mem_Resize n mem' else mem'))"
proof -
  have "words_after mem n = max (length (store mem) div 32) (unat n div 32)"
    using assms(2) by (auto simp: words_after_def elim!: dvdE)
  then show ?thesis using memoryGasCost_Inr[OF assms(1,3)] mem_ok_Resize[OF assms(1,3,2)] by simp
qed

theorem memory_price_witness:
  "memoryGasCost NewMemory 64 = (Inr 6, \<lparr>store = [], lastGasCost = 6\<rparr>) \<and> mem_ok (mem_Resize 64 \<lparr>store = [], lastGasCost = 6\<rparr>)"
proof -
  have m: "memoryGasCost NewMemory 64 = (Inr 6, \<lparr>store = [], lastGasCost = 6\<rparr>)"
    by (simp add: memoryGasCost_def NewMemory_def mem_len_def toWordSize_def Let_def MaxUint64_def word_less_nat_alt)
  show ?thesis using m memory_price[OF mem_ok_New _ m] by simp
qed

text \<open>
  C20. A call can be given all but one 64th of the gas that is left after its own price, and no more than was
  asked for.
\<close>

theorem callGas_keeps_64th:
  assumes "uint256 U" "unat base \<le> unat avail"
  shows "unat (callGas U avail base x) = min (unat x) ((unat avail - unat base) - (unat avail - unat base) div 64)"
  using assms by (rule uint256.callGas_63_64)

theorem callGas_keeps_64th_witness: "unat (callGas uint256_words 6500 100 100000) = 6300"
  using callGas_keeps_64th[OF uw.uint256_axioms, of 100 6500 100000] by simp

text \<open>
  C21. The bitmap computed eight and sixteen bits at a time marks exactly the data bytes of push instructions,
  as a byte-by-byte reading of the code does.
\<close>

theorem codeBitmap_marks_data:
  "\<exists>b. codeBitmap code = Some b \<and> (\<forall>p < length code. codeSegment b p = Some (\<not> data_marks code ! p))"
  using codeBitmap_marks by blast

theorem codeBitmap_marks_data_witness:
  "\<exists>b. codeBitmap [0x61, 0x5b, 0x5b, 0x5b] = Some b \<and> codeSegment b 1 = Some False \<and> codeSegment b 3 = Some True"
proof -
  define code :: bytes where "code = [0x61, 0x5b, 0x5b, 0x5b]"
  have m: "data_marks code = [False, True, True, False]" "length code = 4" by (simp_all add: code_def push_size_def)
  obtain b where b: "codeBitmap code = Some b" "\<forall>p < length code. codeSegment b p = Some (\<not> data_marks code ! p)"
    using codeBitmap_marks_data by blast
  then have "codeSegment b 1 = Some False" "codeSegment b 3 = Some True" by (simp_all add: m)
  then show ?thesis using b(1) unfolding code_def by blast
qed

text \<open>
  C12. A jump is valid exactly when its target lies in the code, holds the instruction \<open>JUMPDEST\<close>, and is not data
  of a push instruction; the analysis of the code is kept for the next jump.
\<close>

theorem jump_targets:
  assumes "uint256 U" "length (c_Code c) < 2 ^ 63" "c_analysis c \<in> {None, codeBitmap (c_Code c)}"
    "m_jumpdests m (c_CodeHash c) \<in> {None, codeBitmap (c_Code c)}"
  shows "\<exists>c' m'. validJumpdest U dest c m =
      Ok (unat dest < length (c_Code c) \<and> c_Code c ! unat dest = JUMPDEST \<and> \<not> data_marks (c_Code c) ! unat dest, c', m') \<and>
    c_Code c' = c_Code c \<and> c_analysis c' \<in> {None, codeBitmap (c_Code c)} \<and>
    m_jumpdests m' (c_CodeHash c') \<in> {None, codeBitmap (c_Code c)}"
proof -
  obtain b where b: "codeBitmap (c_Code c) = Some b" "\<forall>p < length (c_Code c). codeSegment b p = Some (\<not> data_marks (c_Code c) ! p)"
    using codeBitmap_marks by blast
  show ?thesis
  proof (cases "unat dest < length (c_Code c)")
    case True
    then have d: "u_Uint64WithOverflow U dest = (ucast dest, False)" "unat (ucast dest :: u64) = unat dest"
      using assms(1,2) uint256.ucast_u64_exact[OF assms(1), of dest] by (simp_all add: uint256.Uint64WithOverflow uint256.Uint64)
    show ?thesis using True assms d b
      by (auto simp: validJumpdest_def isCode_def code_segment_def of_option_def Let_def word_le_nat_alt u64_of_nat split: option.split)
  next
    case False
    have "2 ^ 64 \<le> unat dest \<or> word_of_nat (length (c_Code c)) \<le> (ucast dest :: u64)"
      using False assms(1,2) uint256.ucast_u64_exact[OF assms(1), of dest] by (cases "unat dest < 2 ^ 64") (simp_all add: uint256.Uint64 word_le_nat_alt u64_of_nat)
    then have "validJumpdest U dest c m = Ok (False, c, m)"
      using assms(1) by (auto simp: validJumpdest_def Let_def uint256.Uint64WithOverflow)
    then show ?thesis using False assms(3,4) by simp
  qed
qed

theorem jump_targets_witness:
  "\<exists>c. c_Code c = [0x61, 0x5b, 0x5b, 0x5b] \<and> (\<exists>c1 m1. validJumpdest uint256_words 3 c ex_machine = Ok (True, c1, m1)) \<and>
     (\<exists>c1 m1. validJumpdest uint256_words 1 c ex_machine = Ok (False, c1, m1))"
proof -
  define c where "c = (fst (NewContract (AccountRef 0x11) 0x77 0 50 ex_machine))\<lparr>c_Code := [0x61, 0x5b, 0x5b, 0x5b]\<rparr>"
  have c: "c_analysis c = None" "m_jumpdests ex_machine = Map.empty" "c_Code c = [0x61, 0x5b, 0x5b, 0x5b]" "length (c_Code c) = 4"
    by (simp_all add: c_def NewContract_def ex_machine_def)
  have m: "data_marks (c_Code c) = [False, True, True, False]" by (simp add: c(3) push_size_def)
  have "c_Code c ! 3 = JUMPDEST" by (simp add: c(3) JUMPDEST_def)
  then have "\<exists>c1 m1. validJumpdest uint256_words 3 c ex_machine = Ok (True, c1, m1)"
    "\<exists>c1 m1. validJumpdest uint256_words 1 c ex_machine = Ok (False, c1, m1)"
    using jump_targets[OF uw.uint256_axioms, of c ex_machine 3] jump_targets[OF uw.uint256_axioms, of c ex_machine 1] c(1,2,4) m by auto
  then show ?thesis using c(3) by blast
qed

text \<open>
  C18. With gas below \<open>2 ^ 63\<close> no precompiled contract panics on any input, and none returns more gas than it
  was given. For the modular exponentiation this is because inputs that would overflow cost too much.
\<close>

theorem precompiles_total:
  assumes "length input < 2 ^ 63" "unat gas < 2 ^ 63"
  shows "\<exists>ret g err. RunPrecompiledContract E p input gas = Ok (ret, g, err) \<and> length ret < 2 ^ 63 \<and> unat g \<le> unat gas"
  using assms by (rule RunPrecompiledContract_total)

theorem precompiles_total_witness:
  "\<exists>ret g err. RunPrecompiledContract ex_env bigModExp [1, 2, 3] 200 = Ok (ret, g, err)"
  using precompiles_total[of "[1, 2, 3]" 200 ex_env bigModExp] by auto

section \<open>The codec\<close>

text \<open>
  C22. Encoding a value in two phases, with the list headers put in place when the output is
  assembled, gives the recursive definition of the format; the only error is a negative integer.
\<close>

theorem EncodeToBytes_spec:
  assumes "uint256 U" "length (value_spec v) < 2 ^ 63"
  shows "EncodeToBytes U v = (if has_negative v then Inl ErrNegativeBigInt else Inr (value_spec v))"
  using assms by (rule EncodeToBytes_eq)

theorem EncodeToBytes_spec_witness:
  "EncodeToBytes uint256_words (VStruct [VUint 5, VSlice [VBytes [1, 2], VBool True]]) =
   Inr [0xC6, 5, 0xC4, 0x82, 1, 2, 1]"
  using EncodeToBytes_spec[OF uw.uint256_axioms, of "VStruct [VUint 5, VSlice [VBytes [1, 2], VBool True]]"]
  by (simp add: spec_str_def spec_lst_def spec_head_def min_bytes_byte)

text \<open>
  C23. \<open>SplitString\<close> accepts a slice exactly when it begins with the canonical encoding of a string, and
  then returns that string and the rest.
\<close>

theorem SplitString_canonical:
  assumes "length b < 2 ^ 63"
  shows "SplitString b = Inr (content, rest) \<longleftrightarrow> b = rlp_spec (Str content) @ rest"
  using SplitString_iff[OF assms] by simp

theorem SplitString_canonical_witness:
  "SplitString [0x82, 1, 2, 7] = Inr ([1, 2], [7])"
  using SplitString_canonical[of "[0x82, 1, 2, 7]" "[1, 2]" "[7]"]
  by (simp add: spec_str_def spec_head_def)

text \<open>
  C24. \<open>SplitUint64\<close> accepts exactly what \<open>AppendUint64\<close> writes, and returns the number and the rest.
\<close>

theorem SplitUint64_inverts:
  assumes "length b < 2 ^ 63"
  shows "SplitUint64 b = Inr (x, rest) \<longleftrightarrow> b = AppendUint64 [] x @ rest"
  using assms by (rule SplitUint64_iff)

theorem SplitUint64_inverts_witness: "SplitUint64 [0x82, 0x12, 0x34, 7] = Inr (0x1234, [7])"
proof -
  have "min_bytes 0x1234 = [0x12, 0x34]" using min_bytes_eq[of 1 "0x1234"] by (simp add: be_bytes_numeral)
  then have "AppendUint64 [] 0x1234 = [0x82, 0x12, 0x34]" by (simp add: AppendUint64_eq spec_str_def spec_head_def)
  then show ?thesis using SplitUint64_inverts[of "[0x82, 0x12, 0x34, 7]" "0x1234" "[7]"] by simp
qed

text \<open>
  C25. Of the encoding of a list, \<open>SplitList\<close> returns the content, \<open>CountValues\<close> the number of elements, and the
  iterator the encoding of each element in turn.
\<close>

theorem CountValues_counts:
  assumes "length (rlp_spec (Lst xs)) < 2 ^ 63"
  shows "\<exists>content. SplitList (rlp_spec (Lst xs)) = Inr (content, []) \<and> CountValues content = Some (Inr (length xs)) \<and>
    (\<exists>it. NewListIterator (rlp_spec (Lst xs)) = Inr it \<and>
       (\<forall>k < length xs. it_next ((advance ^^ Suc k) it) = rlp_spec (xs ! k)))"
proof -
  let ?c = "concat (map rlp_spec xs)"
  have l: "length ?c < 2 ^ 63" using assms length_spec_lst[of ?c] by simp
  have "SplitList (rlp_spec (Lst xs)) = Inr (?c, [])" using SplitList_iff[OF assms] by simp
  then show ?thesis using CountValues_encoded[OF l] NewListIterator_encoded[OF assms] iterate_encoded[of _ xs] l by auto
qed

theorem CountValues_counts_witness:
  "\<exists>content. SplitList (rlp_spec (Lst [Str [1], Lst []])) = Inr (content, []) \<and> CountValues content = Some (Inr 2)"
  using CountValues_counts[of "[Str [1], Lst []]"] by (auto simp: spec_lst_def spec_str_def spec_head_def)

text \<open>
  C26. \<open>CountValues\<close> comes to an end on every slice, well-formed or not.
\<close>

theorem CountValues_terminates:
  assumes "length b < 2 ^ 63"
  shows "\<exists>r. CountValues b = Some r"
  using CountValues_total[OF assms] by simp

theorem CountValues_terminates_witness: "\<exists>r. CountValues [0xFF, 0] = Some r"
  using CountValues_terminates[of "[0xFF, 0]"] by simp

end
